(* ===== verification/Prelude.thy ===== *)
theory Prelude
  imports Main "HOL-Library.Word"
begin

text \<open>
  Shared vocabulary of the development: the machine integers, times and strings of the Go
  source, the parts of Go's built-in \<open>map\<close> that the relay uses (deletion, iteration in an
  unspecified order), and the generic notion of a reachable state with its invariant rule.
\<close>

named_theorems relay_defs \<open>definitions of the relay model that proofs unfold together\<close>
named_theorems inv_intros \<open>preservation facts of component invariants\<close>

section \<open>Machine types\<close>

type_synonym u32 = "32 word"
type_synonym u64 = "64 word"
type_synonym byte = "8 word"

text \<open>
  \<open>time.Time\<close> is an instant in nanoseconds since the epoch and \<open>time.Duration\<close> a number of
  nanoseconds. An agent URI, a service name and an endpoint are Go strings, that is byte
  sequences.
\<close>

type_synonym gotime = int
type_synonym duration = int
type_synonym uri = string
type_synonym endpoint = string

definition Millisecond :: duration where
  "Millisecond = 1000000"

definition Second :: duration where
  "Second = 1000 * Millisecond"

lemma Second_pos [simp]: "0 < Second"
  by (simp add: Second_def Millisecond_def)

lemma Millisecond_pos [simp]: "0 < Millisecond"
  by (simp add: Millisecond_def)

section \<open>Go maps\<close>

text \<open>
  A Go map is a partial function. \<open>delete(m, k)\<close> is \<open>m(k := None)\<close>. A \<open>range\<close> loop visits
  every key once, in an order the language leaves open: the order is an argument of each model
  that ranges over a map, and \<open>range_order\<close> says that it is a possible one.
\<close>

definition range_order :: "('k \<rightharpoonup> 'v) \<Rightarrow> 'k list \<Rightarrow> bool" where
  "range_order m ks \<longleftrightarrow> distinct ks \<and> set ks = dom m"

definition range_values :: "('k \<rightharpoonup> 'v) \<Rightarrow> 'k list \<Rightarrow> 'v list" where
  "range_values m ks = List.map_filter m ks"

lemma range_values_simps [simp]:
  "range_values m [] = []"
  "range_values m (k # ks) = (case m k of None \<Rightarrow> range_values m ks | Some v \<Rightarrow> v # range_values m ks)"
  by (simp_all add: range_values_def List.map_filter_def split: option.splits)

lemma set_range_values: "set (range_values m ks) = {v. \<exists>k \<in> set ks. m k = Some v}"
  by (induction ks) (auto split: option.splits)

lemma set_range_values_order: "range_order m ks \<Longrightarrow> set (range_values m ks) = ran m"
  by (auto simp: set_range_values range_order_def ran_def)

lemma fold_delete: "fold (\<lambda>k m. m(k := None)) ks m = (\<lambda>k. if k \<in> set ks then None else m k)"
  by (induction ks arbitrary: m) (auto simp: fun_eq_iff)

lemma dom_delete_card_le: "finite (dom m) \<Longrightarrow> card (dom (m(k := None))) \<le> card (dom m)"
  by (simp add: card_Diff1_le)

section \<open>Reachable states\<close>

inductive reach :: "('s \<Rightarrow> bool) \<Rightarrow> ('s \<Rightarrow> 's \<Rightarrow> bool) \<Rightarrow> 's \<Rightarrow> bool"
  for init :: "'s \<Rightarrow> bool" and step :: "'s \<Rightarrow> 's \<Rightarrow> bool" where
  reach_init: "init s \<Longrightarrow> reach init step s"
| reach_step: "reach init step s \<Longrightarrow> step s t \<Longrightarrow> reach init step t"

lemma reach_steps: "step\<^sup>*\<^sup>* s t \<Longrightarrow> reach init step s \<Longrightarrow> reach init step t"
  by (induction rule: rtranclp_induct) (auto intro: reach_step)

text \<open>
  The contract of an invariant: it holds initially and every step keeps it. A component gives
  the two facts by an interpretation and obtains the invariant on every reachable state.
\<close>

locale inductive_invariant =
  fixes init :: "'s \<Rightarrow> bool"
    and step :: "'s \<Rightarrow> 's \<Rightarrow> bool"
    and inv :: "'s \<Rightarrow> bool"
  assumes inv_init: "init s \<Longrightarrow> inv s"
    and inv_step: "step s t \<Longrightarrow> inv s \<Longrightarrow> inv t"
begin

lemma reach_inv: "reach init step s \<Longrightarrow> inv s"
  by (induction rule: reach.induct) (auto intro: inv_init inv_step)

lemma reach_step_inv: "reach init step s \<Longrightarrow> step s t \<Longrightarrow> inv t"
  by (blast intro: reach_inv inv_step)

end

text \<open>
  The contract of a forward simulation of one system by another: related initial states, and every step
  of the first from a related pair is matched by steps of the second. Then every reachable state of the
  first has a related reachable state of the second.
\<close>

locale simulation =
  fixes init :: "'s \<Rightarrow> bool"
    and step :: "'s \<Rightarrow> 's \<Rightarrow> bool"
    and init' :: "'t \<Rightarrow> bool"
    and step' :: "'t \<Rightarrow> 't \<Rightarrow> bool"
    and related :: "'s \<Rightarrow> 't \<Rightarrow> bool"
  assumes sim_init: "init s \<Longrightarrow> \<exists>t. init' t \<and> related s t"
    and sim_step: "step s s' \<Longrightarrow> related s t \<Longrightarrow> reach init step s \<Longrightarrow> reach init' step' t \<Longrightarrow>
      \<exists>t'. step'\<^sup>*\<^sup>* t t' \<and> related s' t'"
begin

lemma sim_reach:
  assumes "reach init step s"
  shows "\<exists>t. reach init' step' t \<and> related s t"
  using assms
proof (induction rule: reach.induct)
  case (reach_init s)
  from sim_init [OF this] show ?case by (blast intro: reach.reach_init)
next
  case (reach_step s s')
  then obtain t where t: "reach init' step' t" "related s t" by blast
  from sim_step [OF reach_step(2) t(2) reach_step(1) t(1)] obtain t' where "step'\<^sup>*\<^sup>* t t'" "related s' t'" by blast
  with reach_steps [OF this(1) t(1)] show ?case by blast
qed

end

end
