(* ===== verification/Registry.thy ===== *)
theory Registry
  imports Prelude
begin

text \<open>
  The relay's directory layer (\<open>pkg/registry/registry.go\<close>): the local map from agent URI to
  connected provider, and the calls to the controller. The controller and \<open>identity.Parse\<close> are
  parameters: \<open>Parse\<close> gives the tenant and whether the role is the relay role, an RPC gives an error
  text or its response.
\<close>

section \<open>The code\<close>

record identity_name =
  Tenant :: string
  RoleRelay :: bool

type_synonym identity_Parse = "uri \<rightharpoonup> identity_name"

datatype registry_error =
    ErrNoTenant uri
  | ErrRPC string
  | ErrServiceNotFound
  | ErrProviderRemote

record provider_pb =
  AgentUri :: uri
  RelayId :: string
  RelayEndpoint :: endpoint

record Remote =
  remote_RelayID :: string
  remote_Endpoint :: endpoint
  remote_AgentURI :: uri

record resolve_request =
  rq_Tenant :: string
  rq_ServiceName :: string
  rq_CallerRegion :: string

record register_request =
  rr_Tenant :: string
  rr_ServiceName :: string
  rr_AgentUri :: uri
  rr_RelayId :: string
  rr_LocalAddr :: string

record deregister_request =
  dr_Tenant :: string
  dr_AgentUri :: uri
  dr_RelayId :: string

record registry_client =
  rpc_Resolve :: "resolve_request \<Rightarrow> string + provider_pb list"
  rpc_RegisterService :: "register_request \<Rightarrow> string + string"

record 'p Registry =
  reg_relayID :: string
  reg_region :: string
  agentConns :: "uri \<rightharpoonup> 'p"

definition Registry_New :: "string \<Rightarrow> string \<Rightarrow> 'p Registry" where
  "Registry_New relayID region = \<lparr>reg_relayID = relayID, reg_region = region, agentConns = Map.empty\<rparr>"

definition tenantOf :: "identity_Parse \<Rightarrow> uri \<Rightarrow> string" where
  "tenantOf Parse u = (case Parse u of None \<Rightarrow> [] | Some n \<Rightarrow> Tenant n)"

definition RegisterAgent :: "uri \<Rightarrow> 'p \<Rightarrow> 'p Registry \<Rightarrow> 'p Registry" where
  "RegisterAgent u p r = r\<lparr>agentConns := (agentConns r)(u \<mapsto> p)\<rparr>"

definition LookupAgent :: "uri \<Rightarrow> 'p Registry \<Rightarrow> 'p option" where
  "LookupAgent u r = agentConns r u"

text \<open>The new state and the request sent to the controller, if any.\<close>

definition UnregisterAgent :: "identity_Parse \<Rightarrow> uri \<Rightarrow> 'p Registry \<Rightarrow> 'p Registry \<times> deregister_request option" where
  "UnregisterAgent Parse u r =
     (let r' = r\<lparr>agentConns := (agentConns r)(u := None)\<rparr>; tenant = tenantOf Parse u in
      if tenant = [] then (r', None)
      else (r', Some \<lparr>dr_Tenant = tenant, dr_AgentUri = u, dr_RelayId = reg_relayID r\<rparr>))"

definition registerWait :: duration where
  "registerWait = 15 * Second"

definition RegisterService ::
  "identity_Parse \<Rightarrow> registry_client \<Rightarrow> uri \<Rightarrow> string \<Rightarrow> string \<Rightarrow> 'p Registry \<Rightarrow> registry_error + string" where
  "RegisterService Parse ctrl agentURI serviceName localAddr r =
     (let tenant = tenantOf Parse agentURI in
      if tenant = [] then Inl (ErrNoTenant agentURI)
      else case rpc_RegisterService ctrl \<lparr>rr_Tenant = tenant, rr_ServiceName = serviceName, rr_AgentUri = agentURI,
                  rr_RelayId = reg_relayID r, rr_LocalAddr = localAddr\<rparr> of
             Inl e \<Rightarrow> Inl (ErrRPC e)
           | Inr serviceId \<Rightarrow> Inr serviceId)"

text \<open>\<open>Resolve\<close> returns the provider, the remote and the error, like the code.\<close>

definition Resolve ::
  "identity_Parse \<Rightarrow> registry_client \<Rightarrow> uri \<Rightarrow> string \<Rightarrow> 'p Registry \<Rightarrow>
     'p option \<times> Remote option \<times> registry_error option" where
  "Resolve Parse ctrl callerURI name r =
     (let tenant = tenantOf Parse callerURI in
      if tenant = [] then (None, None, Some (ErrNoTenant callerURI))
      else case rpc_Resolve ctrl \<lparr>rq_Tenant = tenant, rq_ServiceName = name, rq_CallerRegion = reg_region r\<rparr> of
             Inl e \<Rightarrow> (None, None, Some (ErrRPC e))
           | Inr [] \<Rightarrow> (None, None, Some ErrServiceNotFound)
           | Inr (prov # _) \<Rightarrow>
               if RelayId prov \<noteq> reg_relayID r
               then (None, Some \<lparr>remote_RelayID = RelayId prov, remote_Endpoint = RelayEndpoint prov,
                                 remote_AgentURI = AgentUri prov\<rparr>, Some ErrProviderRemote)
               else (case agentConns r (AgentUri prov) of
                       None \<Rightarrow> (None, None, Some ErrServiceNotFound)
                     | Some p \<Rightarrow> (Some p, None, None)))"

section \<open>Behaviour\<close>

text \<open>The local map is a last-writer-wins directory: registrations and removals by URI.\<close>

lemma LookupAgent_RegisterAgent: "LookupAgent u (RegisterAgent v p r) = (if u = v then Some p else LookupAgent u r)"
  by (simp add: LookupAgent_def RegisterAgent_def)

lemma LookupAgent_UnregisterAgent:
  "LookupAgent u (fst (UnregisterAgent Parse v r)) = (if u = v then None else LookupAgent u r)"
  by (simp add: LookupAgent_def UnregisterAgent_def Let_def)

lemma relayID_unchanged [simp]:
  "reg_relayID (RegisterAgent u p r) = reg_relayID r" "reg_relayID (fst (UnregisterAgent Parse u r)) = reg_relayID r"
  by (simp_all add: RegisterAgent_def UnregisterAgent_def Let_def)

text \<open>The three outcomes exclude each other and cover everything.\<close>

lemma Resolve_cases:
  obtains (local) p where "Resolve Parse ctrl u name r = (Some p, None, None)"
    | (remote) rem where "Resolve Parse ctrl u name r = (None, Some rem, Some ErrProviderRemote)"
    | (failed) e where "Resolve Parse ctrl u name r = (None, None, Some e)" "e \<noteq> ErrProviderRemote"
proof -
  have "(\<exists>p. Resolve Parse ctrl u name r = (Some p, None, None)) \<or>
    (\<exists>rem. Resolve Parse ctrl u name r = (None, Some rem, Some ErrProviderRemote)) \<or>
    (\<exists>e. Resolve Parse ctrl u name r = (None, None, Some e) \<and> e \<noteq> ErrProviderRemote)"
    by (simp add: Resolve_def Let_def split: sum.splits list.splits option.splits)
  then show thesis using that by blast
qed

lemma Resolve_local:
  "Resolve Parse ctrl u name r = (Some p, None, None) \<longleftrightarrow>
     tenantOf Parse u \<noteq> [] \<and>
     (\<exists>prov ps. rpc_Resolve ctrl \<lparr>rq_Tenant = tenantOf Parse u, rq_ServiceName = name, rq_CallerRegion = reg_region r\<rparr> =
         Inr (prov # ps) \<and> RelayId prov = reg_relayID r \<and> LookupAgent (AgentUri prov) r = Some p)"
  by (auto simp: Resolve_def Let_def LookupAgent_def split: sum.splits list.splits option.splits if_splits)

end
