(* ===== verification/GoStrings.thy ===== *)
theory GoStrings
  imports Prelude "HOL-Library.Sublist"
begin

text \<open>
  The functions of Go's \<open>strings\<close> package that the relay calls, on byte strings:
  \<open>Split\<close> with a one-byte separator, \<open>HasPrefix\<close>, \<open>HasSuffix\<close>, \<open>Index\<close> and \<open>TrimSpace\<close>, and the
  facts the components use. \<open>strings.Index\<close> returns -1 when there is no occurrence; here that
  is \<open>None\<close>. \<open>TrimSpace\<close> is modelled on the ASCII white space.
\<close>

fun strings_Split :: "char \<Rightarrow> string \<Rightarrow> string list" where
  "strings_Split c [] = [[]]"
| "strings_Split c (x # xs) =
     (if x = c then [] # strings_Split c xs
      else case strings_Split c xs of [] \<Rightarrow> [[x]] | p # ps \<Rightarrow> (x # p) # ps)"

definition strings_HasPrefix :: "string \<Rightarrow> string \<Rightarrow> bool" where
  "strings_HasPrefix s p \<longleftrightarrow> take (length p) s = p"

definition strings_HasSuffix :: "string \<Rightarrow> string \<Rightarrow> bool" where
  "strings_HasSuffix s p \<longleftrightarrow> length p \<le> length s \<and> drop (length s - length p) s = p"

fun strings_Index :: "string \<Rightarrow> string \<Rightarrow> nat option" where
  "strings_Index [] p = (if p = [] then Some 0 else None)"
| "strings_Index (x # xs) p =
     (if strings_HasPrefix (x # xs) p then Some 0 else map_option Suc (strings_Index xs p))"

definition is_space :: "char \<Rightarrow> bool" where
  "is_space c \<longleftrightarrow> c \<in> {CHR '' '', CHR 0x09, CHR 0x0A, CHR 0x0B, CHR 0x0C, CHR 0x0D}"

definition strings_TrimSpace :: "string \<Rightarrow> string" where
  "strings_TrimSpace s = rev (dropWhile is_space (rev (dropWhile is_space s)))"

text \<open>The inverse of \<open>Split\<close>: the pieces joined by the separator (\<open>strings.Join\<close>).\<close>

fun strings_Join :: "char \<Rightarrow> string list \<Rightarrow> string" where
  "strings_Join c [] = []"
| "strings_Join c [w] = w"
| "strings_Join c (w # v # ws) = w @ c # strings_Join c (v # ws)"

lemma strings_Split_ne [simp]: "strings_Split c s \<noteq> []"
  by (induction s) (auto split: list.splits)

lemma strings_Join_Cons: "ws \<noteq> [] \<Longrightarrow> strings_Join c (w # ws) = w @ c # strings_Join c ws"
  by (cases ws) auto

lemma strings_Join_Split: "strings_Join c (strings_Split c s) = s"
proof (induction s)
  case Nil
  then show ?case by simp
next
  case (Cons x xs)
  obtain p ps where sp: "strings_Split c xs = p # ps"
    by (cases "strings_Split c xs") auto
  with Cons.IH show ?case
    by (cases ps) auto
qed

lemma strings_Split_pieces: "p \<in> set (strings_Split c s) \<Longrightarrow> c \<notin> set p"
proof (induction s arbitrary: p)
  case Nil
  then show ?case by simp
next
  case (Cons x xs)
  obtain q qs where sp: "strings_Split c xs = q # qs"
    by (cases "strings_Split c xs") auto
  with Cons show ?case
    by (auto split: if_splits)
qed

lemma strings_Split_single_iff: "tl (strings_Split c s) = [] \<longleftrightarrow> c \<notin> set s"
  by (induction s) (auto split: list.splits)

lemma strings_Split_notin: "c \<notin> set s \<Longrightarrow> strings_Split c s = [s]"
  by (induction s) auto

lemma HasPrefix_iff: "strings_HasPrefix s p \<longleftrightarrow> (\<exists>t. s = p @ t)"
  unfolding strings_HasPrefix_def by (metis append_eq_conv_conj append_take_drop_id)

lemma HasSuffix_iff: "strings_HasSuffix s p \<longleftrightarrow> (\<exists>t. s = t @ p)"
proof
  assume "strings_HasSuffix s p"
  then have "s = take (length s - length p) s @ p"
    unfolding strings_HasSuffix_def by (metis append_take_drop_id)
  then show "\<exists>t. s = t @ p" ..
next
  assume "\<exists>t. s = t @ p"
  then show "strings_HasSuffix s p"
    by (auto simp: strings_HasSuffix_def)
qed

lemma Index_Some: "strings_Index s p = Some i \<Longrightarrow> i + length p \<le> length s \<and> (\<exists>u t. s = u @ p @ t \<and> length u = i)"
proof (induction s arbitrary: i)
  case Nil
  then show ?case by (auto split: if_splits)
next
  case (Cons x xs)
  show ?case
  proof (cases "strings_HasPrefix (x # xs) p")
    case True
    then obtain t where t: "x # xs = p @ t" by (auto simp: HasPrefix_iff)
    from True Cons.prems have "i = 0" by simp
    moreover from t have "length p \<le> length (x # xs)" by simp
    ultimately show ?thesis using t by (auto intro: exI [of _ "[]"])
  next
    case False
    with Cons.prems obtain j where j: "strings_Index xs p = Some j" "i = Suc j" by auto
    from Cons.IH [OF j(1)] obtain u t where "xs = u @ p @ t" "length u = j" "j + length p \<le> length xs"
      by auto
    with j(2) show ?thesis by (auto intro: exI [of _ "x # u"])
  qed
qed

lemma Index_least: "s = u @ p @ t \<Longrightarrow> \<exists>i \<le> length u. strings_Index s p = Some i"
proof (induction s arbitrary: u)
  case Nil
  then show ?case by simp
next
  case (Cons x xs)
  show ?case
  proof (cases "strings_HasPrefix (x # xs) p")
    case True
    then show ?thesis by simp
  next
    case False
    with Cons.prems obtain v where v: "u = x # v" "xs = v @ p @ t"
      by (cases u) (auto simp: HasPrefix_iff)
    from Cons.IH [OF v(2)] obtain i where "i \<le> length v" "strings_Index xs p = Some i" by auto
    with False v(1) show ?thesis by auto
  qed
qed

lemma dropWhile_rev_trim: "dropWhile P (rev (dropWhile P (rev (dropWhile P s)))) = rev (dropWhile P (rev (dropWhile P s)))"
proof (cases "dropWhile P s")
  case (Cons c cs)
  then have "\<not> P c" by (metis dropWhile_eq_Cons_conv)
  then have "rev (dropWhile P (rev (c # cs))) = c # rev (dropWhile P (rev cs))"
    by (simp add: dropWhile_append)
  with Cons \<open>\<not> P c\<close> show ?thesis by simp
next
  case Nil
  show ?thesis unfolding Nil by simp
qed

lemma TrimSpace_idem [simp]: "strings_TrimSpace (strings_TrimSpace s) = strings_TrimSpace s"
  by (simp add: strings_TrimSpace_def dropWhile_rev_trim)

end
