(* ===== verification/Glob.thy ===== *)
theory Glob
  imports GoStrings
begin

text \<open>
  The glob matcher of \<open>pkg/policy/matcher.go\<close> (\<open>matchGlob\<close>) and its reference semantics. The
  code splits the pattern at the stars, takes the first piece off the front, searches each
  middle piece leftmost, and compares the last piece with the end. \<open>glob_spec\<close> is the
  declarative meaning: a star stands for any, possibly empty, run of bytes.
\<close>

section \<open>The code\<close>

abbreviation star :: char where
  "star \<equiv> CHR ''*''"

fun matchMiddle :: "string list \<Rightarrow> string \<Rightarrow> string option" where
  "matchMiddle [] s = Some s"
| "matchMiddle (p # ps) s =
     (case strings_Index s p of
        None \<Rightarrow> None
      | Some idx \<Rightarrow> matchMiddle ps (drop (idx + length p) s))"

definition matchGlob :: "string \<Rightarrow> string \<Rightarrow> bool" where
  "matchGlob pattern s =
     (if pattern = [] then s = []
      else if star \<notin> set pattern then pattern = s
      else if pattern = ''*'' then True
      else let parts = strings_Split star pattern in
        if \<not> strings_HasPrefix s (hd parts) then False
        else case matchMiddle (butlast (tl parts)) (drop (length (hd parts)) s) of
               None \<Rightarrow> False
             | Some s' \<Rightarrow> strings_HasSuffix s' (last parts))"

section \<open>Reference semantics\<close>

fun glob_spec :: "string \<Rightarrow> string \<Rightarrow> bool" where
  "glob_spec [] s = (s = [])"
| "glob_spec (c # p) [] = (c = star \<and> glob_spec p [])"
| "glob_spec (c # p) (x # xs) =
     (if c = star then glob_spec p (x # xs) \<or> glob_spec (c # p) xs
      else c = x \<and> glob_spec p xs)"

lemma glob_spec_literal: "star \<notin> set w \<Longrightarrow> glob_spec (w @ p) s \<longleftrightarrow> (\<exists>t. s = w @ t \<and> glob_spec p t)"
proof (induction w arbitrary: s)
  case Nil
  then show ?case by simp
next
  case (Cons c w)
  then show ?case by (cases s) auto
qed

lemma glob_spec_star: "glob_spec (star # p) s \<longleftrightarrow> (\<exists>u v. s = u @ v \<and> glob_spec p v)"
proof (induction s)
  case Nil
  then show ?case by simp
next
  case (Cons x xs)
  have "(\<exists>u v. x # xs = u @ v \<and> glob_spec p v) \<longleftrightarrow>
      glob_spec p (x # xs) \<or> (\<exists>u v. xs = u @ v \<and> glob_spec p v)"
    by (auto simp: Cons_eq_append_conv)
  with Cons.IH show ?case by simp
qed

lemma glob_spec_star_mono: "glob_spec (star # p) v \<Longrightarrow> glob_spec (star # p) (u @ v)"
  unfolding glob_spec_star by (metis append_assoc)

lemma glob_spec_star_literal:
  "star \<notin> set w \<Longrightarrow> glob_spec (star # w @ p) s \<longleftrightarrow> (\<exists>u t. s = u @ w @ t \<and> glob_spec p t)"
  by (auto simp: glob_spec_star glob_spec_literal)

lemma glob_spec_plain: "star \<notin> set w \<Longrightarrow> glob_spec w s \<longleftrightarrow> w = s"
  using glob_spec_literal [of w "[]" s] by auto

section \<open>The code implements the semantics\<close>

text \<open>Searching a middle piece leftmost loses no match, because what follows starts with a star.\<close>

lemma glob_spec_leftmost:
  assumes "star \<notin> set w"
  shows "glob_spec (star # w @ star # p) s \<longleftrightarrow>
    (\<exists>i. strings_Index s w = Some i \<and> glob_spec (star # p) (drop (i + length w) s))"
proof
  assume "glob_spec (star # w @ star # p) s"
  with assms obtain u t where s: "s = u @ w @ t" and t: "glob_spec (star # p) t"
    by (auto simp: glob_spec_star_literal)
  from Index_least [OF s] obtain i where i: "i \<le> length u" "strings_Index s w = Some i" by blast
  from i(1) have "i + length w \<le> length (u @ w)" by simp
  with s have "drop (i + length w) s = drop (i + length w) (u @ w) @ t" by simp
  with t have "glob_spec (star # p) (drop (i + length w) s)"
    by (simp only: glob_spec_star_mono)
  with i(2) show "\<exists>i. strings_Index s w = Some i \<and> glob_spec (star # p) (drop (i + length w) s)" by blast
next
  assume "\<exists>i. strings_Index s w = Some i \<and> glob_spec (star # p) (drop (i + length w) s)"
  then obtain i where i: "strings_Index s w = Some i" and g: "glob_spec (star # p) (drop (i + length w) s)"
    by blast
  from Index_Some [OF i] obtain u t where "s = u @ w @ t" "length u = i" by blast
  with g assms show "glob_spec (star # w @ star # p) s"
    by (auto simp: glob_spec_star_literal)
qed

lemma matchMiddle_spec:
  assumes "ws \<noteq> []" and "\<forall>w \<in> set ws. star \<notin> set w"
  shows "(case matchMiddle (butlast ws) s of None \<Rightarrow> False | Some s' \<Rightarrow> strings_HasSuffix s' (last ws)) \<longleftrightarrow>
    glob_spec (star # strings_Join star ws) s"
  using assms
proof (induction ws arbitrary: s)
  case Nil
  then show ?case by simp
next
  case (Cons w ws)
  show ?case
  proof (cases "ws = []")
    case True
    with Cons.prems show ?thesis
      using glob_spec_star_literal [of w "[]" s] by (auto simp: HasSuffix_iff)
  next
    case False
    from Cons.prems have "star \<notin> set w" by simp
    with False have "glob_spec (star # strings_Join star (w # ws)) s \<longleftrightarrow>
        (\<exists>i. strings_Index s w = Some i \<and>
           glob_spec (star # strings_Join star ws) (drop (i + length w) s))"
      by (simp add: strings_Join_Cons glob_spec_leftmost del: glob_spec.simps)
    also have "\<dots> \<longleftrightarrow> (\<exists>i. strings_Index s w = Some i \<and>
        (case matchMiddle (butlast ws) (drop (i + length w) s) of
           None \<Rightarrow> False | Some s' \<Rightarrow> strings_HasSuffix s' (last ws)))"
      using Cons.IH [OF False] Cons.prems(2) by simp
    finally show ?thesis
      using False by (cases "strings_Index s w") (simp_all add: last_ConsR cong: option.case_cong)
  qed
qed

lemma matchGlob_spec: "matchGlob pattern s \<longleftrightarrow> glob_spec pattern s"
proof (cases "star \<in> set pattern")
  case False
  then show ?thesis by (auto simp: matchGlob_def glob_spec_plain)
next
  case True
  obtain w ws where sp: "strings_Split star pattern = w # ws"
    by (cases "strings_Split star pattern") auto
  with True have ne: "ws \<noteq> []" using strings_Split_single_iff [of star pattern] by auto
  have free: "\<forall>v \<in> set (w # ws). star \<notin> set v"
    using strings_Split_pieces sp by metis
  have pat: "pattern = w @ star # strings_Join star ws"
    using strings_Join_Split [of star pattern] sp ne by (simp add: strings_Join_Cons)
  have "(strings_HasPrefix s w \<and> glob_spec (star # strings_Join star ws) (drop (length w) s)) \<longleftrightarrow>
      glob_spec pattern s"
    using free by (auto simp: pat glob_spec_literal HasPrefix_iff)
  moreover have "glob_spec ''*'' s" by (auto simp: glob_spec_star)
  ultimately show ?thesis
    using True sp ne free matchMiddle_spec [of ws "drop (length w) s"]
    by (auto simp: matchGlob_def last_ConsR cong: option.case_cong)
qed

text \<open>Consequences used by the policy engine.\<close>

lemma matchGlob_exact: "star \<notin> set pattern \<Longrightarrow> matchGlob pattern s \<longleftrightarrow> pattern = s"
  by (simp add: matchGlob_spec glob_spec_plain)

lemma matchGlob_any: "matchGlob ''*'' s"
  by (simp add: matchGlob_def)

end
