(* ===== verification/Policy.thy ===== *)
theory Policy
  imports Glob
begin

text \<open>
  The policy engine of \<open>pkg/policy/matcher.go\<close>: rules, the immutable snapshot index, first-match
  evaluation and the hot-swappable engine. The specification \<open>decide_spec\<close> speaks only of the
  working set of rules; the engine is shown to implement it for every iteration order of the
  rule map, which is where the order in which rules are tried comes from.
\<close>

section \<open>Data\<close>

datatype Decision = DecisionDeny | DecisionAllow

datatype RelayMode = RelayModeSplice | RelayModeForward

datatype P2PMode = P2PModeAllowed | P2PModeForbidden | P2PModeRequired

record Result =
  res_Decision :: Decision
  Reason :: string
  res_P2PMode :: P2PMode
  res_RelayMode :: RelayMode

record Rule =
  ID :: string
  CallerPattern :: string
  TargetPattern :: string
  MethodPattern :: string
  rule_Decision :: Decision
  ExpiresUnixMs :: int
  rule_P2PMode :: P2PMode
  rule_RelayMode :: RelayMode

record Snapshot =
  byTarget :: "string \<rightharpoonup> Rule list"
  wildcard :: "Rule list"

fun Decision_String :: "Decision \<Rightarrow> string" where
  "Decision_String DecisionAllow = ''allow''"
| "Decision_String DecisionDeny = ''deny''"

fun RelayMode_String :: "RelayMode \<Rightarrow> string" where
  "RelayMode_String RelayModeForward = ''forward''"
| "RelayMode_String RelayModeSplice = ''splice''"

fun P2PMode_String :: "P2PMode \<Rightarrow> string" where
  "P2PMode_String P2PModeForbidden = ''forbidden''"
| "P2PMode_String P2PModeRequired = ''required''"
| "P2PMode_String P2PModeAllowed = ''allowed''"

definition CombineP2PModes :: "P2PMode \<Rightarrow> P2PMode \<Rightarrow> P2PMode" where
  "CombineP2PModes a b =
     (if a = P2PModeForbidden \<or> b = P2PModeForbidden then P2PModeForbidden
      else if a = P2PModeRequired \<or> b = P2PModeRequired then P2PModeRequired
      else P2PModeAllowed)"

section \<open>Evaluation of a snapshot\<close>

fun matchFirst :: "Rule list \<Rightarrow> string \<Rightarrow> string \<Rightarrow> string \<Rightarrow> int \<Rightarrow> Rule option" where
  "matchFirst [] caller target method nowMs = None"
| "matchFirst (r # rs) caller target method nowMs =
     (if ExpiresUnixMs r > 0 \<and> nowMs \<ge> ExpiresUnixMs r then matchFirst rs caller target method nowMs
      else if \<not> matchGlob (CallerPattern r) caller then matchFirst rs caller target method nowMs
      else if \<not> matchGlob (TargetPattern r) target then matchFirst rs caller target method nowMs
      else if MethodPattern r \<noteq> [] \<and> \<not> matchGlob (MethodPattern r) method
        then matchFirst rs caller target method nowMs
      else Some r)"

definition rule_result :: "Rule \<Rightarrow> Result" where
  "rule_result r = \<lparr>res_Decision = rule_Decision r, Reason = ID r,
     res_P2PMode = rule_P2PMode r, res_RelayMode = rule_RelayMode r\<rparr>"

definition deny :: "string \<Rightarrow> Result" where
  "deny why = \<lparr>res_Decision = DecisionDeny, Reason = why,
     res_P2PMode = P2PModeAllowed, res_RelayMode = RelayModeSplice\<rparr>"

definition UnixMilli :: "gotime \<Rightarrow> int" where
  "UnixMilli t = t div 1000000"

text \<open>\<open>Snapshot.Decide\<close>; the receiver may be nil.\<close>

definition Snapshot_Decide :: "Snapshot option \<Rightarrow> string \<Rightarrow> string \<Rightarrow> string \<Rightarrow> gotime \<Rightarrow> Result" where
  "Snapshot_Decide snap caller target method now =
     (case snap of
        None \<Rightarrow> deny ''no policy snapshot''
      | Some s \<Rightarrow>
          let nowMs = UnixMilli now;
              exact = (case byTarget s target of
                         None \<Rightarrow> None
                       | Some rs \<Rightarrow> matchFirst rs caller target method nowMs)
          in (case exact of
                Some r \<Rightarrow> rule_result r
              | None \<Rightarrow>
                  (case matchFirst (wildcard s) caller target method nowMs of
                     Some r \<Rightarrow> rule_result r
                   | None \<Rightarrow> deny ''no matching rule'')))"

definition snapshot_insert :: "Rule \<Rightarrow> Snapshot \<Rightarrow> Snapshot" where
  "snapshot_insert r s =
     (if star \<in> set (TargetPattern r) then s\<lparr>wildcard := wildcard s @ [r]\<rparr>
      else s\<lparr>byTarget := (byTarget s)(TargetPattern r \<mapsto>
               (case byTarget s (TargetPattern r) of None \<Rightarrow> [] | Some rs \<Rightarrow> rs) @ [r])\<rparr>)"

definition BuildSnapshot :: "Rule list \<Rightarrow> Snapshot" where
  "BuildSnapshot rules = fold snapshot_insert rules \<lparr>byTarget = Map.empty, wildcard = []\<rparr>"

section \<open>Wire rules\<close>

text \<open>
  The generated protobuf package is not part of the repository: its enum constants are the
  fields of \<open>pb_enums\<close>, an argument of the conversions.
\<close>

record pb_enums =
  P2P_FORBIDDEN :: int
  P2P_REQUIRED :: int
  RELAY_MODE_FORWARD :: int
  DECISION_DENY :: int

record PolicyRule =
  pb_Id :: string
  pb_CallerPattern :: string
  pb_TargetPattern :: string
  pb_MethodPattern :: string
  pb_Decision :: int
  pb_ExpiresUnixMs :: int
  pb_P2PMode :: int
  pb_RelayMode :: int

definition p2pModeFromPB :: "pb_enums \<Rightarrow> int \<Rightarrow> P2PMode" where
  "p2pModeFromPB k m =
     (if m = P2P_FORBIDDEN k then P2PModeForbidden
      else if m = P2P_REQUIRED k then P2PModeRequired
      else P2PModeAllowed)"

definition relayModeFromPB :: "pb_enums \<Rightarrow> int \<Rightarrow> RelayMode" where
  "relayModeFromPB k m = (if m = RELAY_MODE_FORWARD k then RelayModeForward else RelayModeSplice)"

definition decisionFromPB :: "pb_enums \<Rightarrow> int \<Rightarrow> Decision" where
  "decisionFromPB k d = (if d = DECISION_DENY k then DecisionDeny else DecisionAllow)"

definition FromPB :: "pb_enums \<Rightarrow> PolicyRule \<Rightarrow> Rule" where
  "FromPB k r = \<lparr>ID = pb_Id r, CallerPattern = pb_CallerPattern r, TargetPattern = pb_TargetPattern r,
     MethodPattern = pb_MethodPattern r, rule_Decision = decisionFromPB k (pb_Decision r),
     ExpiresUnixMs = pb_ExpiresUnixMs r, rule_P2PMode = p2pModeFromPB k (pb_P2PMode r),
     rule_RelayMode = relayModeFromPB k (pb_RelayMode r)\<rparr>"

section \<open>The engine\<close>

record Engine =
  eng_cur :: "Snapshot option"
  eng_rules :: "string \<rightharpoonup> Rule"

definition NewEngine :: Engine where
  "NewEngine = \<lparr>eng_cur = Some (BuildSnapshot []), eng_rules = Map.empty\<rparr>"

definition Engine_Decide :: "Engine \<Rightarrow> string \<Rightarrow> string \<Rightarrow> string \<Rightarrow> gotime \<Rightarrow> Result" where
  "Engine_Decide e caller target method now = Snapshot_Decide (eng_cur e) caller target method now"

text \<open>\<open>Engine.Apply\<close>: \<open>ks\<close> is the order in which the rule map is ranged over.\<close>

definition Engine_Apply ::
  "string list \<Rightarrow> ((string \<rightharpoonup> Rule) \<Rightarrow> (string \<rightharpoonup> Rule)) \<Rightarrow> Engine \<Rightarrow> Engine" where
  "Engine_Apply ks mutate e =
     (let m = mutate (eng_rules e)
      in \<lparr>eng_cur = Some (BuildSnapshot (range_values m ks)), eng_rules = m\<rparr>)"

definition insert_rule :: "Rule \<Rightarrow> (string \<rightharpoonup> Rule) \<Rightarrow> (string \<rightharpoonup> Rule)" where
  "insert_rule r m = m(ID r \<mapsto> r)"

definition Engine_Set :: "string list \<Rightarrow> Rule list \<Rightarrow> Engine \<Rightarrow> Engine" where
  "Engine_Set ks rules e = Engine_Apply ks (\<lambda>m. fold insert_rule rules Map.empty) e"

definition Engine_Add :: "string list \<Rightarrow> Rule \<Rightarrow> Engine \<Rightarrow> Engine" where
  "Engine_Add ks r e = Engine_Apply ks (insert_rule r) e"

definition Engine_Remove :: "string list \<Rightarrow> string \<Rightarrow> Engine \<Rightarrow> Engine" where
  "Engine_Remove ks i e = Engine_Apply ks (\<lambda>m. m(i := None)) e"

section \<open>Specification\<close>

definition applicable :: "string \<Rightarrow> string \<Rightarrow> string \<Rightarrow> int \<Rightarrow> Rule \<Rightarrow> bool" where
  "applicable caller target method nowMs r \<longleftrightarrow>
     (ExpiresUnixMs r \<le> 0 \<or> nowMs < ExpiresUnixMs r) \<and>
     glob_spec (CallerPattern r) caller \<and> glob_spec (TargetPattern r) target \<and>
     (MethodPattern r = [] \<or> glob_spec (MethodPattern r) method)"

text \<open>
  A result the policy allows for a request: from an applicable rule with an exact target if
  there is one, else from an applicable rule with a wildcard target, else a denial.
\<close>

definition decide_spec :: "Rule set \<Rightarrow> string \<Rightarrow> string \<Rightarrow> string \<Rightarrow> gotime \<Rightarrow> Result \<Rightarrow> bool" where
  "decide_spec R caller target method now res \<longleftrightarrow>
     (let A = {r \<in> R. applicable caller target method (UnixMilli now) r};
          E = {r \<in> A. star \<notin> set (TargetPattern r)}
      in if E \<noteq> {} then res \<in> rule_result ` E
         else if A \<noteq> {} then res \<in> rule_result ` A
         else res = deny ''no matching rule'')"

definition engine_ok :: "Engine \<Rightarrow> bool" where
  "engine_ok e \<longleftrightarrow> (\<exists>ks. range_order (eng_rules e) ks \<and>
     eng_cur e = Some (BuildSnapshot (range_values (eng_rules e) ks)))"

inductive engine_step :: "Engine \<Rightarrow> Engine \<Rightarrow> bool" where
  step_Set: "range_order (eng_rules (Engine_Set ks rs e)) ks \<Longrightarrow> engine_step e (Engine_Set ks rs e)"
| step_Add: "range_order (eng_rules (Engine_Add ks r e)) ks \<Longrightarrow> engine_step e (Engine_Add ks r e)"
| step_Remove: "range_order (eng_rules (Engine_Remove ks i e)) ks \<Longrightarrow> engine_step e (Engine_Remove ks i e)"

abbreviation engine_reach :: "Engine \<Rightarrow> bool" where
  "engine_reach \<equiv> reach (\<lambda>e. e = NewEngine) engine_step"

section \<open>Snapshot facts\<close>

lemma matchFirst_find: "matchFirst rs caller target method nowMs = find (applicable caller target method nowMs) rs"
  by (induction rs) (auto simp: applicable_def matchGlob_spec)

lemma find_applicable_mem: "find P rs = Some r \<Longrightarrow> r \<in> set rs \<and> P r"
  by (auto simp: find_Some_iff)

lemma snapshot_fold:
  "byTarget (fold snapshot_insert rs s) t =
     (case byTarget s t of
        None \<Rightarrow> (let xs = [r \<leftarrow> rs. TargetPattern r = t \<and> star \<notin> set t] in if xs = [] then None else Some xs)
      | Some ys \<Rightarrow> Some (ys @ [r \<leftarrow> rs. TargetPattern r = t \<and> star \<notin> set t]))"
  "wildcard (fold snapshot_insert rs s) = wildcard s @ [r \<leftarrow> rs. star \<in> set (TargetPattern r)]"
proof (induction rs arbitrary: s)
  case (Cons r rs)
  case 1
  show ?case
    by (simp add: Cons.IH, auto simp: snapshot_insert_def Let_def split: option.splits)
  case 2
  show ?case
    by (simp add: Cons.IH, auto simp: snapshot_insert_def)
qed (auto split: option.splits)

lemma BuildSnapshot_byTarget:
  "byTarget (BuildSnapshot rs) t =
     (let xs = [r \<leftarrow> rs. TargetPattern r = t \<and> star \<notin> set t] in if xs = [] then None else Some xs)"
  by (simp add: BuildSnapshot_def snapshot_fold)

lemma BuildSnapshot_wildcard: "wildcard (BuildSnapshot rs) = [r \<leftarrow> rs. star \<in> set (TargetPattern r)]"
  by (simp add: BuildSnapshot_def snapshot_fold)

text \<open>The index does not change the answer: exact rules in order first, then wildcard rules.\<close>

lemma Decide_BuildSnapshot:
  "Snapshot_Decide (Some (BuildSnapshot rs)) caller target method now =
     (case find (\<lambda>r. applicable caller target method (UnixMilli now) r \<and> star \<notin> set (TargetPattern r)) rs of
        Some r \<Rightarrow> rule_result r
      | None \<Rightarrow> (case find (applicable caller target method (UnixMilli now)) rs of
                   Some r \<Rightarrow> rule_result r
                 | None \<Rightarrow> deny ''no matching rule''))"
proof -
  let ?A = "applicable caller target method (UnixMilli now)"
  let ?X = "[r \<leftarrow> rs. TargetPattern r = target \<and> star \<notin> set target]"
  have exact: "?A r \<and> star \<notin> set (TargetPattern r) \<longleftrightarrow> TargetPattern r = target \<and> star \<notin> set target \<and> ?A r" for r
    by (auto simp: applicable_def glob_spec_plain)
  have 1: "find ?A ?X = find (\<lambda>r. ?A r \<and> star \<notin> set (TargetPattern r)) rs"
    unfolding exact by (induction rs) auto
  have 2: "find (\<lambda>r. ?A r \<and> star \<notin> set (TargetPattern r)) rs = None \<Longrightarrow>
      find ?A [r \<leftarrow> rs. star \<in> set (TargetPattern r)] = find ?A rs"
    by (induction rs) (auto split: if_splits)
  have "(case byTarget (BuildSnapshot rs) target of None \<Rightarrow> None
         | Some ys \<Rightarrow> matchFirst ys caller target method (UnixMilli now)) = find ?A ?X"
    by (auto simp: BuildSnapshot_byTarget matchFirst_find Let_def)
  with 1 2 show ?thesis
    by (auto simp: Snapshot_Decide_def BuildSnapshot_wildcard matchFirst_find Let_def split: option.split)
qed

lemma Decide_BuildSnapshot_spec:
  "decide_spec (set rs) caller target method now (Snapshot_Decide (Some (BuildSnapshot rs)) caller target method now)"
proof -
  let ?A = "applicable caller target method (UnixMilli now)"
  let ?E = "\<lambda>r. ?A r \<and> star \<notin> set (TargetPattern r)"
  show ?thesis
  proof (cases "find ?E rs")
    case (Some r)
    then have "r \<in> set rs" "?E r" using find_applicable_mem [of ?E] by blast+
    with Some show ?thesis
      by (auto simp: decide_spec_def Let_def Decide_BuildSnapshot)
  next
    case None
    then have noE: "\<forall>r \<in> set rs. \<not> ?E r" by (auto simp: find_None_iff)
    show ?thesis
    proof (cases "find ?A rs")
      case (Some r)
      then have "r \<in> set rs" "?A r" using find_applicable_mem [of ?A] by blast+
      with Some None noE show ?thesis
        by (auto simp: decide_spec_def Let_def Decide_BuildSnapshot)
    next
      case None
      then have "\<forall>r \<in> set rs. \<not> ?A r" by (auto simp: find_None_iff)
      then have "{r \<in> set rs. ?A r} = {}" by auto
      then show ?thesis
        using None \<open>find ?E rs = None\<close> by (auto simp: decide_spec_def Let_def Decide_BuildSnapshot)
    qed
  qed
qed

section \<open>Engine facts\<close>

lemma Engine_Apply_ok:
  "range_order (eng_rules (Engine_Apply ks f e)) ks \<Longrightarrow> engine_ok (Engine_Apply ks f e)"
  by (auto simp: engine_ok_def Engine_Apply_def Let_def)

lemmas engine_ops = Engine_Set_def Engine_Add_def Engine_Remove_def

interpretation engine_inv: inductive_invariant "\<lambda>e. e = NewEngine" engine_step engine_ok
proof unfold_locales
  fix e assume "e = NewEngine"
  then show "engine_ok e"
    by (auto simp: engine_ok_def NewEngine_def range_order_def)
next
  fix e f assume "engine_step e f" "engine_ok e"
  then show "engine_ok f"
    by (induction rule: engine_step.induct) (auto simp: engine_ops intro: Engine_Apply_ok)
qed

lemma engine_ok_decide:
  assumes "engine_ok e"
  shows "decide_spec (ran (eng_rules e)) caller target method now (Engine_Decide e caller target method now)"
proof -
  from assms obtain ks where "range_order (eng_rules e) ks"
    "eng_cur e = Some (BuildSnapshot (range_values (eng_rules e) ks))"
    by (auto simp: engine_ok_def)
  then show ?thesis
    using Decide_BuildSnapshot_spec [of "range_values (eng_rules e) ks"]
    by (simp add: Engine_Decide_def set_range_values_order)
qed

lemma fold_insert_rule: "fold insert_rule rs m = m ++ map_of (map (\<lambda>r. (ID r, r)) (rev rs))"
  by (induction rs arbitrary: m) (auto simp: insert_rule_def map_add_upd)

lemma Engine_rules [simp]:
  "eng_rules (Engine_Set ks rs e) = map_of (map (\<lambda>r. (ID r, r)) (rev rs))"
  "eng_rules (Engine_Add ks r e) = (eng_rules e)(ID r \<mapsto> r)"
  "eng_rules (Engine_Remove ks i e) = (eng_rules e)(i := None)"
  by (simp_all add: engine_ops Engine_Apply_def Let_def fold_insert_rule insert_rule_def)


lemma Engine_ops_ok:
  "range_order (map_of (map (\<lambda>r. (ID r, r)) (rev rs))) ks \<Longrightarrow> engine_ok (Engine_Set ks rs e)"
  "range_order ((eng_rules e)(ID r \<mapsto> r)) ks \<Longrightarrow> engine_ok (Engine_Add ks r e)"
  "range_order ((eng_rules e)(i := None)) ks \<Longrightarrow> engine_ok (Engine_Remove ks i e)"
  unfolding engine_ops
  by (rule Engine_Apply_ok, simp add: Engine_Apply_def Let_def fold_insert_rule insert_rule_def)+

lemma decide_spec_allow:
  assumes "decide_spec R caller target method now res" and "res_Decision res = DecisionAllow"
  shows "\<exists>r \<in> R. applicable caller target method (UnixMilli now) r \<and> rule_Decision r = DecisionAllow \<and>
    res = rule_result r"
  using assms by (auto simp: decide_spec_def Let_def deny_def rule_result_def split: if_splits)

section \<open>Properties\<close>


text \<open>C5: whatever sequence of Set, Add and Remove built the engine, and whatever order the rule
  map was ranged over in, a decision is one that the working set of rules justifies: an exact
  rule if an applicable one exists, else a wildcard rule, else a denial.\<close>

theorem engine_decides_by_rules:
  assumes "engine_reach e"
  shows "decide_spec (ran (eng_rules e)) caller target method now (Engine_Decide e caller target method now)"
  using engine_inv.reach_inv [OF assms] by (rule engine_ok_decide)

definition rule_allow_all :: Rule where
  "rule_allow_all = \<lparr>ID = ''a'', CallerPattern = ''*'', TargetPattern = ''svc'', MethodPattern = [],
     rule_Decision = DecisionAllow, ExpiresUnixMs = 0, rule_P2PMode = P2PModeAllowed,
     rule_RelayMode = RelayModeSplice\<rparr>"

definition rule_deny_all :: Rule where
  "rule_deny_all = rule_allow_all\<lparr>ID := ''d'', rule_Decision := DecisionDeny\<rparr>"

lemma engine_reach_one: "engine_reach (Engine_Add [''a''] rule_allow_all NewEngine)"
  by (rule reach_step [OF reach_init], rule refl, rule step_Add)
    (auto simp: range_order_def NewEngine_def rule_allow_all_def)

theorem engine_decides_by_rules_witness:
  "decide_spec (ran (eng_rules (Engine_Add [''a''] rule_allow_all NewEngine))) ''c'' ''svc'' ''m'' 0
     (Engine_Decide (Engine_Add [''a''] rule_allow_all NewEngine) ''c'' ''svc'' ''m'' 0)"
  by (rule engine_decides_by_rules [OF engine_reach_one])

text \<open>The engine is closed-world. An allow is always backed by a rule of the working set that
  is unexpired, matches caller, target and method, and says allow; its id is the reason.\<close>

lemma allow_needs_rule:
  assumes "engine_reach e" and "res_Decision (Engine_Decide e caller target method now) = DecisionAllow"
  shows "\<exists>r \<in> ran (eng_rules e). applicable caller target method (UnixMilli now) r \<and>
    rule_Decision r = DecisionAllow \<and> Reason (Engine_Decide e caller target method now) = ID r"
proof -
  from decide_spec_allow [OF engine_ok_decide [OF engine_inv.reach_inv [OF assms(1)]] assms(2)]
  obtain r where "r \<in> ran (eng_rules e)" "applicable caller target method (UnixMilli now) r"
    "rule_Decision r = DecisionAllow" "Engine_Decide e caller target method now = rule_result r"
    by blast
  then show ?thesis by (auto simp: rule_result_def)
qed

lemma allow_needs_rule_witness:
  "\<exists>r \<in> ran (eng_rules (Engine_Add [''a''] rule_allow_all NewEngine)).
     applicable ''c'' ''svc'' ''m'' (UnixMilli 0) r \<and> rule_Decision r = DecisionAllow \<and>
     Reason (Engine_Decide (Engine_Add [''a''] rule_allow_all NewEngine) ''c'' ''svc'' ''m'' 0) = ID r"
  by (rule allow_needs_rule [OF engine_reach_one]) code_simp

text \<open>C40: the order in which the rule map is ranged over is observable. With one allow and one
  deny rule for the same request, two engines holding the same rules, built by the same calls,
  answer differently.\<close>

theorem decision_depends_on_map_order:
  "\<exists>e f. engine_reach e \<and> engine_reach f \<and> eng_rules e = eng_rules f \<and>
     res_Decision (Engine_Decide e ''c'' ''svc'' ''m'' 0) = DecisionAllow \<and>
     res_Decision (Engine_Decide f ''c'' ''svc'' ''m'' 0) = DecisionDeny"
proof (intro exI conjI)
  let ?e = "\<lambda>ks. Engine_Set ks [rule_allow_all, rule_deny_all] NewEngine"
  show "engine_reach (?e [''a'', ''d''])" "engine_reach (?e [''d'', ''a''])"
    by (rule reach_step [OF reach_init], rule refl, rule step_Set;
        auto simp: range_order_def rule_allow_all_def rule_deny_all_def)+
  show "eng_rules (?e [''a'', ''d'']) = eng_rules (?e [''d'', ''a''])" by simp
  show "res_Decision (Engine_Decide (?e [''a'', ''d'']) ''c'' ''svc'' ''m'' 0) = DecisionAllow" by code_simp
  show "res_Decision (Engine_Decide (?e [''d'', ''a'']) ''c'' ''svc'' ''m'' 0) = DecisionDeny" by code_simp
qed

end
