(* ===== verification/TtlStore.thy ===== *)
theory TtlStore
  imports Prelude
begin

text \<open>
  The contract shared by the relay's two time-bounded stores, the policy decision cache
  (\<open>pkg/policy/cache.go\<close>) and the table of streams migrated to P2P (\<open>pkg/edge/migrate.go\<close>): a stored
  value is found until its time to live is over and never afterwards, and storing under one
  key never makes up a value under another. The client lemmas are about a whole history of
  stores and hold for both components.
\<close>

locale ttl_store =
  fixes ttl :: duration
    and empty_store :: "'st"
    and lookup :: "gotime \<Rightarrow> 'k \<Rightarrow> 'st \<Rightarrow> 'v option"
    and store :: "gotime \<Rightarrow> 'k \<Rightarrow> 'v \<Rightarrow> 'st \<Rightarrow> 'st"
  assumes lookup_empty: "lookup t k empty_store = None"
    and lookup_hit: "t' < t + ttl \<Longrightarrow> lookup t' k (store t k v s) = Some v"
    and lookup_expired: "t + ttl \<le> t' \<Longrightarrow> lookup t' k (store t k v s) = None"
    and lookup_other: "k' \<noteq> k \<Longrightarrow> lookup t' k' (store t k v s) = Some w \<Longrightarrow> lookup t' k' s = Some w"
begin

definition stores :: "(gotime \<times> 'k \<times> 'v) list \<Rightarrow> 'st \<Rightarrow> 'st" where
  "stores h s = foldl (\<lambda>s (t, k, v). store t k v s) s h"

lemma stores_snoc: "stores (h @ [(t, k, v)]) s = store t k v (stores h s)"
  by (simp add: stores_def)

text \<open>What a lookup returns was stored under that key, less than one time to live ago.\<close>

lemma lookup_fresh:
  "lookup t' k (stores h empty_store) = Some v \<Longrightarrow> \<exists>t. (t, k, v) \<in> set h \<and> t' < t + ttl"
proof (induction h rule: rev_induct)
  case Nil
  then show ?case by (simp add: stores_def lookup_empty)
next
  case (snoc x h)
  obtain t l w where x: "x = (t, l, w)" by (cases x) auto
  show ?case
  proof (cases "l = k")
    case True
    with snoc.prems x have "lookup t' k (store t k w (stores h empty_store)) = Some v"
      by (simp add: stores_snoc)
    moreover from this have "t' < t + ttl"
      by (metis lookup_expired not_le option.distinct(1))
    ultimately show ?thesis using True x by (auto simp: lookup_hit)
  next
    case False
    with snoc.prems x have "lookup t' k (stores h empty_store) = Some v"
      by (auto simp: stores_snoc intro: lookup_other)
    with snoc.IH show ?thesis by auto
  qed
qed

text \<open>The latest store under a key decides: an older value never comes back.\<close>

lemma lookup_latest:
  "lookup t' k (store t k v s) = (if t' < t + ttl then Some v else None)"
  by (simp add: lookup_hit lookup_expired)

end

end
