(* ===== verification/PolicyCache.thy ===== *)
theory PolicyCache
  imports Policy TtlStore
begin

text \<open>
  The decision cache of \<open>pkg/policy/cache.go\<close> and its use by \<open>Server.evaluate\<close>
  (\<open>pkg/edge/edge.go\<close>). The cache is the map from (caller, target, method) to a result with an
  expiry; each operation reads the clock once, as its argument \<open>now\<close>. The keys a full cache
  drops are the first of an arbitrary iteration order, given as an argument.
\<close>

section \<open>The code\<close>

definition CacheTTL :: duration where
  "CacheTTL = 5 * Second"

definition CacheCapacity :: nat where
  "CacheCapacity = 64 * 1024"

type_synonym cacheKey = "string \<times> string \<times> string"

record cacheEntry =
  ce_res :: Result
  ce_expires :: gotime

type_synonym Cache = "cacheKey \<rightharpoonup> cacheEntry"

definition NewCache :: Cache where
  "NewCache = Map.empty"

definition Cache_Get :: "gotime \<Rightarrow> cacheKey \<Rightarrow> Cache \<Rightarrow> Result option \<times> Cache" where
  "Cache_Get now k m =
     (case m k of
        None \<Rightarrow> (None, m)
      | Some e \<Rightarrow> if \<not> now < ce_expires e then (None, m(k := None)) else (Some (ce_res e), m))"

definition cache_sweep :: "gotime \<Rightarrow> Cache \<Rightarrow> Cache" where
  "cache_sweep now m =
     (\<lambda>k. case m k of None \<Rightarrow> None | Some e \<Rightarrow> if \<not> now < ce_expires e then None else Some e)"

definition cache_drop :: "cacheKey list \<Rightarrow> Cache \<Rightarrow> Cache" where
  "cache_drop ks m = fold (\<lambda>k m. m(k := None)) (take (CacheCapacity div 8) ks) m"

text \<open>\<open>ord m\<close> is the order in which a map \<open>m\<close> is ranged over.\<close>

definition Cache_Put :: "(Cache \<Rightarrow> cacheKey list) \<Rightarrow> gotime \<Rightarrow> cacheKey \<Rightarrow> Result \<Rightarrow> Cache \<Rightarrow> Cache" where
  "Cache_Put ord now k r m =
     (let m1 = (if card (dom m) \<ge> CacheCapacity then
                  (let m2 = cache_sweep now m
                   in if card (dom m2) \<ge> CacheCapacity then cache_drop (ord m2) m2 else m2)
                else m)
      in m1(k \<mapsto> \<lparr>ce_res = r, ce_expires = now + CacheTTL\<rparr>))"

definition Cache_Flush :: "Cache \<Rightarrow> Cache" where
  "Cache_Flush m = Map.empty"

definition Cache_Len :: "Cache \<Rightarrow> nat" where
  "Cache_Len m = card (dom m)"

text \<open>\<open>Server.evaluate\<close>: the cache may be absent; the hit and miss counters are returned.\<close>

record eval_counters =
  policyCacheHits :: nat
  policyCacheMisses :: nat

definition evaluate ::
  "(Cache \<Rightarrow> cacheKey list) \<Rightarrow> gotime \<Rightarrow> Engine \<Rightarrow> string \<Rightarrow> string \<Rightarrow> string \<Rightarrow>
   Cache option \<times> eval_counters \<Rightarrow> Result \<times> Cache option \<times> eval_counters" where
  "evaluate ord now e caller target method cs =
     (case cs of (cache, n) \<Rightarrow>
      (case cache of
         None \<Rightarrow> (Engine_Decide e caller target method now, None, n)
       | Some m \<Rightarrow>
           (case Cache_Get now (caller, target, method) m of
              (Some r, m') \<Rightarrow> (r, Some m', n\<lparr>policyCacheHits := policyCacheHits n + 1\<rparr>)
            | (None, m') \<Rightarrow>
                let r = Engine_Decide e caller target method now
                in (r, Some (Cache_Put ord now (caller, target, method) r m'),
                    n\<lparr>policyCacheMisses := policyCacheMisses n + 1\<rparr>))))"

section \<open>Cache facts\<close>

lemma CacheTTL_pos [simp]: "0 < CacheTTL"
  by (simp add: CacheTTL_def)

definition cache_ok :: "Cache \<Rightarrow> bool" where
  "cache_ok m \<longleftrightarrow> finite (dom m) \<and> card (dom m) \<le> CacheCapacity"

definition valid_ord :: "(('k \<rightharpoonup> 'v) \<Rightarrow> 'k list) \<Rightarrow> bool" where
  "valid_ord ord \<longleftrightarrow> (\<forall>m. finite (dom m) \<longrightarrow> range_order m (ord m))"

lemma Cache_Put_same: "Cache_Put ord now k r m k = Some \<lparr>ce_res = r, ce_expires = now + CacheTTL\<rparr>"
  by (simp add: Cache_Put_def Let_def)

lemma cache_sweep_sub: "cache_sweep now m k = Some e \<Longrightarrow> m k = Some e"
  by (auto simp: cache_sweep_def split: option.splits if_splits)

lemma cache_drop_sub: "cache_drop ks m k = Some e \<Longrightarrow> m k = Some e"
  by (auto simp: cache_drop_def fold_delete split: if_splits)

lemma Cache_Put_other: "l \<noteq> k \<Longrightarrow> Cache_Put ord now k r m l = Some e \<Longrightarrow> m l = Some e"
  by (auto simp: Cache_Put_def Let_def split: if_splits dest: cache_sweep_sub cache_drop_sub)

lemma Cache_Get_sub: "snd (Cache_Get now k m) l = Some e \<Longrightarrow> m l = Some e"
  by (auto simp: Cache_Get_def split: option.splits if_splits)

lemma Cache_Get_ok [inv_intros]: "cache_ok m \<Longrightarrow> cache_ok (snd (Cache_Get now k m))"
  by (auto simp: cache_ok_def Cache_Get_def card_Diff1_le split: option.splits intro: le_trans [OF card_Diff1_le])

lemma dom_cache_sweep: "dom (cache_sweep now m) \<subseteq> dom m"
  by (auto dest: cache_sweep_sub)

lemma card_cache_drop:
  assumes "range_order m ks" and "finite (dom m)" and "CacheCapacity \<le> card (dom m)"
  shows "card (dom (cache_drop ks m)) < card (dom m)"
proof (rule psubset_card_mono [OF assms(2)])
  from assms have "length ks = card (dom m)" by (metis range_order_def distinct_card)
  with assms(3) have "ks \<noteq> []" by (auto simp: CacheCapacity_def)
  then obtain k where k: "k \<in> set (take (CacheCapacity div 8) ks)"
    by (cases ks) (auto simp: CacheCapacity_def)
  with assms(1) have "k \<in> dom m" by (auto simp: range_order_def dest: in_set_takeD)
  moreover from k have "k \<notin> dom (cache_drop ks m)" by (auto simp: cache_drop_def fold_delete)
  moreover have "dom (cache_drop ks m) \<subseteq> dom m" by (auto dest: cache_drop_sub)
  ultimately show "dom (cache_drop ks m) \<subset> dom m" by blast
qed

lemma card_insert_lt: "finite A \<Longrightarrow> card A < n \<Longrightarrow> card (insert x A) \<le> n"
  by (metis Suc_leI card_insert_le_m1 card_insert_if le_trans nat_less_le)

lemma cache_ok_upd: "finite (dom m) \<Longrightarrow> card (dom m) < CacheCapacity \<Longrightarrow> cache_ok (m(k \<mapsto> e))"
  by (simp add: cache_ok_def card_insert_lt)

lemma Cache_Put_ok [inv_intros]:
  assumes ok: "cache_ok m" and ord: "valid_ord ord"
  shows "cache_ok (Cache_Put ord now k r m)"
proof -
  let ?s = "cache_sweep now m"
  have fin: "finite (dom m)" and le: "card (dom m) \<le> CacheCapacity" using ok by (auto simp: cache_ok_def)
  have fs: "finite (dom ?s)" using fin dom_cache_sweep by (rule rev_finite_subset)
  have ls: "card (dom ?s) \<le> CacheCapacity"
    using card_mono [OF fin dom_cache_sweep] le by (rule le_trans)
  have ro: "range_order ?s (ord ?s)" using ord fs by (auto simp: valid_ord_def)
  have fd: "finite (dom (cache_drop ks ?s))" for ks
    by (rule finite_subset [OF _ fs]) (auto dest: cache_drop_sub)
  have "CacheCapacity \<le> card (dom ?s) \<Longrightarrow> card (dom (cache_drop (ord ?s) ?s)) < CacheCapacity"
    using card_cache_drop [OF ro fs] ls by linarith
  then show ?thesis
    using fin fs fd by (auto simp: Cache_Put_def Let_def intro!: cache_ok_upd)
qed

text \<open>
  The cache meets the contract of a time-bounded store, whatever keys it evicts.
\<close>

interpretation cache_ttl: ttl_store CacheTTL NewCache
  "\<lambda>t k m. fst (Cache_Get t k m)" "\<lambda>t k v m. Cache_Put ord t k v m" for ord
proof unfold_locales
  fix k k' :: cacheKey and v w :: Result and t t' and s :: Cache
  show "fst (Cache_Get t k NewCache) = None"
    by (simp add: Cache_Get_def NewCache_def)
  show "t' < t + CacheTTL \<Longrightarrow> fst (Cache_Get t' k (Cache_Put ord t k v s)) = Some v"
    by (simp add: Cache_Get_def Cache_Put_same)
  show "t + CacheTTL \<le> t' \<Longrightarrow> fst (Cache_Get t' k (Cache_Put ord t k v s)) = None"
    by (simp add: Cache_Get_def Cache_Put_same)
  show "k' \<noteq> k \<Longrightarrow> fst (Cache_Get t' k' (Cache_Put ord t k v s)) = Some w \<Longrightarrow>
      fst (Cache_Get t' k' s) = Some w"
    by (auto simp: Cache_Get_def dest!: Cache_Put_other split: option.splits if_splits)
qed

section \<open>Coherence of the cache with the engine\<close>

text \<open>
  Every cached result is the engine's own decision at the moment it was stored, and that
  moment is not in the future.
\<close>

definition coherent :: "gotime \<Rightarrow> Engine \<Rightarrow> Cache \<Rightarrow> bool" where
  "coherent now e m \<longleftrightarrow> (\<forall>caller target method ce. m (caller, target, method) = Some ce \<longrightarrow>
     ce_expires ce - CacheTTL \<le> now \<and>
     ce_res ce = Engine_Decide e caller target method (ce_expires ce - CacheTTL))"

lemma coherent_empty [simp]: "coherent now e Map.empty"
  by (simp add: coherent_def)

lemma coherent_mono: "coherent now e m \<Longrightarrow> now \<le> now' \<Longrightarrow> coherent now' e m"
  by (fastforce simp: coherent_def)

lemma coherent_sub: "coherent now e m \<Longrightarrow> (\<And>k ce. m' k = Some ce \<Longrightarrow> m k = Some ce) \<Longrightarrow> coherent now e m'"
  unfolding coherent_def by blast

lemma coherent_Put:
  assumes "coherent now e m"
  shows "coherent now e (Cache_Put ord now (caller, target, method) (Engine_Decide e caller target method now) m)"
  unfolding coherent_def
proof (intro allI impI)
  fix c t me ce
  assume a: "Cache_Put ord now (caller, target, method) (Engine_Decide e caller target method now) m (c, t, me) = Some ce"
  show "ce_expires ce - CacheTTL \<le> now \<and> ce_res ce = Engine_Decide e c t me (ce_expires ce - CacheTTL)"
  proof (cases "(c, t, me) = (caller, target, method)")
    case True
    with a show ?thesis by (auto simp: Cache_Put_same)
  next
    case False
    from Cache_Put_other [OF this a] assms show ?thesis by (auto simp: coherent_def)
  qed
qed

lemma coherent_evaluate:
  assumes "coherent now e m" and "evaluate ord now e caller target method (Some m, n) = (r, Some m', n')"
  shows "coherent now e m'"
proof -
  have "coherent now e (snd (Cache_Get now (caller, target, method) m))"
    using assms(1) Cache_Get_sub by (rule coherent_sub)
  with assms(2) show ?thesis
    by (auto simp: evaluate_def Let_def split: prod.splits option.splits intro: coherent_Put)
qed

lemma evaluate_decision:
  assumes "coherent now e m" and "evaluate ord now e caller target method (Some m, n) = (r, c, n')"
  shows "\<exists>t. now - CacheTTL < t \<and> t \<le> now \<and> r = Engine_Decide e caller target method t"
proof (cases "fst (Cache_Get now (caller, target, method) m)")
  case None
  with assms(2) have "r = Engine_Decide e caller target method now"
    by (auto simp: evaluate_def Let_def split: prod.splits)
  then show ?thesis by (intro exI [of _ now]) simp
next
  case (Some r')
  then obtain ce where ce: "m (caller, target, method) = Some ce" "now < ce_expires ce" "r' = ce_res ce"
    by (auto simp: Cache_Get_def split: option.splits if_splits)
  from Some assms(2) have "r = r'"
    by (auto simp: evaluate_def split: prod.splits)
  with ce assms(1) show ?thesis
    by (intro exI [of _ "ce_expires ce - CacheTTL"]) (auto simp: coherent_def)
qed

end
