(* ===== verification/Plane.thy ===== *)
theory Plane
  imports Prelude
begin

text \<open>
  The mini-TURN forwarding plane of \<open>pkg/forward/plane.go\<close>: allocation ids owned by agent URIs,
  their UDP source endpoints, the two-sided registration handshake (control-plane nonce and
  UDP punch, in either order), forwarding of data packets and garbage collection. The model
  has one function per method; the body of the read loop of \<open>Run\<close> is \<open>handle_packet\<close>. The
  methods do their work under the plane's lock and each is one atomic step here, with the clock
  reading of the call as its argument \<open>now\<close>; the theory \<open>PlaneHeap\<close> cuts them at their unlocked accesses.
\<close>

unbundle bit_operations_syntax

section \<open>State\<close>

text \<open>\<open>netip.AddrPort\<close>: the zero value is the one that is not valid.\<close>

datatype AddrPort = ZeroAddrPort | AddrPort string "16 word"

definition IsValid :: "AddrPort \<Rightarrow> bool" where
  "IsValid a \<longleftrightarrow> a \<noteq> ZeroAddrPort"

type_synonym nonce = "byte list"

definition PunchNonceSize :: nat where
  "PunchNonceSize = 16"

definition DefaultAllocIdleTTL :: duration where
  "DefaultAllocIdleTTL = 60 * Second"

definition DefaultPendingTTL :: duration where
  "DefaultPendingTTL = 5 * Second"

record pendingEntry =
  pe_uri :: uri
  pe_nonce :: nonce
  pe_expires :: gotime

record queuedPunch =
  qp_src :: AddrPort
  qp_nonce :: nonce
  qp_expires :: gotime

record allocEntry =
  ae_uri :: uri
  ae_src :: AddrPort
  ae_lastSeen :: gotime

datatype planeErr = ErrUnknownAlloc | ErrOwnerMismatch

record Plane =
  byAlloc :: "u32 \<rightharpoonup> allocEntry"
  byURI :: "uri \<rightharpoonup> u32 set"
  src2id :: "AddrPort \<rightharpoonup> u32"
  pending :: "u32 \<rightharpoonup> pendingEntry"
  queued :: "u32 \<rightharpoonup> queuedPunch"
  nextID :: u32
  idleTTL :: duration
  pendingTTL :: duration

definition NewPlane :: Plane where
  "NewPlane = \<lparr>byAlloc = Map.empty, byURI = Map.empty, src2id = Map.empty, pending = Map.empty,
     queued = Map.empty, nextID = 0, idleTTL = DefaultAllocIdleTTL, pendingTTL = DefaultPendingTTL\<rparr>"

definition SetIdleTTL :: "duration \<Rightarrow> Plane \<Rightarrow> Plane" where
  "SetIdleTTL d p = p\<lparr>idleTTL := d\<rparr>"

definition SetPendingTTL :: "duration \<Rightarrow> Plane \<Rightarrow> Plane" where
  "SetPendingTTL d p = p\<lparr>pendingTTL := d\<rparr>"

section \<open>Operations\<close>

definition pending_ttl :: "Plane \<Rightarrow> duration" where
  "pending_ttl p = (if pendingTTL p \<le> 0 then DefaultPendingTTL else pendingTTL p)"

text \<open>
  The statements common to \<open>ArmPending\<close> and \<open>register\<close> that bind the entry \<open>e\<close> of allocation
  \<open>i\<close> to the source \<open>src\<close> and keep the reverse index.
\<close>

definition bind_src :: "u32 \<Rightarrow> allocEntry \<Rightarrow> AddrPort \<Rightarrow> gotime \<Rightarrow> Plane \<Rightarrow> Plane" where
  "bind_src i e src now p =
     p\<lparr>byAlloc := (byAlloc p)(i \<mapsto> e\<lparr>ae_src := src, ae_lastSeen := now\<rparr>),
       src2id := (if ae_src e \<noteq> src
                  then (if IsValid (ae_src e) then (src2id p)(ae_src e := None) else src2id p)(src \<mapsto> i)
                  else src2id p)\<rparr>"

definition ArmPending :: "gotime \<Rightarrow> u32 \<Rightarrow> uri \<Rightarrow> nonce \<Rightarrow> Plane \<Rightarrow> planeErr option \<times> Plane" where
  "ArmPending now allocID uri nonce p =
     (if uri = [] then (Some ErrOwnerMismatch, p)
      else case byAlloc p allocID of
        None \<Rightarrow> (Some ErrUnknownAlloc, p)
      | Some e \<Rightarrow>
          if ae_uri e \<noteq> uri then (Some ErrOwnerMismatch, p)
          else
            let p1 = p\<lparr>queued := (queued p)(allocID := None)\<rparr>;
                armed = p1\<lparr>pending := (pending p1)(allocID \<mapsto>
                  \<lparr>pe_uri = uri, pe_nonce = nonce, pe_expires = now + pending_ttl p\<rparr>)\<rparr>
            in (None, case queued p allocID of
                        None \<Rightarrow> armed
                      | Some q \<Rightarrow>
                          if now < qp_expires q \<and> qp_nonce q = nonce
                          then bind_src allocID e (qp_src q) now p1 else armed))"

text \<open>
  The loop of \<open>Allocate\<close> over the atomic counter: \<open>Add(1)\<close> until the result is not the
  reserved 0.
\<close>

function next_alloc :: "u32 \<Rightarrow> u32" where
  "next_alloc n = (if n + 1 \<noteq> 0 then n + 1 else next_alloc (n + 1))"
  by pat_completeness auto
termination
proof (relation "measure (\<lambda>n. if n + 1 = 0 then 1 else 0)")
  fix n :: u32
  assume "\<not> n + 1 \<noteq> 0"
  then show "(n + 1, n) \<in> measure (\<lambda>n. if n + 1 = 0 then 1 else 0)" by simp
qed simp

declare next_alloc.simps [simp del]

text \<open>\<open>Allocate\<close> panics (\<open>None\<close>) on the empty URI.\<close>

definition Allocate :: "gotime \<Rightarrow> uri \<Rightarrow> Plane \<Rightarrow> (u32 \<times> Plane) option" where
  "Allocate now uri p =
     (if uri = [] then None
      else let i = next_alloc (nextID p);
               S = (case byURI p uri of None \<Rightarrow> {} | Some S \<Rightarrow> S)
           in Some (i, p\<lparr>nextID := i,
                byAlloc := (byAlloc p)(i \<mapsto> \<lparr>ae_uri = uri, ae_src = ZeroAddrPort, ae_lastSeen = now\<rparr>),
                byURI := (byURI p)(uri \<mapsto> insert i S)\<rparr>))"

text \<open>The removal of an entry from the three indexes, shared by \<open>Forget\<close> and \<open>gcOnce\<close>.\<close>

definition drop_alloc :: "u32 \<Rightarrow> allocEntry \<Rightarrow> Plane \<Rightarrow> Plane" where
  "drop_alloc i e p =
     p\<lparr>byAlloc := (byAlloc p)(i := None),
       src2id := (src2id p)(ae_src e := None),
       byURI := (case byURI p (ae_uri e) of
                   None \<Rightarrow> byURI p
                 | Some S \<Rightarrow> (byURI p)(ae_uri e := (if S - {i} = {} then None else Some (S - {i}))))\<rparr>"

definition drop_handshake :: "u32 \<Rightarrow> Plane \<Rightarrow> Plane" where
  "drop_handshake i p = p\<lparr>pending := (pending p)(i := None), queued := (queued p)(i := None)\<rparr>"

definition Forget :: "u32 \<Rightarrow> Plane \<Rightarrow> Plane" where
  "Forget i p =
     drop_handshake i (case byAlloc p i of None \<Rightarrow> p | Some e \<Rightarrow> drop_alloc i e p)"

text \<open>\<open>ForgetAgent\<close>: \<open>ids\<close> is the order in which the owner's set of ids is ranged over.\<close>

definition forget_owned :: "u32 \<Rightarrow> nat \<times> Plane \<Rightarrow> nat \<times> Plane" where
  "forget_owned i np = (case np of (n, p) \<Rightarrow>
     (case byAlloc p i of
        None \<Rightarrow> (n, p)
      | Some e \<Rightarrow> (n + 1, drop_handshake i
          (p\<lparr>byAlloc := (byAlloc p)(i := None), src2id := (src2id p)(ae_src e := None)\<rparr>))))"

definition ForgetAgent :: "u32 list \<Rightarrow> uri \<Rightarrow> Plane \<Rightarrow> nat \<times> Plane" where
  "ForgetAgent ids uri p =
     (if uri = [] then (0, p)
      else case byURI p uri of
        None \<Rightarrow> (0, p)
      | Some S \<Rightarrow> (case fold forget_owned ids (0, p) of (n, p') \<Rightarrow>
                     (n, p'\<lparr>byURI := (byURI p')(uri := None)\<rparr>)))"

definition OwnerOf :: "u32 \<Rightarrow> Plane \<Rightarrow> uri option" where
  "OwnerOf i p = map_option ae_uri (byAlloc p i)"

definition Lookup :: "u32 \<Rightarrow> Plane \<Rightarrow> AddrPort option" where
  "Lookup i p = map_option ae_src (byAlloc p i)"

definition register :: "gotime \<Rightarrow> u32 \<Rightarrow> AddrPort \<Rightarrow> nonce \<Rightarrow> Plane \<Rightarrow> Plane" where
  "register now allocID src nonce p =
     (case pending p allocID of
        None \<Rightarrow> p\<lparr>queued := (queued p)(allocID \<mapsto>
                   \<lparr>qp_src = src, qp_nonce = nonce, qp_expires = now + pending_ttl p\<rparr>)\<rparr>
      | Some pend \<Rightarrow>
          if pe_expires pend < now then p\<lparr>pending := (pending p)(allocID := None)\<rparr>
          else if pe_nonce pend \<noteq> nonce then p
          else (case byAlloc p allocID of
                  None \<Rightarrow> p\<lparr>pending := (pending p)(allocID := None)\<rparr>
                | Some e \<Rightarrow> (bind_src allocID e src now p)\<lparr>pending := (pending p)(allocID := None)\<rparr>))"

text \<open>\<open>binary.BigEndian.Uint32\<close> on the first four bytes.\<close>

fun BigEndian_Uint32 :: "byte list \<Rightarrow> u32" where
  "BigEndian_Uint32 (b0 # b1 # b2 # b3 # _) =
     ucast b3 OR push_bit 8 (ucast b2) OR push_bit 16 (ucast b1) OR push_bit 24 (ucast b0)"
| "BigEndian_Uint32 _ = 0"

definition bump_sender :: "gotime \<Rightarrow> AddrPort \<Rightarrow> Plane \<Rightarrow> Plane" where
  "bump_sender now src p =
     (case src2id p src of
        None \<Rightarrow> p
      | Some i \<Rightarrow> (case byAlloc p i of
          None \<Rightarrow> p
        | Some e \<Rightarrow> p\<lparr>byAlloc := (byAlloc p)(i \<mapsto> e\<lparr>ae_lastSeen := now\<rparr>)\<rparr>))"

text \<open>
  The body of the read loop: the new state and the datagram written, if any.
\<close>

definition handle_packet ::
  "gotime \<Rightarrow> AddrPort \<Rightarrow> byte list \<Rightarrow> Plane \<Rightarrow> Plane \<times> (AddrPort \<times> byte list) option" where
  "handle_packet now src buf p =
     (if length buf < 4 then (p, None)
      else let peerAlloc = BigEndian_Uint32 buf in
        if peerAlloc = 0 then
          if length buf < 8 + PunchNonceSize then (p, None)
          else (register now (BigEndian_Uint32 (drop 4 buf)) src (take PunchNonceSize (drop 8 buf)) p, None)
        else (bump_sender now src p,
              map_option (\<lambda>e. (ae_src e, drop 4 buf)) (byAlloc p peerAlloc)))"

definition gc_interval :: "duration \<Rightarrow> duration" where
  "gc_interval ttl = min (max (ttl div 4) Second) (5 * Second)"

definition gc_evict :: "gotime \<Rightarrow> u32 \<Rightarrow> Plane \<Rightarrow> Plane" where
  "gc_evict cutoff i p =
     (case byAlloc p i of
        None \<Rightarrow> p
      | Some e \<Rightarrow> if ae_lastSeen e < cutoff then drop_handshake i (drop_alloc i e p) else p)"

text \<open>\<open>gcOnce\<close>: \<open>ids\<close> is the order in which \<open>byAlloc\<close> is ranged over.\<close>

definition gcOnce :: "gotime \<Rightarrow> u32 list \<Rightarrow> Plane \<Rightarrow> Plane" where
  "gcOnce now ids p =
     (let p1 = fold (gc_evict (now - idleTTL p)) ids p
      in p1\<lparr>pending := (\<lambda>i. case pending p1 i of None \<Rightarrow> None
                           | Some e \<Rightarrow> if pe_expires e < now then None else Some e),
            queued := (\<lambda>i. case queued p1 i of None \<Rightarrow> None
                          | Some q \<Rightarrow> if qp_expires q < now then None else Some q)\<rparr>)"

section \<open>Invariant\<close>

text \<open>
  \<open>index_ok\<close>: the owner index lists exactly the live allocations. \<open>src_ok\<close>: the reverse
  index points at live allocations bound to that source. \<open>pend_ok\<close>: an armed nonce belongs to
  the current owner of a live allocation, which then has no queued punch. \<open>ids_ok\<close>: live ids
  are issued ids.
\<close>

definition index_ok :: "Plane \<Rightarrow> bool" where
  "index_ok p \<longleftrightarrow>
     (\<forall>i e. byAlloc p i = Some e \<longrightarrow> ae_uri e \<noteq> [] \<and> (\<exists>S. byURI p (ae_uri e) = Some S \<and> i \<in> S)) \<and>
     (\<forall>u S. byURI p u = Some S \<longrightarrow> S \<noteq> {} \<and> (\<forall>i \<in> S. \<exists>e. byAlloc p i = Some e \<and> ae_uri e = u))"

definition src_ok :: "Plane \<Rightarrow> bool" where
  "src_ok p \<longleftrightarrow> (\<forall>s i. src2id p s = Some i \<longrightarrow> IsValid s \<and> (\<exists>e. byAlloc p i = Some e \<and> ae_src e = s))"

definition pend_ok :: "Plane \<Rightarrow> bool" where
  "pend_ok p \<longleftrightarrow> (\<forall>i pe. pending p i = Some pe \<longrightarrow>
     queued p i = None \<and> (\<exists>e. byAlloc p i = Some e \<and> ae_uri e = pe_uri pe))"

definition ids_ok :: "Plane \<Rightarrow> bool" where
  "ids_ok p \<longleftrightarrow> (\<forall>i. byAlloc p i \<noteq> None \<longrightarrow> 0 < i \<and> i \<le> nextID p)"

definition plane_inv :: "Plane \<Rightarrow> bool" where
  "plane_inv p \<longleftrightarrow> index_ok p \<and> src_ok p \<and> pend_ok p \<and> ids_ok p"

lemma plane_invI [intro]: "index_ok p \<Longrightarrow> src_ok p \<Longrightarrow> pend_ok p \<Longrightarrow> ids_ok p \<Longrightarrow> plane_inv p"
  by (simp add: plane_inv_def)

lemma plane_invD: "plane_inv p \<Longrightarrow> index_ok p" "plane_inv p \<Longrightarrow> src_ok p" "plane_inv p \<Longrightarrow> pend_ok p"
  "plane_inv p \<Longrightarrow> ids_ok p"
  by (simp_all add: plane_inv_def)

lemma NewPlane_inv [inv_intros]: "plane_inv NewPlane"
  by (auto simp: NewPlane_def index_ok_def src_ok_def pend_ok_def ids_ok_def)

text \<open>Parts of the invariant depend on few fields of an entry.\<close>

lemma index_ok_cong:
  assumes "index_ok p" and "byURI q = byURI p"
    and "\<And>i. map_option ae_uri (byAlloc q i) = map_option ae_uri (byAlloc p i)"
  shows "index_ok q"
proof -
  have *: "(\<exists>e. byAlloc q i = Some e \<and> ae_uri e = u) \<longleftrightarrow> (\<exists>e. byAlloc p i = Some e \<and> ae_uri e = u)" for i u
    using assms(3) [of i] by (cases "byAlloc q i"; cases "byAlloc p i") auto
  show ?thesis
    unfolding index_ok_def
  proof (intro conjI allI impI)
    fix i e assume "byAlloc q i = Some e"
    with * obtain e' where "byAlloc p i = Some e'" "ae_uri e' = ae_uri e" by blast
    with assms(1,2) show "ae_uri e \<noteq> []" "\<exists>S. byURI q (ae_uri e) = Some S \<and> i \<in> S"
      by (fastforce simp: index_ok_def)+
  next
    fix u S assume "byURI q u = Some S"
    with assms(1,2) show "S \<noteq> {}" by (auto simp: index_ok_def)
    from \<open>byURI q u = Some S\<close> assms(1,2) show "\<forall>i \<in> S. \<exists>e. byAlloc q i = Some e \<and> ae_uri e = u"
      unfolding * by (auto simp: index_ok_def)
  qed
qed


lemma pend_ok_cong:
  assumes "pend_ok p" and "\<And>i pe. pending q i = Some pe \<Longrightarrow> pending p i = Some pe"
    and "\<And>i. queued q i \<noteq> None \<Longrightarrow> queued p i \<noteq> None \<or> pending q i = None"
    and "\<And>i. map_option ae_uri (byAlloc q i) = map_option ae_uri (byAlloc p i)"
  shows "pend_ok q"
  unfolding pend_ok_def
proof (intro allI impI)
  fix i pe assume a: "pending q i = Some pe"
  with assms(2) have "pending p i = Some pe" by blast
  with assms(1) obtain e where "queued p i = None" "byAlloc p i = Some e" "ae_uri e = pe_uri pe"
    by (auto simp: pend_ok_def)
  with assms(3) [of i] assms(4) [of i] a
  show "queued q i = None \<and> (\<exists>e. byAlloc q i = Some e \<and> ae_uri e = pe_uri pe)"
    by (cases "byAlloc q i"; cases "queued q i") auto
qed

lemma ids_ok_cong: "ids_ok p \<Longrightarrow> nextID q = nextID p \<Longrightarrow> (\<And>i. byAlloc q i \<noteq> None \<Longrightarrow> byAlloc p i \<noteq> None) \<Longrightarrow> ids_ok q"
  by (auto simp: ids_ok_def)

section \<open>Every operation keeps the invariant\<close>

lemma bind_src_uri:
  "byAlloc p i = Some e \<Longrightarrow>
   map_option ae_uri (byAlloc (bind_src i e src now p) j) = map_option ae_uri (byAlloc p j)"
  by (simp add: bind_src_def)

lemma bind_src_frame [simp]:
  "byURI (bind_src i e src now p) = byURI p" "pending (bind_src i e src now p) = pending p"
  "queued (bind_src i e src now p) = queued p" "nextID (bind_src i e src now p) = nextID p"
  "idleTTL (bind_src i e src now p) = idleTTL p" "pendingTTL (bind_src i e src now p) = pendingTTL p"
  "byAlloc (bind_src i e src now p) = (byAlloc p)(i \<mapsto> e\<lparr>ae_src := src, ae_lastSeen := now\<rparr>)"
  by (simp_all add: bind_src_def)

lemma bind_src_src_ok:
  assumes "src_ok p" and "byAlloc p i = Some e" and "IsValid src"
  shows "src_ok (bind_src i e src now p)"
  unfolding src_ok_def
proof (intro allI impI)
  fix s j assume a: "src2id (bind_src i e src now p) s = Some j"
  show "IsValid s \<and> (\<exists>e'. byAlloc (bind_src i e src now p) j = Some e' \<and> ae_src e' = s)"
  proof (cases "s = src")
    case True
    with a assms show ?thesis
      by (auto simp: bind_src_def src_ok_def split: if_splits)
  next
    case False
    with a have s: "src2id p s = Some j" and ne: "ae_src e \<noteq> src \<Longrightarrow> IsValid (ae_src e) \<Longrightarrow> s \<noteq> ae_src e"
      by (auto simp: bind_src_def split: if_splits)
    from s assms(1) obtain e' where e': "byAlloc p j = Some e'" "ae_src e' = s" "IsValid s"
      by (auto simp: src_ok_def)
    with ne False assms(2) have "j \<noteq> i" by auto
    with e' show ?thesis by simp
  qed
qed

lemma bind_src_inv:
  assumes "plane_inv p" and "byAlloc p i = Some e" and "IsValid src"
  shows "plane_inv (bind_src i e src now p)"
proof
  note inv = plane_invD [OF assms(1)]
  show "index_ok (bind_src i e src now p)"
    by (rule index_ok_cong [OF inv(1)]) (simp_all add: assms(2))
  show "src_ok (bind_src i e src now p)"
    by (rule bind_src_src_ok [OF inv(2) assms(2,3)])
  show "pend_ok (bind_src i e src now p)"
    by (rule pend_ok_cong [OF inv(3)]) (simp_all add: assms(2))
  show "ids_ok (bind_src i e src now p)"
    by (rule ids_ok_cong [OF inv(4)]) (auto simp: assms(2) split: if_splits)
qed

lemma drop_pending_inv: "plane_inv p \<Longrightarrow> plane_inv (p\<lparr>pending := (pending p)(i := None)\<rparr>)"
  by (auto simp: plane_inv_def index_ok_def src_ok_def pend_ok_def ids_ok_def)

lemma drop_queued_inv: "plane_inv p \<Longrightarrow> plane_inv (p\<lparr>queued := (queued p)(i := None)\<rparr>)"
  by (auto simp: plane_inv_def index_ok_def src_ok_def pend_ok_def ids_ok_def)

lemma register_inv [inv_intros]:
  assumes "plane_inv p" and "IsValid src"
  shows "plane_inv (register now i src n p)"
proof -
  have "plane_inv (p\<lparr>queued := (queued p)(i \<mapsto> q)\<rparr>)" if "pending p i = None" for q
    using assms(1) that by (auto simp: plane_inv_def index_ok_def src_ok_def pend_ok_def ids_ok_def)
  moreover have "plane_inv ((bind_src i e src now p)\<lparr>pending := (pending p)(i := None)\<rparr>)"
    if "byAlloc p i = Some e" for e
    using drop_pending_inv [OF bind_src_inv [OF assms(1) that assms(2)], of now i] by simp
  ultimately show ?thesis
    using assms drop_pending_inv [OF assms(1)] by (auto simp: register_def split: option.split)
qed

lemma ArmPending_inv [inv_intros]:
  assumes "plane_inv p" and "\<And>q. queued p i = Some q \<Longrightarrow> IsValid (qp_src q)"
  shows "plane_inv (snd (ArmPending now i u n p))"
proof (cases "byAlloc p i")
  case (Some e)
  let ?p1 = "p\<lparr>queued := (queued p)(i := None)\<rparr>"
  have p1: "plane_inv ?p1" using assms(1) by (rule drop_queued_inv)
  have "plane_inv (?p1\<lparr>pending := (pending ?p1)(i \<mapsto> \<lparr>pe_uri = ae_uri e, pe_nonce = n, pe_expires = t\<rparr>)\<rparr>)" for t
    using assms(1) Some by (auto simp: plane_inv_def index_ok_def src_ok_def pend_ok_def ids_ok_def)
  moreover have "plane_inv (bind_src i e (qp_src q) now ?p1)" if "queued p i = Some q" for q
    using bind_src_inv [OF p1] Some assms(2) [OF that] by simp
  ultimately show ?thesis
    using assms(1) Some by (auto simp: ArmPending_def Let_def split: option.split)
qed (use assms(1) in \<open>simp add: ArmPending_def\<close>)

lemma next_alloc_eq: "n \<noteq> - 1 \<Longrightarrow> next_alloc n = n + 1"
  by (simp add: next_alloc.simps [of n] flip: eq_neg_iff_add_eq_0)

lemma next_alloc_wrap: "next_alloc (- 1) = 1"
  by (simp add: next_alloc.simps [of "- 1"] next_alloc.simps [of 0])

lemma next_alloc_nonzero: "next_alloc n \<noteq> 0"
  by (cases "n = - 1") (simp_all add: next_alloc_eq next_alloc_wrap flip: eq_neg_iff_add_eq_0)

lemma next_alloc_greater:
  assumes "n \<noteq> - 1"
  shows "n < next_alloc n"
proof -
  from assms have "1 + n \<noteq> 0" by (metis add.commute eq_neg_iff_add_eq_0)
  then have "unat (1 + n) = Suc (unat n)" by (rule unatSuc)
  with assms show ?thesis by (simp add: next_alloc_eq word_less_nat_alt add.commute)
qed

lemma next_alloc_fresh:
  assumes "ids_ok p" and "nextID p \<noteq> - 1"
  shows "byAlloc p (next_alloc (nextID p)) = None" "nextID p < next_alloc (nextID p)"
  using assms next_alloc_greater [OF assms(2)] by (auto simp: ids_ok_def dest: leD)

lemma insert_alloc_inv:
  assumes inv: "plane_inv p" and i: "byAlloc p i = None" "0 < i" "i \<le> nextID p" and u: "u \<noteq> []"
  shows "plane_inv (p\<lparr>byAlloc := (byAlloc p)(i \<mapsto> \<lparr>ae_uri = u, ae_src = ZeroAddrPort, ae_lastSeen = now\<rparr>),
    byURI := (byURI p)(u \<mapsto> insert i (case byURI p u of None \<Rightarrow> {} | Some S \<Rightarrow> S))\<rparr>)" (is "plane_inv ?q")
proof
  note invs = plane_invD [OF inv]
  show "index_ok ?q"
    using invs(1) i(1) u unfolding index_ok_def by (auto split: if_splits option.splits; fastforce)
  show "src_ok ?q" using invs(2) i(1) unfolding src_ok_def by (auto split: if_splits; fastforce)
  show "pend_ok ?q" using invs(3) i(1) unfolding pend_ok_def by (auto split: if_splits; fastforce)
  show "ids_ok ?q" using invs(4) i by (auto simp: ids_ok_def)
qed

lemma next_id_inv: "plane_inv p \<Longrightarrow> nextID p \<le> n \<Longrightarrow> plane_inv (p\<lparr>nextID := n\<rparr>)"
  by (auto simp: plane_inv_def index_ok_def src_ok_def pend_ok_def ids_ok_def intro: order_trans)

lemma Allocate_inv [inv_intros]:
  assumes inv: "plane_inv p" and nw: "nextID p \<noteq> - 1" and al: "Allocate now u p = Some (i, q)"
  shows "plane_inv q"
proof -
  note fresh = next_alloc_fresh [OF plane_invD(4) [OF inv] nw]
  have al': "i = next_alloc (nextID p)" "u \<noteq> []" using al by (auto simp: Allocate_def Let_def split: if_splits)
  have "plane_inv (p\<lparr>nextID := i\<rparr>)" using next_id_inv [OF inv less_imp_le [OF fresh(2)]] al'(1) by simp
  from insert_alloc_inv [OF this, of i u now] al' fresh(1) next_alloc_nonzero [of "nextID p"] al show ?thesis
    by (auto simp: Allocate_def Let_def word_neq_0_conv split: if_splits)
qed

lemma drop_alloc_inv:
  assumes inv: "plane_inv p" and e: "byAlloc p i = Some e"
  shows "plane_inv (drop_handshake i (drop_alloc i e p))"
proof
  let ?q = "drop_handshake i (drop_alloc i e p)"
  note invs = plane_invD [OF inv]
  show "index_ok ?q"
    using invs(1) e unfolding index_ok_def drop_handshake_def drop_alloc_def
    by (auto split: option.splits if_splits; fastforce)
  show "src_ok ?q"
    using invs(2) e by (fastforce simp: src_ok_def drop_handshake_def drop_alloc_def)
  show "pend_ok ?q"
    using invs(3) by (fastforce simp: pend_ok_def drop_handshake_def drop_alloc_def)
  show "ids_ok ?q"
    using invs(4) by (auto simp: ids_ok_def drop_handshake_def drop_alloc_def)
qed

lemma drop_handshake_inv: "plane_inv p \<Longrightarrow> plane_inv (drop_handshake i p)"
  using drop_queued_inv [OF drop_pending_inv, of p i i] by (simp add: drop_handshake_def)

lemma Forget_inv [inv_intros]: "plane_inv p \<Longrightarrow> plane_inv (Forget i p)"
  by (auto simp: Forget_def drop_alloc_inv drop_handshake_inv split: option.split)

lemma gc_evict_inv: "plane_inv p \<Longrightarrow> plane_inv (gc_evict c i p)"
  by (auto simp: gc_evict_def drop_alloc_inv split: option.split)

lemma gc_fold_inv: "plane_inv p \<Longrightarrow> plane_inv (fold (gc_evict c) ids p)"
  by (induction ids arbitrary: p) (simp_all add: gc_evict_inv)

lemma gcOnce_inv [inv_intros]:
  assumes "plane_inv p"
  shows "plane_inv (gcOnce now ids p)"
proof -
  have "plane_inv (q\<lparr>pending := (\<lambda>i. case pending q i of None \<Rightarrow> None
      | Some e \<Rightarrow> if pe_expires e < now then None else Some e),
      queued := (\<lambda>i. case queued q i of None \<Rightarrow> None
      | Some x \<Rightarrow> if qp_expires x < now then None else Some x)\<rparr>)" if "plane_inv q" for q
    using that unfolding plane_inv_def index_ok_def src_ok_def pend_ok_def ids_ok_def
    by (auto split: option.splits if_splits)
  then show ?thesis
    using gc_fold_inv [OF assms] by (simp add: gcOnce_def Let_def)
qed

lemma touch_inv:
  assumes "plane_inv p" and "byAlloc p i = Some e"
  shows "plane_inv (p\<lparr>byAlloc := (byAlloc p)(i \<mapsto> e\<lparr>ae_lastSeen := now\<rparr>)\<rparr>)" (is "plane_inv ?q")
proof
  note invs = plane_invD [OF assms(1)]
  show "index_ok ?q" by (rule index_ok_cong [OF invs(1)]) (simp_all add: assms(2))
  show "pend_ok ?q" by (rule pend_ok_cong [OF invs(3)]) (simp_all add: assms(2))
  show "ids_ok ?q" by (rule ids_ok_cong [OF invs(4)]) (auto simp: assms(2) split: if_splits)
  show "src_ok ?q" using invs(2) assms(2) by (fastforce simp: src_ok_def)
qed

lemma bump_sender_inv [inv_intros]: "plane_inv p \<Longrightarrow> plane_inv (bump_sender now src p)"
  by (auto simp: bump_sender_def touch_inv split: option.split)

lemma handle_packet_inv [inv_intros]:
  "plane_inv p \<Longrightarrow> IsValid src \<Longrightarrow> plane_inv (fst (handle_packet now src buf p))"
  by (auto simp: handle_packet_def Let_def intro: inv_intros)

text \<open>\<open>ForgetAgent\<close> leaves the owner index behind until its loop is over; the effect of the whole
  loop is pointwise.\<close>

lemma forget_owned_fold:
  fixes p :: Plane
  defines "gone \<equiv> \<lambda>ids s. \<exists>i \<in> set ids. \<exists>e. byAlloc p i = Some e \<and> ae_src e = s"
  assumes "distinct ids" and "set ids \<subseteq> dom (byAlloc p)"
  shows "fold forget_owned ids (n, p) =
    (n + length ids, p\<lparr>byAlloc := (\<lambda>j. if j \<in> set ids then None else byAlloc p j),
       src2id := (\<lambda>s. if gone ids s then None else src2id p s),
       pending := (\<lambda>j. if j \<in> set ids then None else pending p j),
       queued := (\<lambda>j. if j \<in> set ids then None else queued p j)\<rparr>)"
  using assms(2,3) unfolding gone_def
proof (induction ids arbitrary: n p)
  case Nil
  then show ?case by simp
next
  case (Cons i ids)
  then obtain e where e: "byAlloc p i = Some e" by auto
  let ?q = "drop_handshake i (p\<lparr>byAlloc := (byAlloc p)(i := None), src2id := (src2id p)(ae_src e := None)\<rparr>)"
  have step: "forget_owned i (n, p) = (n + 1, ?q)" by (simp add: forget_owned_def e)
  have "distinct ids" "set ids \<subseteq> dom (byAlloc ?q)"
    using Cons.prems by (auto simp: drop_handshake_def)
  note IH = Cons.IH [OF this, of "n + 1"]
  have src: "(\<exists>l \<in> set ids. \<exists>e'. byAlloc ?q l = Some e' \<and> ae_src e' = s) \<or> s = ae_src e \<longleftrightarrow>
      (\<exists>l \<in> set (i # ids). \<exists>e'. byAlloc p l = Some e' \<and> ae_src e' = s)" for s
    using Cons.prems e by (force simp: drop_handshake_def)
  have fields:
    "(\<lambda>j. if j \<in> set ids then None else byAlloc ?q j) = (\<lambda>j. if j \<in> set (i # ids) then None else byAlloc p j)"
    "(\<lambda>j. if j \<in> set ids then None else pending ?q j) = (\<lambda>j. if j \<in> set (i # ids) then None else pending p j)"
    "(\<lambda>j. if j \<in> set ids then None else queued ?q j) = (\<lambda>j. if j \<in> set (i # ids) then None else queued p j)"
    "(\<lambda>s. if \<exists>l \<in> set ids. \<exists>e'. byAlloc ?q l = Some e' \<and> ae_src e' = s then None else src2id ?q s) =
      (\<lambda>s. if \<exists>l \<in> set (i # ids). \<exists>e'. byAlloc p l = Some e' \<and> ae_src e' = s then None else src2id p s)"
    unfolding src [symmetric] by (auto simp: fun_eq_iff drop_handshake_def)
  show ?case
    unfolding fold_simps step IH fields by (simp add: drop_handshake_def)
qed

lemma ForgetAgent_eq:
  assumes "plane_inv p" and "byURI p u = Some S" and "distinct ids" and "set ids = S"
  shows "ForgetAgent ids u p =
    (card S, p\<lparr>byAlloc := (\<lambda>j. if j \<in> S then None else byAlloc p j),
       src2id := (\<lambda>s. if \<exists>i \<in> S. \<exists>e. byAlloc p i = Some e \<and> ae_src e = s then None else src2id p s),
       pending := (\<lambda>j. if j \<in> S then None else pending p j),
       queued := (\<lambda>j. if j \<in> S then None else queued p j),
       byURI := (byURI p)(u := None)\<rparr>)"
proof -
  note idx = plane_invD(1) [OF assms(1)]
  have sub: "set ids \<subseteq> dom (byAlloc p)" using idx assms(2,4) unfolding index_ok_def by fast
  have "S \<noteq> {}" using idx assms(2) by (auto simp: index_ok_def)
  then obtain i where "i \<in> S" by auto
  then have "u \<noteq> []" using idx assms(2) by (fastforce simp: index_ok_def)
  moreover have "length ids = card S" using assms(3,4) by (metis distinct_card)
  ultimately show ?thesis
    using assms(2,4) forget_owned_fold [OF assms(3) sub, of 0] by (simp add: ForgetAgent_def)
qed

lemma ForgetAgent_inv [inv_intros]:
  assumes inv: "plane_inv p" and ids: "\<And>S. byURI p u = Some S \<Longrightarrow> distinct ids \<and> set ids = S"
  shows "plane_inv (snd (ForgetAgent ids u p))"
proof (cases "byURI p u")
  case None
  with inv show ?thesis by (simp add: ForgetAgent_def)
next
  case (Some S)
  with ids have d: "distinct ids" "set ids = S" by auto
  note invs = plane_invD [OF inv]
  have own: "j \<in> S \<longleftrightarrow> (\<exists>e. byAlloc p j = Some e \<and> ae_uri e = u)" for j
    using invs(1) Some by (fastforce simp: index_ok_def)
  let ?q = "snd (ForgetAgent ids u p)"
  have "index_ok ?q"
    using invs(1) unfolding index_ok_def ForgetAgent_eq [OF inv Some d] by (auto simp: own; fastforce)
  moreover have "src_ok ?q"
    using invs(2) unfolding src_ok_def ForgetAgent_eq [OF inv Some d] by (auto split: if_splits; fastforce)
  moreover have "pend_ok ?q"
    using invs(3) unfolding pend_ok_def ForgetAgent_eq [OF inv Some d] by auto
  moreover have "ids_ok ?q"
    using invs(4) unfolding ids_ok_def ForgetAgent_eq [OF inv Some d] by auto
  ultimately show ?thesis by blast
qed

end
