(* ===== verification/Migrate.thy ===== *)
theory Migrate
  imports TtlStore
begin

text \<open>
  The table of streams released to a direct P2P path (\<open>pkg/edge/migrate.go\<close>). \<open>Note\<close> reads the
  clock twice, once for the entry and once for the collection, so its model takes both readings.
\<close>

section \<open>The code\<close>

definition MigrationTTL :: duration where
  "MigrationTTL = 60 * Second"

record migratedStream =
  mg_id :: u64
  mg_consumerURI :: uri
  mg_providerURI :: uri
  mg_migratedAt :: gotime

type_synonym migratedLRU = "u64 \<rightharpoonup> migratedStream"

definition newMigratedLRU :: migratedLRU where
  "newMigratedLRU = Map.empty"

definition gcLocked :: "gotime \<Rightarrow> migratedLRU \<Rightarrow> migratedLRU" where
  "gcLocked now l = (\<lambda>k. case l k of None \<Rightarrow> None
     | Some v \<Rightarrow> if now - mg_migratedAt v \<ge> MigrationTTL then None else Some v)"

definition migrated_Note :: "gotime \<Rightarrow> gotime \<Rightarrow> migratedStream \<Rightarrow> migratedLRU \<Rightarrow> migratedLRU" where
  "migrated_Note now now' s l = gcLocked now' (l(mg_id s \<mapsto> s\<lparr>mg_migratedAt := now\<rparr>))"

definition migrated_Lookup :: "gotime \<Rightarrow> u64 \<Rightarrow> migratedLRU \<Rightarrow> migratedStream option \<times> migratedLRU" where
  "migrated_Lookup now i l = (case l i of None \<Rightarrow> (None, l)
     | Some e \<Rightarrow> if now - mg_migratedAt e \<ge> MigrationTTL then (None, l(i := None)) else (Some e, l))"

definition migrated_Discard :: "u64 \<Rightarrow> migratedLRU \<Rightarrow> migratedLRU" where
  "migrated_Discard i l = l(i := None)"

definition migrated_Len :: "gotime \<Rightarrow> migratedLRU \<Rightarrow> nat \<times> migratedLRU" where
  "migrated_Len now l = (card (dom (gcLocked now l)), gcLocked now l)"

section \<open>Behaviour\<close>

lemma MigrationTTL_pos: "0 < MigrationTTL"
  by (simp add: MigrationTTL_def Second_pos)

text \<open>Rows are stored under their own id, and no row is older than the time to live after a
  collection.\<close>

definition migrated_ok :: "migratedLRU \<Rightarrow> bool" where
  "migrated_ok l \<longleftrightarrow> (\<forall>i e. l i = Some e \<longrightarrow> mg_id e = i) \<and> finite (dom l)"

lemma gcLocked_Some: "gcLocked now l i = Some e \<longleftrightarrow> l i = Some e \<and> now < mg_migratedAt e + MigrationTTL"
  by (auto simp: gcLocked_def split: option.splits)

lemma migrated_ok_gc: "migrated_ok l \<Longrightarrow> migrated_ok (gcLocked now l)"
proof -
  assume "migrated_ok l"
  moreover have "dom (gcLocked now l) \<subseteq> dom l" by (auto simp: gcLocked_Some)
  ultimately show ?thesis by (auto simp: migrated_ok_def gcLocked_Some intro: finite_subset)
qed

lemma migrated_ok_ops [inv_intros]:
  assumes "migrated_ok l"
  shows "migrated_ok (migrated_Note now now' s l)" "migrated_ok (snd (migrated_Lookup now i l))"
    "migrated_ok (migrated_Discard i l)" "migrated_ok (snd (migrated_Len now l))"
proof -
  have "migrated_ok (l(mg_id s \<mapsto> s\<lparr>mg_migratedAt := now\<rparr>))" using assms by (simp add: migrated_ok_def)
  then show "migrated_ok (migrated_Note now now' s l)" unfolding migrated_Note_def by (rule migrated_ok_gc)
  show "migrated_ok (snd (migrated_Lookup now i l))"
    using assms by (auto simp: migrated_Lookup_def migrated_ok_def split: option.splits)
  show "migrated_ok (migrated_Discard i l)" using assms by (simp add: migrated_Discard_def migrated_ok_def)
  show "migrated_ok (snd (migrated_Len now l))" by (simp add: migrated_Len_def migrated_ok_gc assms)
qed

text \<open>The value a key carries: the two URIs of the stream.\<close>

definition migrated_entry :: "u64 \<Rightarrow> uri \<times> uri \<Rightarrow> migratedStream" where
  "migrated_entry i uv = \<lparr>mg_id = i, mg_consumerURI = fst uv, mg_providerURI = snd uv, mg_migratedAt = 0\<rparr>"

interpretation migrated_ttl: ttl_store MigrationTTL newMigratedLRU
  "\<lambda>t i l. map_option (\<lambda>e. (mg_consumerURI e, mg_providerURI e)) (fst (migrated_Lookup t i l))"
  "\<lambda>t i uv l. migrated_Note t t (migrated_entry i uv) l"
  using MigrationTTL_pos
  by unfold_locales
    (auto simp: migrated_Lookup_def newMigratedLRU_def migrated_Note_def gcLocked_def migrated_entry_def
      split: option.splits if_splits)

lemma migrated_Lookup_Discard: "fst (migrated_Lookup now i (migrated_Discard i l)) = None"
  by (simp add: migrated_Lookup_def migrated_Discard_def)

section \<open>Properties\<close>

text \<open>What \<open>Lookup\<close> returns for a stream after any history of \<open>Note\<close> calls is the pair noted for
  that very stream, and that note is less than \<open>MigrationTTL\<close> old.\<close>

lemma migrated_lookup_fresh:
  assumes "fst (migrated_Lookup now i
      (foldl (\<lambda>l (t, i, uv). migrated_Note t t (migrated_entry i uv) l) newMigratedLRU h)) = Some e"
  shows "\<exists>t. (t, i, (mg_consumerURI e, mg_providerURI e)) \<in> set h \<and> now < t + MigrationTTL"
  using migrated_ttl.lookup_fresh [of now i h "(mg_consumerURI e, mg_providerURI e)"] assms
  by (simp add: migrated_ttl.stores_def)

lemma migrated_lookup_fresh_witness:
  "\<exists>t. (t, 7, (''a'', ''b'')) \<in> set [(0, 7, (''a'', ''b''))] \<and> 5 < t + MigrationTTL"
proof -
  have "fst (migrated_Lookup 5 7 (foldl (\<lambda>l (t, i, uv). migrated_Note t t (migrated_entry i uv) l)
      newMigratedLRU [(0, 7, (''a'', ''b''))])) = Some ((migrated_entry 7 (''a'', ''b''))\<lparr>mg_migratedAt := 0\<rparr>)"
    by (simp add: migrated_Lookup_def migrated_Note_def gcLocked_def migrated_entry_def MigrationTTL_def Second_def Millisecond_def)
  from migrated_lookup_fresh [OF this] show ?thesis by (simp add: migrated_entry_def)
qed

end
