(* ===== verification/Wire.thy ===== *)
theory Wire
  imports Prelude
begin

text \<open>
  The vocabulary of the ORP protocol as the relay uses it (\<open>lib/orp\<close>, \<open>lib/orp/v1\<close>): the frame types,
  and the messages with the fields the relay reads or writes. Encoding and decoding are outside the
  repository: a received frame is its type together with what \<open>UnmarshalProto\<close> makes of the payload,
  \<open>None\<close> when it fails.
\<close>

datatype FrameType =
    FrameTypeHello | FrameTypeHelloAck | FrameTypeRegister | FrameTypeRegisterAck
  | FrameTypePing | FrameTypePong
  | FrameTypeOpenStream | FrameTypeIncomingStream | FrameTypeStreamAccept | FrameTypeStreamReject
  | FrameTypeStreamReady | FrameTypeStreamResume | FrameTypeStreamCheckpoint
  | FrameTypeCandidateOffer | FrameTypeCandidateAnswer
  | FrameTypeObservedAddrQuery | FrameTypeObservedAddrResp
  | FrameTypeMigrateToP2P | FrameTypeMigrateToRelay
  | FrameTypeAllocGranted | FrameTypeForwardStream | FrameTypeForwardResume
  | FrameTypeForwardRegister | FrameTypeForwardRegisterReject
  | FrameTypeGoaway | FrameTypeOther nat

record OpenStream =
  os_StreamId :: u64
  os_TargetService :: string
  os_Method :: string

record IncomingStream =
  is_TargetService :: string
  is_Method :: string
  is_SourceAgentUri :: uri
  is_StreamId :: u64
  is_ResumeRelays :: "endpoint list"

record AllocGranted =
  ag_StreamId :: u64
  ag_MyAllocation :: u32
  ag_PeerAllocation :: u32
  ag_ForwardEndpoint :: string
  ag_ResumeRelays :: "endpoint list"

datatype message =
    M_Hello uri
  | M_HelloAck "endpoint list"
  | M_Register string string
  | M_RegisterAck string
  | M_OpenStream OpenStream
  | M_IncomingStream IncomingStream
  | M_StreamAccept
  | M_StreamReject u32 string u64
  | M_StreamReady u64 "endpoint list"
  | M_StreamResume u64 u64 u64
  | M_StreamCheckpoint u64
  | M_CandidateOffer u64
  | M_CandidateAnswer u64
  | M_ObservedAddrQuery u64
  | M_ObservedAddrResp u64 string u32
  | M_MigrateToP2P u64
  | M_MigrateToRelay u64 u64 u64
  | M_AllocGranted AllocGranted
  | M_ForwardResume u64 u64 u64
  | M_ForwardRegister u32 "byte list"
  | M_ForwardRegisterReject u32 string
  | M_Goaway "endpoint list" string u32

datatype frame = Frame (f_Type: FrameType) (f_Msg: "message option")

end
