(* ===== verification/Pool.thy ===== *)
theory Pool
  imports Wire
begin

text \<open>
  The pool of connections to peer relays (\<open>pkg/intra/pool.go\<close>). A connection is a reference; the
  transport is outside the repository, so a dial is an event with its outcome and closing is
  recorded in \<open>pool_closed\<close>. \<open>Get\<close> is two critical sections with a dial between them.
\<close>

section \<open>The code\<close>

type_synonym conn_ref = nat

record Pool =
  pool_conns :: "string \<rightharpoonup> conn_ref"
  pool_closed :: "conn_ref set"

definition NewPool :: Pool where
  "NewPool = \<lparr>pool_conns = Map.empty, pool_closed = {}\<rparr>"

text \<open>The first critical section of \<open>Get\<close>: a hit returns the cached connection.\<close>

definition Get_lookup :: "string \<Rightarrow> Pool \<Rightarrow> conn_ref option" where
  "Get_lookup relayID p = pool_conns p relayID"

text \<open>The second one, after a successful dial of \<open>c\<close>.\<close>

definition Get_insert :: "string \<Rightarrow> conn_ref \<Rightarrow> Pool \<Rightarrow> conn_ref \<times> Pool" where
  "Get_insert relayID c p = (case pool_conns p relayID of
     Some existing \<Rightarrow> (existing, p\<lparr>pool_closed := insert c (pool_closed p)\<rparr>)
   | None \<Rightarrow> (c, p\<lparr>pool_conns := (pool_conns p)(relayID \<mapsto> c)\<rparr>))"

text \<open>\<open>Get\<close> without interference: \<open>dial\<close> is the outcome of \<open>DialQUIC\<close>.\<close>

definition Get :: "string \<Rightarrow> endpoint \<Rightarrow> (endpoint \<Rightarrow> string + conn_ref) \<Rightarrow> Pool \<Rightarrow> (string + conn_ref) \<times> Pool" where
  "Get relayID ep dial p = (case Get_lookup relayID p of
     Some c \<Rightarrow> (Inr c, p)
   | None \<Rightarrow> (case dial ep of
       Inl err \<Rightarrow> (Inl err, p)
     | Inr c \<Rightarrow> (case Get_insert relayID c p of (c', p') \<Rightarrow> (Inr c', p'))))"

definition Drop :: "string \<Rightarrow> Pool \<Rightarrow> Pool" where
  "Drop relayID p = (case pool_conns p relayID of
     None \<Rightarrow> p
   | Some c \<Rightarrow> p\<lparr>pool_conns := (pool_conns p)(relayID := None), pool_closed := insert c (pool_closed p)\<rparr>)"

definition Pool_Close :: "Pool \<Rightarrow> Pool" where
  "Pool_Close p = \<lparr>pool_conns = Map.empty, pool_closed = pool_closed p \<union> ran (pool_conns p)\<rparr>"

text \<open>
  \<open>ForwardStream\<close> over the outcomes of its three I/O calls. The result is an error or the open
  stream, together with the frame written, if any, and whether the stream was closed.
\<close>

datatype forward_error =
    OpenPeerStream string
  | WriteForwardStream string
  | ReadPeerReply string
  | PeerRejected u32 string
  | UnexpectedFrame FrameType

record forward_io =
  fio_open :: "string + nat"
  fio_write :: "string option"
  fio_reply :: "string + frame"

record forward_result =
  fr_result :: "forward_error + nat"
  fr_wrote :: "message option"
  fr_closed :: bool

definition reject_fields :: "message option \<Rightarrow> u32 \<times> string" where
  "reject_fields m = (case m of Some (M_StreamReject code reason _) \<Rightarrow> (code, reason) | _ \<Rightarrow> (0, []))"

definition ForwardStream :: "forward_io \<Rightarrow> string \<Rightarrow> string \<Rightarrow> uri \<Rightarrow> forward_result" where
  "ForwardStream io target meth callerURI = (case fio_open io of
     Inl e \<Rightarrow> \<lparr>fr_result = Inl (OpenPeerStream e), fr_wrote = None, fr_closed = False\<rparr>
   | Inr s \<Rightarrow>
       let msg = M_IncomingStream \<lparr>is_TargetService = target, is_Method = meth, is_SourceAgentUri = callerURI,
                   is_StreamId = 0, is_ResumeRelays = []\<rparr> in
       (case fio_write io of
          Some e \<Rightarrow> \<lparr>fr_result = Inl (WriteForwardStream e), fr_wrote = Some msg, fr_closed = True\<rparr>
        | None \<Rightarrow> (case fio_reply io of
            Inl e \<Rightarrow> \<lparr>fr_result = Inl (ReadPeerReply e), fr_wrote = Some msg, fr_closed = True\<rparr>
          | Inr f \<Rightarrow>
              if f_Type f = FrameTypeStreamAccept then \<lparr>fr_result = Inr s, fr_wrote = Some msg, fr_closed = False\<rparr>
              else if f_Type f = FrameTypeStreamReject
              then \<lparr>fr_result = Inl (PeerRejected (fst (reject_fields (f_Msg f))) (snd (reject_fields (f_Msg f)))),
                     fr_wrote = Some msg, fr_closed = True\<rparr>
              else \<lparr>fr_result = Inl (UnexpectedFrame (f_Type f)), fr_wrote = Some msg, fr_closed = True\<rparr>)))"

section \<open>Concurrent callers\<close>

text \<open>
  A caller that missed is dialling; connections are numbered in the order the dials succeed.
  \<open>ps_got\<close> records what each finished call returned.
\<close>

record pool_sys =
  pl_pool :: Pool
  pl_dialing :: "nat \<rightharpoonup> string"
  pl_got :: "nat \<rightharpoonup> string \<times> conn_ref"
  pl_next :: conn_ref

definition pool_sys0 :: pool_sys where
  "pool_sys0 = \<lparr>pl_pool = NewPool, pl_dialing = Map.empty, pl_got = Map.empty, pl_next = 0\<rparr>"

inductive pool_step :: "pool_sys \<Rightarrow> pool_sys \<Rightarrow> bool" where
  po_hit: "Get_lookup relayID (pl_pool s) = Some c \<Longrightarrow>
    pool_step s (s\<lparr>pl_got := (pl_got s)(k \<mapsto> (relayID, c))\<rparr>)"
| po_miss: "Get_lookup relayID (pl_pool s) = None \<Longrightarrow> pl_dialing s k = None \<Longrightarrow>
    pool_step s (s\<lparr>pl_dialing := (pl_dialing s)(k \<mapsto> relayID)\<rparr>)"
| po_dial_failed: "pl_dialing s k = Some relayID \<Longrightarrow> pool_step s (s\<lparr>pl_dialing := (pl_dialing s)(k := None)\<rparr>)"
| po_dialed: "pl_dialing s k = Some relayID \<Longrightarrow> Get_insert relayID (pl_next s) (pl_pool s) = (c, p) \<Longrightarrow>
    pool_step s (s\<lparr>pl_pool := p, pl_dialing := (pl_dialing s)(k := None), pl_got := (pl_got s)(k \<mapsto> (relayID, c)),
      pl_next := Suc (pl_next s)\<rparr>)"
| po_drop: "pool_step s (s\<lparr>pl_pool := Drop relayID (pl_pool s)\<rparr>)"
| po_close: "pool_step s (s\<lparr>pl_pool := Pool_Close (pl_pool s)\<rparr>)"

abbreviation pool_reach :: "pool_sys \<Rightarrow> bool" where
  "pool_reach \<equiv> reach (\<lambda>s. s = pool_sys0) pool_step"

text \<open>The open connections are those in the pool, and each is there once.\<close>

definition pool_ok :: "conn_ref \<Rightarrow> Pool \<Rightarrow> bool" where
  "pool_ok n p \<longleftrightarrow> ran (pool_conns p) = {c. c < n \<and> c \<notin> pool_closed p} \<and> pool_closed p \<subseteq> {..<n} \<and>
     inj_on (pool_conns p) (dom (pool_conns p))"

lemma pool_ok_insert:
  assumes "pool_ok n p" and "Get_insert relayID n p = (c, p')"
  shows "pool_ok (Suc n) p' \<and> pool_conns p' relayID = Some c"
proof (cases "pool_conns p relayID")
  case None
  then have p': "c = n" "p' = p\<lparr>pool_conns := (pool_conns p)(relayID \<mapsto> n)\<rparr>"
    using assms(2) by (auto simp: Get_insert_def)
  have "n \<notin> ran (pool_conns p)" using assms(1) by (auto simp: pool_ok_def)
  then have "inj_on ((pool_conns p)(relayID \<mapsto> n)) (insert relayID (dom (pool_conns p)))"
    using assms(1) by (auto simp: pool_ok_def inj_on_def ran_def dom_def)
  then show ?thesis
    using assms(1) None by (auto simp: p' pool_ok_def less_Suc_eq)
next
  case (Some d)
  then show ?thesis using assms by (auto simp: Get_insert_def pool_ok_def less_Suc_eq)
qed

lemma ran_delete_inj:
  assumes "inj_on m (dom m)" and "m k = Some c"
  shows "ran (m(k := None)) = ran m - {c}"
proof (intro set_eqI iffI)
  fix x
  assume "x \<in> ran (m(k := None))"
  then obtain a where a: "a \<noteq> k" "m a = Some x" by (auto simp: ran_def split: if_splits)
  then have "x \<noteq> c" using inj_onD [OF assms(1), of a k] assms(2) by auto
  then show "x \<in> ran m - {c}" using a by (auto simp: ran_def)
next
  fix x
  assume "x \<in> ran m - {c}"
  then obtain a where "m a = Some x" "x \<noteq> c" by (auto simp: ran_def)
  then have "(m(k := None)) a = Some x" using assms(2) by auto
  then show "x \<in> ran (m(k := None))" by (rule ranI)
qed

lemma inj_on_delete: "inj_on m (dom m) \<Longrightarrow> inj_on (m(k := None)) (dom (m(k := None)))"
  by (auto simp: inj_on_def dom_def)

lemma pool_ok_Drop: "pool_ok n p \<Longrightarrow> pool_ok n (Drop relayID p)"
proof (cases "pool_conns p relayID")
  case (Some c)
  assume ok: "pool_ok n p"
  then have inj: "inj_on (pool_conns p) (dom (pool_conns p))" by (simp add: pool_ok_def)
  have "c \<in> ran (pool_conns p)" using Some by (rule ranI)
  then show ?thesis
    using ok Some ran_delete_inj [OF inj Some] inj_on_delete [OF inj, of relayID]
    by (auto simp: pool_ok_def Drop_def)
qed (simp add: Drop_def)

lemma pool_ok_Close: "pool_ok n p \<Longrightarrow> pool_ok n (Pool_Close p)"
  by (auto simp: pool_ok_def Pool_Close_def)

lemma pool_step_ok: "pool_step s t \<Longrightarrow> pool_ok (pl_next s) (pl_pool s) \<Longrightarrow> pool_ok (pl_next t) (pl_pool t)"
  by (induction rule: pool_step.induct) (auto simp: pool_ok_Drop pool_ok_Close dest: pool_ok_insert)

interpretation pool_system: inductive_invariant "\<lambda>s. s = pool_sys0" pool_step "\<lambda>s. pool_ok (pl_next s) (pl_pool s)"
proof
  fix s
  assume "s = pool_sys0"
  then show "pool_ok (pl_next s) (pl_pool s)" by (simp add: pool_sys0_def NewPool_def pool_ok_def)
qed (rule pool_step_ok)

section \<open>Properties\<close>


definition raced :: pool_sys where
  "raced = \<lparr>pl_pool = \<lparr>pool_conns = [''r'' \<mapsto> 0], pool_closed = {1}\<rparr>, pl_dialing = Map.empty,
     pl_got = [0 \<mapsto> (''r'', 0), 1 \<mapsto> (''r'', 0)], pl_next = 2\<rparr>"

lemma raced_reach: "pool_reach raced"
proof -
  let ?p = "\<lparr>pool_conns = [''r'' \<mapsto> 0], pool_closed = {}\<rparr>"
  let ?s1 = "pool_sys0\<lparr>pl_dialing := [0 \<mapsto> ''r'']\<rparr>"
  let ?s2 = "pool_sys0\<lparr>pl_dialing := [0 \<mapsto> ''r'', 1 \<mapsto> ''r'']\<rparr>"
  let ?s3 = "\<lparr>pl_pool = ?p, pl_dialing = [1 \<mapsto> ''r''], pl_got = [0 \<mapsto> (''r'', 0)], pl_next = 1\<rparr>"
  have r0: "pool_reach pool_sys0" by (rule reach_init) simp
  have "pool_step pool_sys0 ?s1"
    using po_miss [of "''r''" pool_sys0 0] by (simp add: pool_sys0_def NewPool_def Get_lookup_def)
  with r0 have r1: "pool_reach ?s1" by (rule reach_step)
  have "pool_step ?s1 ?s2"
    using po_miss [of "''r''" ?s1 1] by (simp add: pool_sys0_def NewPool_def Get_lookup_def)
  with r1 have r2: "pool_reach ?s2" by (rule reach_step)
  have d: "(pl_dialing ?s2)(0 := None) = [1 \<mapsto> ''r'']" by (auto simp: fun_eq_iff)
  have "pool_step ?s2 ?s3"
    using po_dialed [of ?s2 0 "''r''" 0 ?p, unfolded d] by (simp add: pool_sys0_def NewPool_def Get_insert_def)
  with r2 have r3: "pool_reach ?s3" by (rule reach_step)
  have "pool_step ?s3 raced"
    using po_dialed [of ?s3 1 "''r''" 0 "?p\<lparr>pool_closed := {1}\<rparr>"] by (simp add: raced_def Get_insert_def numeral_2_eq_2)
  with r3 show ?thesis by (rule reach_step)
qed


lemma frame_type_iff: "f_Type f = t \<longleftrightarrow> (\<exists>m. f = Frame t m)"
  by (cases f) simp

text \<open>\<open>ForwardStream\<close> returns the opened stream exactly when the peer answers STREAM_ACCEPT, and on
  every other path after a successful open the stream is closed.\<close>

lemma ForwardStream_outcome:
  "(fr_result (ForwardStream io target meth u) = Inr s \<longleftrightarrow>
      fio_open io = Inr s \<and> fio_write io = None \<and> (\<exists>m. fio_reply io = Inr (Frame FrameTypeStreamAccept m))) \<and>
   (fr_closed (ForwardStream io target meth u) \<longleftrightarrow>
      (\<exists>st. fio_open io = Inr st) \<and> (\<exists>e. fr_result (ForwardStream io target meth u) = Inl e))"
  by (cases "fio_open io"; cases "fio_write io"; cases "fio_reply io")
    (auto simp: ForwardStream_def Let_def frame_type_iff)

end
