(* ===== verification/AuditEmitter.thy ===== *)
theory AuditEmitter
  imports Prelude "HOL-Library.Sublist"
begin

text \<open>
  The audit emitter (\<open>pkg/audit/emitter.go\<close>): a bounded queue between the data plane and the sender
  goroutine. \<open>Emit\<close> never blocks; an event that finds the queue full is dropped. The result of the
  controller call only reaches the log.
\<close>

section \<open>The code\<close>

definition QueueDepth :: nat where
  "QueueDepth = 1024"

text \<open>\<open>ev_Allow\<close> is the decision: the code sends DECISION_ALLOW or DECISION_DENY.\<close>

record AuditEvent =
  ev_TsUnixMs :: int
  ev_Tenant :: string
  ev_Caller :: string
  ev_Target :: string
  ev_Method :: string
  ev_Allow :: bool
  ev_Reason :: string

record 'e Emitter =
  em_queue :: "'e list"

definition NewEmitter :: "'e Emitter" where
  "NewEmitter = \<lparr>em_queue = []\<rparr>"

text \<open>The new state and whether the event was queued.\<close>

definition Emit :: "'e \<Rightarrow> 'e Emitter \<Rightarrow> 'e Emitter \<times> bool" where
  "Emit ev e = (if length (em_queue e) < QueueDepth then (e\<lparr>em_queue := em_queue e @ [ev]\<rparr>, True) else (e, False))"

text \<open>One round of \<open>Run\<close>: the event handed to \<open>client.Record\<close>, \<open>None\<close> while the queue is empty.\<close>

definition emitter_Run_step :: "'e Emitter \<Rightarrow> ('e \<times> 'e Emitter) option" where
  "emitter_Run_step e = (case em_queue e of [] \<Rightarrow> None | ev # q \<Rightarrow> Some (ev, e\<lparr>em_queue := q\<rparr>))"

text \<open>\<open>Run\<close> as a whole, over what happens while it selects: the context is cancelled, the queue is ready, or the data
  plane emits an event. The result is the emitter, the events handed to \<open>client.Record\<close> and whether it returned.\<close>

datatype 'e emitter_event = EmDone | EmReady | EmEmit 'e

fun emitter_Run :: "'e emitter_event list \<Rightarrow> 'e Emitter \<Rightarrow> 'e Emitter \<times> 'e list \<times> bool" where
  "emitter_Run [] e = (e, [], False)"
| "emitter_Run (EmDone # evs) e = (e, [], True)"
| "emitter_Run (EmReady # evs) e = (case emitter_Run_step e of
     None \<Rightarrow> emitter_Run evs e
   | Some (ev, e') \<Rightarrow> (case emitter_Run evs e' of (e'', sent, fin) \<Rightarrow> (e'', ev # sent, fin)))"
| "emitter_Run (EmEmit ev # evs) e = emitter_Run evs (fst (Emit ev e))"

text \<open>It sends what was queued before, and then what was emitted meanwhile and not dropped, in order and without gaps.\<close>

lemma emitter_Run_fifo:
  assumes "emitter_Run evs e = (e', sent, fin)"
  shows "\<exists>accepted. subseq accepted [ev. EmEmit ev \<leftarrow> evs] \<and> sent @ em_queue e' = em_queue e @ accepted"
  using assms
proof (induction evs e arbitrary: e' sent fin rule: emitter_Run.induct)
  case (3 evs e)
  show ?case
  proof (cases "em_queue e")
    case Nil
    with "3.prems" "3.IH"(1) show ?thesis by (simp add: emitter_Run_step_def)
  next
    case (Cons ev q)
    obtain sent' where r: "emitter_Run evs (e\<lparr>em_queue := q\<rparr>) = (e', sent', fin)" "sent = ev # sent'"
      using "3.prems" Cons by (auto simp: emitter_Run_step_def split: prod.splits)
    with "3.IH"(2) [of "(ev, e\<lparr>em_queue := q\<rparr>)" ev "e\<lparr>em_queue := q\<rparr>"] Cons show ?thesis
      by (simp add: emitter_Run_step_def)
  qed
next
  case (4 ev evs e)
  then obtain accepted where a: "subseq accepted [ev. EmEmit ev \<leftarrow> evs]"
    "sent @ em_queue e' = em_queue (fst (Emit ev e)) @ accepted" by auto
  show ?case
  proof (cases "length (em_queue e) < QueueDepth")
    case True
    with a show ?thesis by (intro exI [of _ "ev # accepted"]) (simp add: Emit_def)
  next
    case False
    with a show ?thesis by (intro exI [of _ accepted]) (auto simp: Emit_def intro: list_emb_Cons)
  qed
qed auto

section \<open>Interleavings of the data plane and the sender\<close>

text \<open>The ghost lists are the events emitted, recorded at the controller and dropped, in order.\<close>

record 'e audit_sys =
  au_emitter :: "'e Emitter"
  au_emitted :: "'e list"
  au_recorded :: "'e list"
  au_dropped :: "'e list"

definition audit_sys0 :: "'e audit_sys" where
  "audit_sys0 = \<lparr>au_emitter = NewEmitter, au_emitted = [], au_recorded = [], au_dropped = []\<rparr>"

inductive audit_step :: "'e audit_sys \<Rightarrow> 'e audit_sys \<Rightarrow> bool" where
  au_emit: "Emit ev (au_emitter s) = (e, True) \<Longrightarrow>
    audit_step s (s\<lparr>au_emitter := e, au_emitted := au_emitted s @ [ev]\<rparr>)"
| au_drop: "Emit ev (au_emitter s) = (e, False) \<Longrightarrow>
    audit_step s (s\<lparr>au_emitter := e, au_emitted := au_emitted s @ [ev], au_dropped := au_dropped s @ [ev]\<rparr>)"
| au_run: "emitter_Run_step (au_emitter s) = Some (ev, e) \<Longrightarrow>
    audit_step s (s\<lparr>au_emitter := e, au_recorded := au_recorded s @ [ev]\<rparr>)"

abbreviation audit_reach :: "'e audit_sys \<Rightarrow> bool" where
  "audit_reach \<equiv> reach (\<lambda>s. s = audit_sys0) audit_step"

definition audit_inv :: "'e audit_sys \<Rightarrow> bool" where
  "audit_inv s \<longleftrightarrow> length (em_queue (au_emitter s)) \<le> QueueDepth \<and>
     au_emitted s \<in> shuffles (au_recorded s @ em_queue (au_emitter s)) (au_dropped s)"

lemma shuffles_snoc_left: "zs \<in> shuffles xs ys \<Longrightarrow> zs @ [z] \<in> shuffles (xs @ [z]) ys"
  by (induction zs arbitrary: xs ys) (auto simp: Cons_in_shuffles_iff)

lemma audit_step_inv: "audit_step s t \<Longrightarrow> audit_inv s \<Longrightarrow> audit_inv t"
proof (induction rule: audit_step.induct)
  case (au_emit ev s e)
  then show ?case
    using shuffles_snoc_left [of "au_emitted s" "au_recorded s @ em_queue (au_emitter s)" "au_dropped s" ev]
    by (auto simp: audit_inv_def Emit_def split: if_splits)
next
  case (au_drop ev s e)
  then have "au_emitted s @ [ev] \<in> shuffles (au_dropped s @ [ev]) (au_recorded s @ em_queue (au_emitter s))"
    by (auto simp: audit_inv_def shuffles_commutes intro: shuffles_snoc_left)
  with au_drop show ?case
    by (auto simp: audit_inv_def Emit_def shuffles_commutes split: if_splits)
next
  case (au_run s ev e)
  then show ?case by (auto simp: audit_inv_def emitter_Run_step_def split: list.splits)
qed

interpretation audit_system: inductive_invariant "\<lambda>s. s = audit_sys0" audit_step audit_inv
proof
  fix s :: "'a audit_sys"
  assume "s = audit_sys0"
  then show "audit_inv s" by (simp add: audit_sys0_def NewEmitter_def audit_inv_def)
qed (rule audit_step_inv)

lemma subseq_shuffles: "zs \<in> shuffles xs ys \<Longrightarrow> subseq xs zs"
proof (induction zs arbitrary: xs ys)
  case (Cons z zs)
  then show ?case by (auto simp: Cons_in_shuffles_iff neq_Nil_conv)
qed simp

section \<open>Properties\<close>



end
