(* ===== verification/HalfMatcher.thy ===== *)
theory HalfMatcher
  imports Prelude
begin

text \<open>
  What the two matchers of the edge server share (\<open>pkg/edge/resume.go\<close>,
  \<open>pkg/edge/forward_resume.go\<close>): a table of parked halves by stream id. A submission either takes
  the parked half of its id away, completing a pair, or parks; the window timer of a half removes
  it only if it is still the one parked. The states of the goroutines around a half (the handler
  that waits on the \<open>matched\<close> channel and the expiry goroutine) are shared datatypes.
\<close>

type_synonym ref = nat

datatype handler_state = H_none | H_recv | H_matched ref | H_nil | H_exit

datatype expiry_state = E_none | E_wait | E_done

locale half_matcher =
  fixes parked :: "'st \<Rightarrow> u64 \<rightharpoonup> ref"
    and half_id :: "'st \<Rightarrow> ref \<Rightarrow> u64"
    and submit :: "ref \<Rightarrow> u64 \<Rightarrow> 'st \<Rightarrow> 'st"
    and expire :: "ref \<Rightarrow> 'st \<Rightarrow> 'st"
  assumes parked_submit: "parked (submit r i s) =
      (case parked s i of None \<Rightarrow> (parked s)(i \<mapsto> r) | Some _ \<Rightarrow> (parked s)(i := None))"
    and parked_expire: "parked (expire r s) =
      (if parked s (half_id s r) = Some r then (parked s)(half_id s r := None) else parked s)"
begin

definition submits :: "(ref \<times> u64) list \<Rightarrow> 'st \<Rightarrow> 'st" where
  "submits xs s = fold (\<lambda>(r, i). submit r i) xs s"

text \<open>Submissions under other ids do not disturb a parked half.\<close>

lemma parked_submit_other: "j \<noteq> i \<Longrightarrow> parked (submit r i s) j = parked s j"
  by (auto simp: parked_submit split: option.split)

text \<open>
  Without expiry the submissions of an id pair up in order of arrival: one is parked exactly when
  their number is odd.
\<close>

lemma parked_parity:
  "(parked (submits xs s) i = None) = (even (length [x \<leftarrow> xs. snd x = i]) = (parked s i = None))"
proof (induction xs arbitrary: s)
  case (Cons x xs)
  obtain r j where x: "x = (r, j)" by (cases x)
  show ?case
    using Cons.IH [of "submit r j s"] x
    by (cases "j = i") (auto simp: submits_def parked_submit parked_submit_other split: option.splits)
qed (simp add: submits_def)

text \<open>A late timer does not remove the half of a newer submission.\<close>

lemma expire_other: "parked s i \<noteq> Some r \<Longrightarrow> parked (expire r s) i = parked s i"
  by (auto simp: parked_expire)

end

end
