(* ===== verification/ResumeMatcher.thy ===== *)
theory ResumeMatcher
  imports HalfMatcher
begin

text \<open>
  The STREAM_RESUME matcher of \<open>pkg/edge/resume.go\<close> with the goroutines around it. A half is a
  heap object; \<open>matched\<close> is its channel of capacity one, read both by the handler
  (\<open>handleResumeHalf\<close>, \<open>handleMigrateToRelay\<close>) and by the expiry goroutine that \<open>Submit\<close> spawns.
  The step relation interleaves the goroutines of all halves.
\<close>

section \<open>The code\<close>

definition ResumeWindow :: duration where
  "ResumeWindow = 30 * Second"

record halfStream =
  hs_id :: u64
  hs_uri :: uri
  hs_myPos :: int
  hs_peerAckPos :: int
  hs_arrivedAt :: gotime
  hs_matched :: "ref list"
  hs_closed :: bool
  hs_splicer :: bool
  hs_done :: "bool option"

record resumeMatcher =
  rm_pending :: "u64 \<rightharpoonup> ref"
  rm_half :: "ref \<Rightarrow> halfStream"

text \<open>
  A half as its handler creates it from the frame's unsigned positions (\<open>int64(m.MyPosition)\<close>
  reinterprets the 64 bits): no splicer role, no channels yet. \<open>hs_done\<close> is \<open>None\<close> for the
  nil channel, \<open>Some False\<close> for an open and \<open>Some True\<close> for a closed one.
\<close>

definition new_half :: "u64 \<Rightarrow> uri \<Rightarrow> u64 \<Rightarrow> u64 \<Rightarrow> halfStream" where
  "new_half i u my ack = \<lparr>hs_id = i, hs_uri = u, hs_myPos = sint my, hs_peerAckPos = sint ack, hs_arrivedAt = 0,
     hs_matched = [], hs_closed = False, hs_splicer = False, hs_done = None\<rparr>"

definition newResumeMatcher :: resumeMatcher where
  "newResumeMatcher = \<lparr>rm_pending = Map.empty, rm_half = (\<lambda>_. new_half 0 [] 0 0)\<rparr>"

text \<open>
  \<open>Submit\<close> of the half at \<open>r\<close> up to its return. The sends happen after the mutex is released, but
  once the parked half is out of \<open>pending\<close> no other goroutine can act on either half except by
  receiving what is sent here, and the buffers are empty, so the call is one step.
\<close>

definition resume_Submit :: "gotime \<Rightarrow> ref \<Rightarrow> halfStream \<Rightarrow> resumeMatcher \<Rightarrow> resumeMatcher" where
  "resume_Submit now r h m =
     (let self = h\<lparr>hs_matched := [], hs_arrivedAt := now\<rparr> in
      case rm_pending m (hs_id h) of
        Some p \<Rightarrow> m\<lparr>rm_pending := (rm_pending m)(hs_id h := None),
          rm_half := (rm_half m)(p := (rm_half m p)\<lparr>hs_splicer := False, hs_matched := hs_matched (rm_half m p) @ [r]\<rparr>,
                                 r := self\<lparr>hs_splicer := True, hs_matched := [p]\<rparr>)\<rparr>
      | None \<Rightarrow> m\<lparr>rm_pending := (rm_pending m)(hs_id h \<mapsto> r),
          rm_half := (rm_half m)(r := self\<lparr>hs_done := Some False\<rparr>)\<rparr>)"

text \<open>The timer branch of the expiry goroutine.\<close>

definition resume_expire :: "ref \<Rightarrow> resumeMatcher \<Rightarrow> resumeMatcher" where
  "resume_expire r m =
     (let h = rm_half m r in
      if rm_pending m (hs_id h) = Some r
      then m\<lparr>rm_pending := (rm_pending m)(hs_id h := None), rm_half := (rm_half m)(r := h\<lparr>hs_closed := True\<rparr>)\<rparr>
      else m)"

definition resume_PendingCount :: "resumeMatcher \<Rightarrow> nat" where
  "resume_PendingCount m = card (dom (rm_pending m))"

interpretation resume_table: half_matcher rm_pending "\<lambda>m r. hs_id (rm_half m r)"
  "\<lambda>r i m. resume_Submit now r (new_half i u my ack) m" resume_expire
  for now u my ack
  by unfold_locales (auto simp: resume_Submit_def resume_expire_def Let_def new_half_def split: option.split)

section \<open>The goroutines\<close>

record resume_sys =
  rs_m :: resumeMatcher
  rs_handler :: "ref \<Rightarrow> handler_state"
  rs_expiry :: "ref \<Rightarrow> expiry_state"
  rs_next :: ref
  rs_partner :: "ref \<rightharpoonup> ref"

definition resume_sys0 :: resume_sys where
  "resume_sys0 = \<lparr>rs_m = newResumeMatcher, rs_handler = (\<lambda>_. H_none), rs_expiry = (\<lambda>_. E_none),
     rs_next = 0, rs_partner = Map.empty\<rparr>"

abbreviation half :: "resume_sys \<Rightarrow> ref \<Rightarrow> halfStream" where
  "half s \<equiv> rm_half (rs_m s)"

abbreviation upd_half :: "ref \<Rightarrow> halfStream \<Rightarrow> resume_sys \<Rightarrow> resume_sys" where
  "upd_half r h s \<equiv> s\<lparr>rs_m := (rs_m s)\<lparr>rm_half := (rm_half (rs_m s))(r := h)\<rparr>\<rparr>"

text \<open>
  A submission with its two goroutines: the handler then waits on \<open>matched\<close>, and only a half that
  parks gets an expiry goroutine. \<open>rs_partner\<close> is a ghost that remembers who was paired with whom.
\<close>

definition do_submit :: "gotime \<Rightarrow> u64 \<Rightarrow> uri \<Rightarrow> u64 \<Rightarrow> u64 \<Rightarrow> resume_sys \<Rightarrow> resume_sys" where
  "do_submit now i u my ack s =
     (let r = rs_next s in
      \<lparr>rs_m = resume_Submit now r (new_half i u my ack) (rs_m s),
       rs_handler = (rs_handler s)(r := H_recv),
       rs_expiry = (rs_expiry s)(r := (if rm_pending (rs_m s) i = None then E_wait else E_none)),
       rs_next = Suc r,
       rs_partner = (case rm_pending (rs_m s) i of None \<Rightarrow> rs_partner s
                     | Some p \<Rightarrow> (rs_partner s)(p \<mapsto> r, r \<mapsto> p))\<rparr>)"

inductive resume_step :: "resume_sys \<Rightarrow> resume_sys \<Rightarrow> bool" where
  rs_submit: "resume_step s (do_submit now i u my ack s)"
| rs_handler_recv: "rs_handler s r = H_recv \<Longrightarrow> hs_matched (half s r) = p # ps \<Longrightarrow>
    resume_step s ((upd_half r ((half s r)\<lparr>hs_matched := ps\<rparr>) s)\<lparr>rs_handler := (rs_handler s)(r := H_matched p)\<rparr>)"
| rs_handler_closed: "rs_handler s r = H_recv \<Longrightarrow> hs_matched (half s r) = [] \<Longrightarrow> hs_closed (half s r) \<Longrightarrow>
    resume_step s (s\<lparr>rs_handler := (rs_handler s)(r := H_nil)\<rparr>)"
| rs_expiry_recv: "rs_expiry s r = E_wait \<Longrightarrow> hs_matched (half s r) = p # ps \<Longrightarrow>
    resume_step s ((upd_half r ((half s r)\<lparr>hs_matched := ps\<rparr>) s)\<lparr>rs_expiry := (rs_expiry s)(r := E_done)\<rparr>)"
| rs_expiry_timer: "rs_expiry s r = E_wait \<Longrightarrow>
    resume_step s (s\<lparr>rs_m := resume_expire r (rs_m s), rs_expiry := (rs_expiry s)(r := E_done)\<rparr>)"
| rs_splice_end: "rs_handler s r = H_matched p \<Longrightarrow> hs_splicer (half s r) \<Longrightarrow>
    resume_step s ((upd_half p ((half s p)\<lparr>hs_done := Some True\<rparr>) s)\<lparr>rs_handler := (rs_handler s)(r := H_exit)\<rparr>)"
| rs_wait_done: "rs_handler s r = H_matched p \<Longrightarrow> \<not> hs_splicer (half s r) \<Longrightarrow> hs_done (half s r) = Some True \<Longrightarrow>
    resume_step s (s\<lparr>rs_handler := (rs_handler s)(r := H_exit)\<rparr>)"

inductive_cases resume_stepE: "resume_step s t"

abbreviation resume_reach :: "resume_sys \<Rightarrow> bool" where
  "resume_reach \<equiv> reach (\<lambda>s. s = resume_sys0) resume_step"

section \<open>Invariant\<close>

definition parked_ok :: "resume_sys \<Rightarrow> bool" where
  "parked_ok s \<longleftrightarrow> (\<forall>i r. rm_pending (rs_m s) i = Some r \<longrightarrow> r < rs_next s \<and> hs_id (half s r) = i \<and>
     rs_partner s r = None \<and> hs_matched (half s r) = [] \<and> \<not> hs_closed (half s r))"

definition paired_ok :: "resume_sys \<Rightarrow> bool" where
  "paired_ok s \<longleftrightarrow> (\<forall>r p. rs_partner s r = Some p \<longrightarrow> r \<noteq> p \<and> r < rs_next s \<and> p < rs_next s \<and>
     rs_partner s p = Some r \<and> hs_id (half s p) = hs_id (half s r) \<and>
     hs_splicer (half s r) \<noteq> hs_splicer (half s p) \<and> \<not> hs_closed (half s r))"

definition chan_ok :: "resume_sys \<Rightarrow> bool" where
  "chan_ok s \<longleftrightarrow> (\<forall>r. hs_matched (half s r) = [] \<or> (\<exists>p. rs_partner s r = Some p \<and> hs_matched (half s r) = [p]))"

definition handler_ok :: "resume_sys \<Rightarrow> bool" where
  "handler_ok s \<longleftrightarrow> (\<forall>r p. rs_handler s r = H_matched p \<longrightarrow> rs_partner s r = Some p)"

definition resume_inv :: "resume_sys \<Rightarrow> bool" where
  "resume_inv s \<longleftrightarrow> parked_ok s \<and> paired_ok s \<and> chan_ok s \<and> handler_ok s"

lemma resume_invD:
  assumes "resume_inv s"
  shows "parked_ok s" "paired_ok s" "chan_ok s" "handler_ok s"
  using assms by (simp_all add: resume_inv_def)

lemmas submit_defs = do_submit_def resume_Submit_def new_half_def Let_def

lemma resume_inv_init: "resume_inv resume_sys0"
  by (simp add: resume_inv_def parked_ok_def paired_ok_def chan_ok_def handler_ok_def
      resume_sys0_def newResumeMatcher_def new_half_def)

lemma parkedD:
  assumes "parked_ok s" and "rm_pending (rs_m s) i = Some r"
  shows "r < rs_next s" "hs_id (half s r) = i" "rs_partner s r = None" "hs_matched (half s r) = []"
    "\<not> hs_closed (half s r)"
  using assms(1) [unfolded parked_ok_def, rule_format, OF assms(2)] by simp_all

lemma pairedD:
  assumes "paired_ok s" and "rs_partner s r = Some p"
  shows "r \<noteq> p" "r < rs_next s" "p < rs_next s" "rs_partner s p = Some r" "hs_id (half s p) = hs_id (half s r)"
    "hs_splicer (half s r) \<longleftrightarrow> \<not> hs_splicer (half s p)" "\<not> hs_closed (half s r)"
  using assms(1) [unfolded paired_ok_def, rule_format, OF assms(2)] by simp_all

lemma partner_fresh: "paired_ok s \<Longrightarrow> rs_partner s (rs_next s) = None"
  by (cases "rs_partner s (rs_next s)") (auto dest: pairedD(2))

text \<open>A submission that parks.\<close>

lemma submit_parks_inv:
  assumes "resume_inv s" and "rm_pending (rs_m s) i = None"
  shows "resume_inv (do_submit now i u my ack s)"
proof -
  note inv = resume_invD [OF assms(1)]
  note fresh = partner_fresh [OF inv(2)]
  have "parked_ok (do_submit now i u my ack s)"
    using inv(1) fresh assms(2) by (auto simp: parked_ok_def submit_defs less_Suc_eq)
  moreover have "paired_ok (do_submit now i u my ack s)"
    unfolding paired_ok_def
  proof (intro allI impI)
    fix r p
    assume "rs_partner (do_submit now i u my ack s) r = Some p"
    then have rp: "rs_partner s r = Some p" using assms(2) by (simp add: submit_defs)
    then show "r \<noteq> p \<and> r < rs_next (do_submit now i u my ack s) \<and> p < rs_next (do_submit now i u my ack s) \<and>
      rs_partner (do_submit now i u my ack s) p = Some r \<and>
      hs_id (half (do_submit now i u my ack s) p) = hs_id (half (do_submit now i u my ack s) r) \<and>
      hs_splicer (half (do_submit now i u my ack s) r) \<noteq> hs_splicer (half (do_submit now i u my ack s) p) \<and>
      \<not> hs_closed (half (do_submit now i u my ack s) r)"
      using pairedD [OF inv(2) rp] assms(2) by (simp add: submit_defs)
  qed
  moreover have "chan_ok (do_submit now i u my ack s)"
    using inv(3) assms(2) by (auto simp: chan_ok_def submit_defs)
  moreover have "handler_ok (do_submit now i u my ack s)"
    using inv(4) assms(2) by (auto simp: handler_ok_def submit_defs)
  ultimately show ?thesis by (simp add: resume_inv_def)
qed

text \<open>A submission that completes a pair.\<close>

lemma submit_pairs_inv:
  assumes "resume_inv s" and p: "rm_pending (rs_m s) i = Some p"
  shows "resume_inv (do_submit now i u my ack s)"
proof -
  note inv = resume_invD [OF assms(1)]
  note fresh = partner_fresh [OF inv(2)] and pk = parkedD [OF inv(1) p]
  have nb: "rs_partner s r \<noteq> Some p" "rs_partner s r \<noteq> Some (rs_next s)" for r
    using pairedD(4) [OF inv(2), of r p] pairedD(3) [OF inv(2), of r "rs_next s"] pk(3) by auto
  have "parked_ok (do_submit now i u my ack s)"
    unfolding parked_ok_def
  proof (intro allI impI)
    fix j r
    assume "rm_pending (rs_m (do_submit now i u my ack s)) j = Some r"
    then have "rm_pending (rs_m s) j = Some r" and "j \<noteq> i" using p by (auto simp: submit_defs split: if_splits)
    then show "r < rs_next (do_submit now i u my ack s) \<and> hs_id (half (do_submit now i u my ack s) r) = j \<and>
      rs_partner (do_submit now i u my ack s) r = None \<and> hs_matched (half (do_submit now i u my ack s) r) = [] \<and>
      \<not> hs_closed (half (do_submit now i u my ack s) r)"
      using parkedD [OF inv(1), of j r] p pk by (auto simp: submit_defs)
  qed
  moreover have "paired_ok (do_submit now i u my ack s)"
    unfolding paired_ok_def
  proof (intro allI impI)
    fix r q
    assume a: "rs_partner (do_submit now i u my ack s) r = Some q"
    have "rs_partner (do_submit now i u my ack s) = (rs_partner s)(p \<mapsto> rs_next s, rs_next s \<mapsto> p)"
      using p by (simp add: submit_defs)
    then have "r = rs_next s \<and> q = p \<or> r = p \<and> q = rs_next s \<or>
      rs_partner s r = Some q \<and> r \<noteq> p \<and> r \<noteq> rs_next s \<and> q \<noteq> p \<and> q \<noteq> rs_next s"
      using a nb [of r] by (simp split: if_splits)
    then consider "r = rs_next s" "q = p" | "r = p" "q = rs_next s"
      | "rs_partner s r = Some q" "r \<noteq> p" "r \<noteq> rs_next s" "q \<noteq> p" "q \<noteq> rs_next s"
      by blast
    then show "r \<noteq> q \<and> r < rs_next (do_submit now i u my ack s) \<and> q < rs_next (do_submit now i u my ack s) \<and>
      rs_partner (do_submit now i u my ack s) q = Some r \<and>
      hs_id (half (do_submit now i u my ack s) q) = hs_id (half (do_submit now i u my ack s) r) \<and>
      hs_splicer (half (do_submit now i u my ack s) r) \<noteq> hs_splicer (half (do_submit now i u my ack s) q) \<and>
      \<not> hs_closed (half (do_submit now i u my ack s) r)"
      using p pk pairedD [OF inv(2), of r q] by cases (auto simp: submit_defs)
  qed
  moreover have "chan_ok (do_submit now i u my ack s)"
    using inv(3) p pk by (auto simp: chan_ok_def submit_defs)
  moreover have "handler_ok (do_submit now i u my ack s)"
    using inv(4) p pk by (auto simp: handler_ok_def submit_defs)
  ultimately show ?thesis by (simp add: resume_inv_def)
qed

text \<open>
  The other steps leave the table or remove from it, keep ids, roles and partners, and only
  shorten buffers.
\<close>

lemma resume_inv_frame:
  assumes "resume_inv s" and "rs_next t = rs_next s" and "rs_partner t = rs_partner s"
    and "\<And>i r. rm_pending (rs_m t) i = Some r \<Longrightarrow> rm_pending (rs_m s) i = Some r \<and> hs_closed (half t r) = hs_closed (half s r)"
    and "\<And>r. hs_id (half t r) = hs_id (half s r) \<and> hs_splicer (half t r) = hs_splicer (half s r) \<and>
      (hs_matched (half t r) = hs_matched (half s r) \<or> hs_matched (half t r) = [])"
    and "\<And>r p. rs_partner s r = Some p \<Longrightarrow> hs_closed (half t r) = hs_closed (half s r)"
    and "\<And>r p. rs_handler t r = H_matched p \<Longrightarrow> rs_handler s r = H_matched p \<or> rs_partner s r = Some p"
  shows "resume_inv t"
proof -
  note inv = resume_invD [OF assms(1)]
  have "parked_ok t"
    unfolding parked_ok_def
  proof (intro allI impI)
    fix i r
    assume "rm_pending (rs_m t) i = Some r"
    then show "r < rs_next t \<and> hs_id (half t r) = i \<and> rs_partner t r = None \<and> hs_matched (half t r) = [] \<and>
      \<not> hs_closed (half t r)"
      using assms(4) [of i r] assms(5) [of r] parkedD [OF inv(1), of i r] by (simp add: assms(2,3))
  qed
  moreover have "paired_ok t"
    unfolding paired_ok_def
  proof (intro allI impI)
    fix r p
    assume "rs_partner t r = Some p"
    then show "r \<noteq> p \<and> r < rs_next t \<and> p < rs_next t \<and> rs_partner t p = Some r \<and>
      hs_id (half t p) = hs_id (half t r) \<and> hs_splicer (half t r) \<noteq> hs_splicer (half t p) \<and> \<not> hs_closed (half t r)"
      using assms(6) [of r p] assms(5) [of r] assms(5) [of p] pairedD [OF inv(2), of r p] by (simp add: assms(2,3))
  qed
  moreover have "chan_ok t"
    unfolding chan_ok_def
  proof
    fix r
    show "hs_matched (half t r) = [] \<or> (\<exists>p. rs_partner t r = Some p \<and> hs_matched (half t r) = [p])"
      using inv(3) assms(5) [of r] unfolding chan_ok_def by (auto simp: assms(3))
  qed
  moreover have "handler_ok t"
    using inv(4) assms(7) by (auto simp: handler_ok_def assms(3))
  ultimately show ?thesis by (simp add: resume_inv_def)
qed

lemma chanD:
  assumes "chan_ok s" and "hs_matched (half s r) = p # ps"
  shows "ps = []" "rs_partner s r = Some p"
  using assms(1) [unfolded chan_ok_def, rule_format, of r] assms(2) by auto

lemma resume_step_inv: "resume_step s t \<Longrightarrow> resume_inv s \<Longrightarrow> resume_inv t"
proof (induction rule: resume_step.induct)
  case (rs_submit s now i u my ack)
  then show ?case
    by (cases "rm_pending (rs_m s) i") (simp_all add: submit_parks_inv submit_pairs_inv)
next
  case (rs_handler_recv s r p ps)
  note c = chanD [OF resume_invD(3) [OF rs_handler_recv(3)] rs_handler_recv(2)]
  show ?case
    by (rule resume_inv_frame [OF rs_handler_recv(3)]) (use c in \<open>auto split: if_splits\<close>)
next
  case (rs_expiry_recv s r p ps)
  note c = chanD [OF resume_invD(3) [OF rs_expiry_recv(3)] rs_expiry_recv(2)]
  show ?case by (rule resume_inv_frame [OF rs_expiry_recv(3)]) (use c in \<open>auto split: if_splits\<close>)
next
  case (rs_expiry_timer s r)
  note inv = resume_invD [OF rs_expiry_timer(2)]
  show ?case
  proof (cases "rm_pending (rs_m s) (hs_id (half s r)) = Some r")
    case True
    note pk = parkedD(2,3) [OF inv(1)]
    have other: "r' \<noteq> r" if "rm_pending (rs_m s) i = Some r'" "i \<noteq> hs_id (half s r)" for i r'
      using pk(1) [OF that(1)] that(2) by auto
    show ?thesis
      by (rule resume_inv_frame [OF rs_expiry_timer(2)])
        (use True pk(2) [OF True] other in \<open>auto simp: resume_expire_def Let_def split: if_splits\<close>)
  next
    case False
    show ?thesis
      by (rule resume_inv_frame [OF rs_expiry_timer(2)]) (simp_all add: False resume_expire_def Let_def)
  qed
qed (rule resume_inv_frame, assumption, auto split: if_splits)+

interpretation resume_system: inductive_invariant "\<lambda>s. s = resume_sys0" resume_step resume_inv
  by unfold_locales (auto simp: resume_inv_init intro: resume_step_inv)

section \<open>Wake-ups\<close>

text \<open>
  A waiting handler is parked under a running timer, or has something to receive, or its partner was
  received by its own expiry goroutine.
\<close>

definition wait_ok :: "resume_sys \<Rightarrow> bool" where
  "wait_ok s \<longleftrightarrow> (\<forall>r. rs_handler s r = H_recv \<longrightarrow>
     rm_pending (rs_m s) (hs_id (half s r)) = Some r \<and> rs_expiry s r = E_wait \<or>
     hs_matched (half s r) \<noteq> [] \<or> hs_closed (half s r) \<or>
     (\<exists>p. rs_partner s r = Some p \<and> rs_expiry s r = E_done \<and> \<not> hs_splicer (half s r)))"

definition expiry_ok :: "resume_sys \<Rightarrow> bool" where
  "expiry_ok s \<longleftrightarrow> (\<forall>r. rs_expiry s r \<noteq> E_none \<longrightarrow> r < rs_next s \<and> \<not> hs_splicer (half s r)) \<and>
     (\<forall>r. rs_handler s r \<noteq> H_none \<longrightarrow> r < rs_next s) \<and>
     (\<forall>r. hs_closed (half s r) \<longrightarrow> rs_expiry s r = E_done)"

lemma expiry_step: "resume_step s t \<Longrightarrow> resume_inv s \<Longrightarrow> expiry_ok s \<Longrightarrow> expiry_ok t"
proof (induction rule: resume_step.induct)
  case (rs_submit s now i u my ack)
  have "rs_partner s (rs_next s) = None" by (rule partner_fresh [OF resume_invD(2) [OF rs_submit(1)]])
  moreover have "p < rs_next s" if "rm_pending (rs_m s) i = Some p" for p
    by (rule parkedD(1) [OF resume_invD(1) [OF rs_submit(1)] that])
  ultimately show ?case
    using rs_submit(2) by (auto simp: expiry_ok_def submit_defs less_Suc_eq split: option.splits)
qed (auto simp: expiry_ok_def resume_expire_def Let_def split: if_splits)

lemma wait_step:
  assumes "resume_step s t" and "resume_inv s" and "expiry_ok s" and "wait_ok s"
  shows "wait_ok t"
  using assms
proof (induction rule: resume_step.induct)
  case (rs_submit s now i u my ack)
  show ?case
    unfolding wait_ok_def
  proof (intro allI impI)
    fix r
    assume h: "rs_handler (do_submit now i u my ack s) r = H_recv"
    let ?s = "do_submit now i u my ack s"
    show "rm_pending (rs_m ?s) (hs_id (half ?s r)) = Some r \<and> rs_expiry ?s r = E_wait \<or>
      hs_matched (half ?s r) \<noteq> [] \<or> hs_closed (half ?s r) \<or>
      (\<exists>p. rs_partner ?s r = Some p \<and> rs_expiry ?s r = E_done \<and> \<not> hs_splicer (half ?s r))"
    proof (cases "r = rs_next s")
      case True
      then show ?thesis by (cases "rm_pending (rs_m s) i") (auto simp: submit_defs)
    next
      case False
      then have "rs_handler s r = H_recv" using h by (simp add: submit_defs split: if_splits)
      then show ?thesis
        using rs_submit(3) [unfolded wait_ok_def, rule_format, of r] False
        by (cases "rm_pending (rs_m s) i") (auto simp: submit_defs)
    qed
  qed
next
  case (rs_expiry_recv s r p ps)
  note c = chanD [OF resume_invD(3) [OF rs_expiry_recv(3)] rs_expiry_recv(2)]
  have "\<not> hs_splicer (half s r)" using rs_expiry_recv(1,4) by (simp add: expiry_ok_def)
  then show ?case using rs_expiry_recv(5) c by (auto simp: wait_ok_def)
next
  case (rs_expiry_timer s r)
  have sp: "\<not> hs_splicer (half s r)" using rs_expiry_timer(1,3) by (simp add: expiry_ok_def)
  show ?case
  proof (cases "rm_pending (rs_m s) (hs_id (half s r)) = Some r")
    case True
    then show ?thesis using rs_expiry_timer(4) by (auto simp: wait_ok_def resume_expire_def Let_def)
  next
    case False
    then show ?thesis using rs_expiry_timer(4) sp by (auto simp: wait_ok_def resume_expire_def Let_def)
  qed
qed (auto simp: wait_ok_def)

interpretation resume_wait: inductive_invariant "\<lambda>s. s = resume_sys0" resume_step
  "\<lambda>s. resume_inv s \<and> expiry_ok s \<and> wait_ok s"
proof
  fix s
  assume "s = resume_sys0"
  then show "resume_inv s \<and> expiry_ok s \<and> wait_ok s"
    by (simp add: resume_inv_init) (simp add: resume_sys0_def newResumeMatcher_def new_half_def expiry_ok_def wait_ok_def)
qed (auto intro: resume_step_inv expiry_step wait_step)

section \<open>Properties\<close>

definition two_halves :: resume_sys where
  "two_halves = do_submit 1 7 ''b'' 20 10 (do_submit 0 7 ''a'' 10 20 resume_sys0)"

lemma two_halves_reach: "resume_reach two_halves"
proof -
  have "resume_reach resume_sys0" by (rule reach_init) simp
  from reach_step [OF this rs_submit] have "resume_reach (do_submit 0 7 ''a'' 10 20 resume_sys0)" .
  from reach_step [OF this rs_submit] show ?thesis unfolding two_halves_def .
qed

lemma two_halves_simps:
  "rs_handler two_halves 0 = H_recv" "rs_handler two_halves (Suc 0) = H_recv"
  "hs_matched (half two_halves 0) = [Suc 0]" "hs_matched (half two_halves (Suc 0)) = [0]"
  "rs_expiry two_halves 0 = E_wait" "hs_splicer (half two_halves (Suc 0))" "rs_next two_halves = 2"
  "rm_pending (rs_m two_halves) = Map.empty" "\<not> hs_closed (half two_halves 0)"
  by (simp_all add: two_halves_def submit_defs resume_sys0_def newResumeMatcher_def fun_eq_iff)

text \<open>C22: resumed halves are paired two by two. When the handler of half \<open>r\<close> has received its partner
  \<open>p\<close>, the two carry the same stream id, exactly one of them is the splicer, no other handler
  received \<open>p\<close>, and if the handler of \<open>p\<close> received a partner it is \<open>r\<close>.\<close>

theorem resume_pairing:
  assumes "resume_reach s" and "rs_handler s r = H_matched p"
  shows "r \<noteq> p \<and> hs_id (half s r) = hs_id (half s p) \<and> (hs_splicer (half s r) \<longleftrightarrow> \<not> hs_splicer (half s p)) \<and>
    (\<forall>r'. rs_handler s r' = H_matched p \<longrightarrow> r' = r) \<and> (\<forall>q. rs_handler s p = H_matched q \<longrightarrow> q = r)"
proof -
  note inv = resume_invD [OF resume_system.reach_inv [OF assms(1)]]
  have partner: "rs_partner s x = Some y" if "rs_handler s x = H_matched y" for x y
    using inv(4) that by (simp add: handler_ok_def)
  note rp = pairedD [OF inv(2) partner [OF assms(2)]]
  have "r' = r" if "rs_handler s r' = H_matched p" for r'
    using pairedD(4) [OF inv(2) partner [OF that]] rp(4) by simp
  moreover have "q = r" if "rs_handler s p = H_matched q" for q using partner [OF that] rp(4) by simp
  ultimately show ?thesis using rp by auto
qed

definition both_received :: resume_sys where
  "both_received =
     (let s = (upd_half 0 ((half two_halves 0)\<lparr>hs_matched := []\<rparr>) two_halves)\<lparr>rs_handler := (rs_handler two_halves)(0 := H_matched (Suc 0))\<rparr>
      in (upd_half (Suc 0) ((half s (Suc 0))\<lparr>hs_matched := []\<rparr>) s)\<lparr>rs_handler := (rs_handler s)(Suc 0 := H_matched 0)\<rparr>)"

lemma both_received_reach: "resume_reach both_received"
proof -
  let ?s = "(upd_half 0 ((half two_halves 0)\<lparr>hs_matched := []\<rparr>) two_halves)\<lparr>rs_handler := (rs_handler two_halves)(0 := H_matched (Suc 0))\<rparr>"
  have "resume_reach ?s"
    by (rule reach_step [OF two_halves_reach]) (rule rs_handler_recv, simp_all add: two_halves_simps)
  then show ?thesis
    unfolding both_received_def Let_def
    by (rule reach_step) (rule rs_handler_recv, simp_all add: two_halves_simps)
qed

theorem resume_pairing_witness:
  "rs_handler both_received 0 = H_matched (Suc 0) \<and> rs_handler both_received (Suc 0) = H_matched 0 \<and>
    hs_id (half both_received 0) = hs_id (half both_received (Suc 0)) \<and>
    (hs_splicer (half both_received 0) \<longleftrightarrow> \<not> hs_splicer (half both_received (Suc 0)))"
proof -
  have h: "rs_handler both_received 0 = H_matched (Suc 0)" "rs_handler both_received (Suc 0) = H_matched 0"
    by (simp_all add: both_received_def Let_def)
  then show ?thesis using resume_pairing [OF both_received_reach h(1)] by blast
qed

text \<open>The half that completes a pair is never left waiting: until its handler reads, its channel
  holds the partner.\<close>

lemma resume_splicer_served:
  assumes "resume_reach s" and "rs_handler s r = H_recv" and "hs_splicer (half s r)"
  shows "\<exists>p. hs_matched (half s r) = [p] \<and> rs_partner s r = Some p"
proof -
  have inv: "resume_inv s" "expiry_ok s" "wait_ok s" using resume_wait.reach_inv [OF assms(1)] by auto
  have "rs_expiry s r = E_none" using inv(2) assms(3) by (auto simp: expiry_ok_def)
  moreover from this have "\<not> hs_closed (half s r)" using inv(2) by (auto simp: expiry_ok_def)
  ultimately have "hs_matched (half s r) \<noteq> []" using inv(3) assms(2) by (auto simp: wait_ok_def)
  then show ?thesis using resume_invD(3) [OF inv(1)] by (auto simp: chan_ok_def)
qed

lemma resume_splicer_served_witness:
  "rs_handler two_halves (Suc 0) = H_recv \<and> hs_splicer (half two_halves (Suc 0)) \<and>
    (\<exists>p. hs_matched (half two_halves (Suc 0)) = [p] \<and> rs_partner two_halves (Suc 0) = Some p)"
  using resume_splicer_served [OF two_halves_reach two_halves_simps(2,6)] two_halves_simps(2,6) by blast

text \<open>A handler that nobody can wake any more stays so.\<close>

definition stranded :: "ref \<Rightarrow> resume_sys \<Rightarrow> bool" where
  "stranded r s \<longleftrightarrow> rs_handler s r = H_recv \<and> hs_matched (half s r) = [] \<and> \<not> hs_closed (half s r) \<and>
     rs_expiry s r = E_done \<and> (\<forall>i. rm_pending (rs_m s) i \<noteq> Some r) \<and> r < rs_next s"

lemma stranded_step: "resume_step s t \<Longrightarrow> stranded r s \<Longrightarrow> stranded r t"
  by (induction rule: resume_step.induct)
    (auto simp: stranded_def submit_defs resume_expire_def split: option.splits if_splits)

lemma stranded_forever: "resume_step\<^sup>*\<^sup>* s t \<Longrightarrow> stranded r s \<Longrightarrow> stranded r t"
  by (induction rule: rtranclp_induct) (auto intro: stranded_step)

text \<open>The expiry goroutine of the parked half reads the same channel as its handler and can take
  the partner away from it: there is a reachable state in which the pair is matched and the parked
  handler waits, and from which no continuation wakes it.\<close>

lemma resume_wakeup_stolen:
  "\<exists>s. resume_reach s \<and> rs_partner s 0 = Some 1 \<and> rs_handler s 0 = H_recv \<and>
     \<not> (\<exists>t. resume_step\<^sup>*\<^sup>* s t \<and> rs_handler t 0 \<noteq> H_recv)"
proof -
  let ?s = "(upd_half 0 ((half two_halves 0)\<lparr>hs_matched := []\<rparr>) two_halves)\<lparr>rs_expiry := (rs_expiry two_halves)(0 := E_done)\<rparr>"
  have "resume_reach ?s"
    by (rule reach_step [OF two_halves_reach]) (rule rs_expiry_recv, simp_all add: two_halves_simps)
  moreover have "stranded 0 ?s" by (simp add: stranded_def two_halves_simps)
  moreover have "rs_partner ?s 0 = Some 1"
    by (simp add: two_halves_def submit_defs resume_sys0_def newResumeMatcher_def)
  ultimately show ?thesis
    using stranded_forever [of ?s] by (metis stranded_def)
qed

end
