(* ===== verification/ForwardMatcher.thy ===== *)
theory ForwardMatcher
  imports HalfMatcher
begin

text \<open>
  The FORWARD_RESUME matcher of \<open>pkg/edge/forward_resume.go\<close> with the goroutines around it
  (\<open>driveForwardResume\<close> of \<open>pkg/edge/edge.go\<close> and the expiry goroutine of \<open>Submit\<close>). The second
  arrival receives the first one and drives the re-allocation; the channel of the first one is
  closed.
\<close>

section \<open>The code\<close>

definition ForwardResumeWindow :: duration where
  "ForwardResumeWindow = 30 * Second"

record halfForwardResume =
  hf_id :: u64
  hf_agentURI :: uri
  hf_ac :: ref
  hf_myPos :: u64
  hf_peerAckPos :: u64
  hf_arrivedAt :: gotime
  hf_matched :: "ref list"
  hf_closed :: bool
  hf_timedOut :: bool

record forwardMatcher =
  fm_pending :: "u64 \<rightharpoonup> ref"
  fm_half :: "ref \<Rightarrow> halfForwardResume"

text \<open>A half as \<open>handleForwardResume\<close> builds it from the frame and the agent connection \<open>ac\<close>.\<close>

definition new_forward_half :: "u64 \<Rightarrow> uri \<Rightarrow> ref \<Rightarrow> u64 \<Rightarrow> u64 \<Rightarrow> halfForwardResume" where
  "new_forward_half i u ac my ack = \<lparr>hf_id = i, hf_agentURI = u, hf_ac = ac, hf_myPos = my, hf_peerAckPos = ack,
     hf_arrivedAt = 0, hf_matched = [], hf_closed = False, hf_timedOut = False\<rparr>"

definition newForwardMatcher :: forwardMatcher where
  "newForwardMatcher = \<lparr>fm_pending = Map.empty, fm_half = (\<lambda>_. new_forward_half 0 [] 0 0 0)\<rparr>"

definition forward_Submit :: "gotime \<Rightarrow> ref \<Rightarrow> halfForwardResume \<Rightarrow> forwardMatcher \<Rightarrow> forwardMatcher" where
  "forward_Submit now r h m =
     (let self = h\<lparr>hf_matched := [], hf_arrivedAt := now\<rparr> in
      case fm_pending m (hf_id h) of
        Some p \<Rightarrow> m\<lparr>fm_pending := (fm_pending m)(hf_id h := None),
          fm_half := (fm_half m)(p := (fm_half m p)\<lparr>hf_closed := True\<rparr>, r := self\<lparr>hf_matched := [p]\<rparr>)\<rparr>
      | None \<Rightarrow> m\<lparr>fm_pending := (fm_pending m)(hf_id h \<mapsto> r), fm_half := (fm_half m)(r := self)\<rparr>)"

text \<open>The timer branch of the expiry goroutine.\<close>

definition forward_expire :: "ref \<Rightarrow> forwardMatcher \<Rightarrow> forwardMatcher" where
  "forward_expire r m =
     (let h = fm_half m r in
      if fm_pending m (hf_id h) = Some r
      then m\<lparr>fm_pending := (fm_pending m)(hf_id h := None),
             fm_half := (fm_half m)(r := h\<lparr>hf_timedOut := True, hf_closed := True\<rparr>)\<rparr>
      else m)"

definition forward_PendingCount :: "forwardMatcher \<Rightarrow> nat" where
  "forward_PendingCount m = card (dom (fm_pending m))"

interpretation forward_table: half_matcher fm_pending "\<lambda>m r. hf_id (fm_half m r)"
  "\<lambda>r i m. forward_Submit now r (new_forward_half i u ac my ack) m" forward_expire
  for now u ac my ack
  by unfold_locales
    (auto simp: forward_Submit_def forward_expire_def Let_def new_forward_half_def split: option.split)

section \<open>The goroutines\<close>

text \<open>The ghost \<open>fs_drives\<close> maps the second arrival of a pair to the first.\<close>

record forward_sys =
  fs_m :: forwardMatcher
  fs_handler :: "ref \<Rightarrow> handler_state"
  fs_expiry :: "ref \<Rightarrow> expiry_state"
  fs_next :: ref
  fs_drives :: "ref \<rightharpoonup> ref"

definition forward_sys0 :: forward_sys where
  "forward_sys0 = \<lparr>fs_m = newForwardMatcher, fs_handler = (\<lambda>_. H_none), fs_expiry = (\<lambda>_. E_none),
     fs_next = 0, fs_drives = Map.empty\<rparr>"

abbreviation fhalf :: "forward_sys \<Rightarrow> ref \<Rightarrow> halfForwardResume" where
  "fhalf s \<equiv> fm_half (fs_m s)"

abbreviation upd_fhalf :: "ref \<Rightarrow> halfForwardResume \<Rightarrow> forward_sys \<Rightarrow> forward_sys" where
  "upd_fhalf r h s \<equiv> s\<lparr>fs_m := (fs_m s)\<lparr>fm_half := (fm_half (fs_m s))(r := h)\<rparr>\<rparr>"

definition do_forward_submit :: "gotime \<Rightarrow> u64 \<Rightarrow> uri \<Rightarrow> ref \<Rightarrow> u64 \<Rightarrow> u64 \<Rightarrow> forward_sys \<Rightarrow> forward_sys" where
  "do_forward_submit now i u ac my ack s =
     (let r = fs_next s in
      \<lparr>fs_m = forward_Submit now r (new_forward_half i u ac my ack) (fs_m s),
       fs_handler = (fs_handler s)(r := H_recv),
       fs_expiry = (fs_expiry s)(r := (if fm_pending (fs_m s) i = None then E_wait else E_none)),
       fs_next = Suc r,
       fs_drives = (case fm_pending (fs_m s) i of None \<Rightarrow> fs_drives s | Some p \<Rightarrow> (fs_drives s)(r \<mapsto> p))\<rparr>)"

inductive forward_step :: "forward_sys \<Rightarrow> forward_sys \<Rightarrow> bool" where
  fs_submit: "forward_step s (do_forward_submit now i u ac my ack s)"
| fs_handler_recv: "fs_handler s r = H_recv \<Longrightarrow> hf_matched (fhalf s r) = p # ps \<Longrightarrow>
    forward_step s ((upd_fhalf r ((fhalf s r)\<lparr>hf_matched := ps\<rparr>) s)\<lparr>fs_handler := (fs_handler s)(r := H_matched p)\<rparr>)"
| fs_handler_closed: "fs_handler s r = H_recv \<Longrightarrow> hf_matched (fhalf s r) = [] \<Longrightarrow> hf_closed (fhalf s r) \<Longrightarrow>
    forward_step s (s\<lparr>fs_handler := (fs_handler s)(r := H_nil)\<rparr>)"
| fs_expiry_recv: "fs_expiry s r = E_wait \<Longrightarrow> hf_matched (fhalf s r) = p # ps \<Longrightarrow>
    forward_step s ((upd_fhalf r ((fhalf s r)\<lparr>hf_matched := ps\<rparr>) s)\<lparr>fs_expiry := (fs_expiry s)(r := E_done)\<rparr>)"
| fs_expiry_closed: "fs_expiry s r = E_wait \<Longrightarrow> hf_matched (fhalf s r) = [] \<Longrightarrow> hf_closed (fhalf s r) \<Longrightarrow>
    forward_step s (s\<lparr>fs_expiry := (fs_expiry s)(r := E_done)\<rparr>)"
| fs_expiry_timer: "fs_expiry s r = E_wait \<Longrightarrow>
    forward_step s (s\<lparr>fs_m := forward_expire r (fs_m s), fs_expiry := (fs_expiry s)(r := E_done)\<rparr>)"

abbreviation forward_reach :: "forward_sys \<Rightarrow> bool" where
  "forward_reach \<equiv> reach (\<lambda>s. s = forward_sys0) forward_step"

lemmas forward_submit_defs = do_forward_submit_def forward_Submit_def new_forward_half_def Let_def

section \<open>Invariant\<close>

definition fparked_ok :: "forward_sys \<Rightarrow> bool" where
  "fparked_ok s \<longleftrightarrow> (\<forall>i r. fm_pending (fs_m s) i = Some r \<longrightarrow> r < fs_next s \<and> hf_id (fhalf s r) = i \<and>
     \<not> hf_closed (fhalf s r) \<and> fs_expiry s r = E_wait)"

definition fdrive_ok :: "forward_sys \<Rightarrow> bool" where
  "fdrive_ok s \<longleftrightarrow> (\<forall>r p. fs_drives s r = Some p \<longrightarrow> p < r \<and> r < fs_next s \<and>
     hf_id (fhalf s p) = hf_id (fhalf s r) \<and> hf_closed (fhalf s p) \<and> \<not> hf_timedOut (fhalf s p) \<and>
     fs_drives s p = None \<and> fs_expiry s r = E_none) \<and> inj_on (fs_drives s) (dom (fs_drives s))"

definition fchan_ok :: "forward_sys \<Rightarrow> bool" where
  "fchan_ok s \<longleftrightarrow> (\<forall>r p ps. hf_matched (fhalf s r) = p # ps \<longrightarrow> ps = [] \<and> fs_drives s r = Some p) \<and>
     (\<forall>r. hf_closed (fhalf s r) \<longrightarrow> hf_timedOut (fhalf s r) \<or> (\<exists>q. fs_drives s q = Some r)) \<and>
     (\<forall>r. hf_timedOut (fhalf s r) \<longrightarrow> hf_closed (fhalf s r)) \<and>
     (\<forall>r. hf_closed (fhalf s r) \<longrightarrow> fs_drives s r = None)"

definition fhandler_ok :: "forward_sys \<Rightarrow> bool" where
  "fhandler_ok s \<longleftrightarrow> (\<forall>r p. fs_handler s r = H_matched p \<longrightarrow> fs_drives s r = Some p) \<and>
     (\<forall>r. fs_handler s r = H_nil \<longrightarrow> hf_closed (fhalf s r)) \<and>
     (\<forall>r. fs_handler s r \<noteq> H_none \<or> fs_expiry s r \<noteq> E_none \<or> hf_closed (fhalf s r) \<longrightarrow> r < fs_next s)"

definition fwait_ok :: "forward_sys \<Rightarrow> bool" where
  "fwait_ok s \<longleftrightarrow> (\<forall>r. fs_handler s r = H_recv \<longrightarrow>
     fm_pending (fs_m s) (hf_id (fhalf s r)) = Some r \<and> fs_expiry s r = E_wait \<or>
     hf_matched (fhalf s r) \<noteq> [] \<or> hf_closed (fhalf s r))"

definition forward_inv :: "forward_sys \<Rightarrow> bool" where
  "forward_inv s \<longleftrightarrow> fparked_ok s \<and> fdrive_ok s \<and> fchan_ok s \<and> fhandler_ok s \<and> fwait_ok s"

lemma forward_invD:
  assumes "forward_inv s"
  shows "fparked_ok s" "fdrive_ok s" "fchan_ok s" "fhandler_ok s" "fwait_ok s"
  using assms by (simp_all add: forward_inv_def)

lemma forward_inv_init: "forward_inv forward_sys0"
  by (simp add: forward_inv_def fparked_ok_def fdrive_ok_def fchan_ok_def fhandler_ok_def fwait_ok_def
      forward_sys0_def newForwardMatcher_def new_forward_half_def)

lemma fparkedD:
  assumes "fparked_ok s" and "fm_pending (fs_m s) i = Some r"
  shows "r < fs_next s" "hf_id (fhalf s r) = i" "\<not> hf_closed (fhalf s r)" "fs_expiry s r = E_wait"
  using assms(1) [unfolded fparked_ok_def, rule_format, OF assms(2)] by simp_all

lemma fdriveD:
  assumes "fdrive_ok s" and "fs_drives s r = Some p"
  shows "p < r" "r < fs_next s" "hf_id (fhalf s p) = hf_id (fhalf s r)" "hf_closed (fhalf s p)"
    "\<not> hf_timedOut (fhalf s p)" "fs_drives s p = None" "fs_expiry s r = E_none"
  using assms(1) [unfolded fdrive_ok_def, THEN conjunct1, rule_format, OF assms(2)] by simp_all

lemma fdrive_inj: "fdrive_ok s \<Longrightarrow> fs_drives s r = Some p \<Longrightarrow> fs_drives s r' = Some p \<Longrightarrow> r' = r"
  by (auto simp: fdrive_ok_def inj_on_def dom_def)

lemma fdrive_okI:
  assumes "\<And>r p. fs_drives s r = Some p \<Longrightarrow> p < r \<and> r < fs_next s \<and>
     hf_id (fhalf s p) = hf_id (fhalf s r) \<and> hf_closed (fhalf s p) \<and> \<not> hf_timedOut (fhalf s p) \<and>
     fs_drives s p = None \<and> fs_expiry s r = E_none"
    and "\<And>r r' p. fs_drives s r = Some p \<Longrightarrow> fs_drives s r' = Some p \<Longrightarrow> r' = r"
  shows "fdrive_ok s"
  unfolding fdrive_ok_def inj_on_def
proof (intro conjI allI impI ballI)
  fix r r'
  assume "r \<in> dom (fs_drives s)" and "r' \<in> dom (fs_drives s)" and "fs_drives s r = fs_drives s r'"
  then show "r = r'" using assms(2) [of r' _ r] by (auto simp: dom_def)
qed (use assms(1) in simp_all)

lemma drives_fresh: "fdrive_ok s \<Longrightarrow> fs_drives s (fs_next s) = None"
  by (cases "fs_drives s (fs_next s)") (auto dest: fdriveD(2))

lemma parked_undriven:
  assumes "forward_inv s" and "fm_pending (fs_m s) i = Some p"
  shows "fs_drives s p = None" "fs_drives s r \<noteq> Some p" "hf_matched (fhalf s p) = []" "\<not> hf_timedOut (fhalf s p)"
proof -
  note inv = forward_invD [OF assms(1)] and pk = fparkedD [OF forward_invD(1) [OF assms(1)] assms(2)]
  show "fs_drives s p = None" using fdriveD(7) [OF inv(2), of p] pk(4) by (cases "fs_drives s p") auto
  then show "hf_matched (fhalf s p) = []" using inv(3) by (cases "hf_matched (fhalf s p)") (auto simp: fchan_ok_def)
  show "fs_drives s r \<noteq> Some p" using fdriveD(4) [OF inv(2), of r p] pk(3) by auto
  show "\<not> hf_timedOut (fhalf s p)" using inv(3) pk(3) by (auto simp: fchan_ok_def)
qed

lemma forward_submit_parks:
  assumes "forward_inv s" and n: "fm_pending (fs_m s) i = None"
  shows "forward_inv (do_forward_submit now i u ac my ack s)"
proof -
  let ?s = "do_forward_submit now i u ac my ack s"
  note inv = forward_invD [OF assms(1)] and fresh = drives_fresh [OF forward_invD(2) [OF assms(1)]]
  have nc: "fs_drives s r \<noteq> Some (fs_next s)" for r
    using fdriveD(1,2) [OF inv(2), of r "fs_next s"] by auto
  have "fparked_ok ?s" using inv(1) n by (auto simp: fparked_ok_def forward_submit_defs less_Suc_eq)
  moreover have "fdrive_ok ?s"
  proof (rule fdrive_okI)
    fix r p
    assume "fs_drives ?s r = Some p"
    then have rp: "fs_drives s r = Some p" using n by (simp add: forward_submit_defs)
    then show "p < r \<and> r < fs_next ?s \<and> hf_id (fhalf ?s p) = hf_id (fhalf ?s r) \<and> hf_closed (fhalf ?s p) \<and>
      \<not> hf_timedOut (fhalf ?s p) \<and> fs_drives ?s p = None \<and> fs_expiry ?s r = E_none"
      using fdriveD [OF inv(2) rp] n by (simp add: forward_submit_defs)
  next
    fix r r' p
    assume "fs_drives ?s r = Some p" and "fs_drives ?s r' = Some p"
    then show "r' = r" using fdrive_inj [OF inv(2), of r p r'] n by (simp add: forward_submit_defs)
  qed
  moreover have "fchan_ok ?s" using inv(3) n fresh nc by (auto simp: fchan_ok_def forward_submit_defs)
  moreover have "fhandler_ok ?s" using inv(4) n by (auto simp: fhandler_ok_def forward_submit_defs less_Suc_eq)
  moreover have "fwait_ok ?s" using inv(5) n by (auto simp: fwait_ok_def forward_submit_defs)
  ultimately show ?thesis by (simp add: forward_inv_def)
qed

lemma forward_submit_pairs:
  assumes "forward_inv s" and p: "fm_pending (fs_m s) i = Some p"
  shows "forward_inv (do_forward_submit now i u ac my ack s)"
proof -
  let ?s = "do_forward_submit now i u ac my ack s"
  note inv = forward_invD [OF assms(1)] and fresh = drives_fresh [OF forward_invD(2) [OF assms(1)]]
  note pk = fparkedD [OF inv(1) p] and un = parked_undriven [OF assms(1) p]
  have nc: "fs_drives s r \<noteq> Some (fs_next s)" for r
    using fdriveD(1,2) [OF inv(2), of r "fs_next s"] by auto
  have dr: "fs_drives ?s = (fs_drives s)(fs_next s \<mapsto> p)" using p by (simp add: forward_submit_defs)
  have "fparked_ok ?s"
    unfolding fparked_ok_def
  proof (intro allI impI)
    fix j r
    assume "fm_pending (fs_m ?s) j = Some r"
    then have jr: "fm_pending (fs_m s) j = Some r" "j \<noteq> i" using p by (auto simp: forward_submit_defs split: if_splits)
    then show "r < fs_next ?s \<and> hf_id (fhalf ?s r) = j \<and> \<not> hf_closed (fhalf ?s r) \<and> fs_expiry ?s r = E_wait"
      using fparkedD [OF inv(1) jr(1)] p pk by (auto simp: forward_submit_defs)
  qed
  moreover have "fdrive_ok ?s"
  proof (rule fdrive_okI)
    fix r q
    assume "fs_drives ?s r = Some q"
    then consider "r = fs_next s" "q = p" | "r \<noteq> fs_next s" "fs_drives s r = Some q"
      unfolding dr by (auto split: if_splits)
    then show "q < r \<and> r < fs_next ?s \<and> hf_id (fhalf ?s q) = hf_id (fhalf ?s r) \<and> hf_closed (fhalf ?s q) \<and>
      \<not> hf_timedOut (fhalf ?s q) \<and> fs_drives ?s q = None \<and> fs_expiry ?s r = E_none"
      using p pk un fdriveD [OF inv(2), of r q] nc [of r] un(2) [of r] by cases (auto simp: forward_submit_defs)
  next
    fix r r' q
    assume "fs_drives ?s r = Some q" and "fs_drives ?s r' = Some q"
    then show "r' = r"
      using fdrive_inj [OF inv(2), of r q r'] un(2) [of r] un(2) [of r'] unfolding dr by (auto split: if_splits)
  qed
  moreover have "fchan_ok ?s"
    using inv(3) p un fresh nc pk(1) by (auto simp: fchan_ok_def forward_submit_defs) (metis option.distinct(1))
  moreover have "fhandler_ok ?s" using inv(4) p pk by (auto simp: fhandler_ok_def forward_submit_defs less_Suc_eq)
  moreover have "fwait_ok ?s"
    using inv(5) p by (auto simp: fwait_ok_def forward_submit_defs)
  ultimately show ?thesis by (simp add: forward_inv_def)
qed

lemma forward_expire_inv:
  assumes "forward_inv s" and e: "fs_expiry s r = E_wait"
  shows "forward_inv (s\<lparr>fs_m := forward_expire r (fs_m s), fs_expiry := (fs_expiry s)(r := E_done)\<rparr>)"
    (is "forward_inv ?s")
proof (cases "fm_pending (fs_m s) (hf_id (fhalf s r)) = Some r")
  case True
  note inv = forward_invD [OF assms(1)] and pk = fparkedD [OF forward_invD(1) [OF assms(1)]]
  note un = parked_undriven [OF assms(1) True]
  have other: "r' \<noteq> r" if "fm_pending (fs_m s) i = Some r'" "i \<noteq> hf_id (fhalf s r)" for i r'
    using pk(2) [OF that(1)] that(2) by auto
  have half: "fhalf ?s = (fhalf s)(r := (fhalf s r)\<lparr>hf_timedOut := True, hf_closed := True\<rparr>)"
    using True by (simp add: forward_expire_def Let_def)
  have "fparked_ok ?s"
    unfolding fparked_ok_def
  proof (intro allI impI)
    fix i r'
    assume "fm_pending (fs_m ?s) i = Some r'"
    then have ir: "fm_pending (fs_m s) i = Some r'" "i \<noteq> hf_id (fhalf s r)"
      using True by (auto simp: forward_expire_def Let_def split: if_splits)
    then show "r' < fs_next ?s \<and> hf_id (fhalf ?s r') = i \<and> \<not> hf_closed (fhalf ?s r') \<and> fs_expiry ?s r' = E_wait"
      using pk [OF ir(1)] other [OF ir] unfolding half by simp
  qed
  moreover have "fdrive_ok ?s"
  proof (rule fdrive_okI)
    fix q p
    assume "fs_drives ?s q = Some p"
    then have qp: "fs_drives s q = Some p" by simp
    then show "p < q \<and> q < fs_next ?s \<and> hf_id (fhalf ?s p) = hf_id (fhalf ?s q) \<and> hf_closed (fhalf ?s p) \<and>
      \<not> hf_timedOut (fhalf ?s p) \<and> fs_drives ?s p = None \<and> fs_expiry ?s q = E_none"
      using fdriveD [OF inv(2) qp] un(1) un(2) [of q] unfolding half by auto
  qed (simp add: fdrive_inj [OF inv(2)])
  moreover have "fchan_ok ?s" using inv(3) un unfolding fchan_ok_def half by auto
  moreover have "fhandler_ok ?s"
    using inv(4) pk(1) [OF True] unfolding fhandler_ok_def half by (auto split: if_splits)
  moreover have "fwait_ok ?s"
    using inv(5) True unfolding fwait_ok_def half by (auto simp: forward_expire_def Let_def)
  ultimately show ?thesis by (simp add: forward_inv_def)
next
  case False
  note inv = forward_invD [OF assms(1)]
  have m: "fs_m ?s = fs_m s" using False by (simp add: forward_expire_def Let_def)
  have np: "fm_pending (fs_m s) i \<noteq> Some r" for i
    using fparkedD(2) [OF inv(1), of i r] False by auto
  have "fparked_ok ?s" using inv(1) np unfolding fparked_ok_def m by (auto split: if_splits)
  moreover have "fdrive_ok ?s"
  proof (rule fdrive_okI)
    fix q p
    assume "fs_drives ?s q = Some p"
    then have qp: "fs_drives s q = Some p" by simp
    show "p < q \<and> q < fs_next ?s \<and> hf_id (fhalf ?s p) = hf_id (fhalf ?s q) \<and> hf_closed (fhalf ?s p) \<and>
      \<not> hf_timedOut (fhalf ?s p) \<and> fs_drives ?s p = None \<and> fs_expiry ?s q = E_none"
      using fdriveD [OF inv(2) qp] e unfolding m by auto
  qed (simp add: fdrive_inj [OF inv(2)])
  moreover have "fchan_ok ?s" using inv(3) unfolding fchan_ok_def m by simp
  moreover have "fhandler_ok ?s" using inv(4) e unfolding fhandler_ok_def m by auto
  moreover have "fwait_ok ?s" using inv(5) np unfolding fwait_ok_def m by (auto split: if_splits)
  ultimately show ?thesis by (simp add: forward_inv_def)
qed

text \<open>
  A parked half never gets a value on its channel, so its expiry goroutine cannot take one.
\<close>

lemma expiry_no_value:
  assumes "forward_inv s" and "fs_expiry s r = E_wait"
  shows "hf_matched (fhalf s r) = []"
proof (rule ccontr)
  note inv = forward_invD [OF assms(1)]
  assume "hf_matched (fhalf s r) \<noteq> []"
  then obtain p ps where "hf_matched (fhalf s r) = p # ps" by (cases "hf_matched (fhalf s r)") auto
  then have "fs_drives s r = Some p" using inv(3) by (simp add: fchan_ok_def)
  from fdriveD(7) [OF inv(2) this] assms(2) show False by simp
qed

text \<open>Receiving leaves the table, the ids and the flags alone and only empties a buffer.\<close>

lemma forward_inv_frame:
  assumes "forward_inv s" and eq: "fs_next t = fs_next s" "fs_drives t = fs_drives s" "fm_pending (fs_m t) = fm_pending (fs_m s)"
    and flags: "\<And>r. hf_id (fhalf t r) = hf_id (fhalf s r) \<and> hf_closed (fhalf t r) = hf_closed (fhalf s r) \<and>
      hf_timedOut (fhalf t r) = hf_timedOut (fhalf s r)"
    and buf: "\<And>r. hf_matched (fhalf t r) = hf_matched (fhalf s r) \<or> hf_matched (fhalf t r) = [] \<and> fs_handler t r \<noteq> H_recv"
    and ex: "\<And>r. fs_expiry t r = fs_expiry s r \<or> fs_expiry s r = E_wait \<and> fs_expiry t r = E_done \<and> hf_closed (fhalf s r)"
    and h: "\<And>r. fs_handler t r = fs_handler s r \<or> fs_handler s r = H_recv \<and>
      ((\<exists>p. fs_handler t r = H_matched p \<and> fs_drives s r = Some p) \<or> fs_handler t r = H_nil \<and> hf_closed (fhalf s r))"
  shows "forward_inv t"
proof -
  note inv = forward_invD [OF assms(1)]
  have "fparked_ok t"
    unfolding fparked_ok_def
  proof (intro allI impI)
    fix i r
    assume "fm_pending (fs_m t) i = Some r"
    then have "fm_pending (fs_m s) i = Some r" by (simp add: eq)
    from fparkedD [OF inv(1) this]
    show "r < fs_next t \<and> hf_id (fhalf t r) = i \<and> \<not> hf_closed (fhalf t r) \<and> fs_expiry t r = E_wait"
      using ex [of r] by (simp add: eq flags)
  qed
  moreover have "fdrive_ok t"
  proof (rule fdrive_okI)
    fix r p
    assume "fs_drives t r = Some p"
    then have "fs_drives s r = Some p" by (simp add: eq)
    from fdriveD [OF inv(2) this]
    show "p < r \<and> r < fs_next t \<and> hf_id (fhalf t p) = hf_id (fhalf t r) \<and> hf_closed (fhalf t p) \<and>
      \<not> hf_timedOut (fhalf t p) \<and> fs_drives t p = None \<and> fs_expiry t r = E_none"
      using ex [of r] by (simp add: eq flags)
  qed (simp add: eq fdrive_inj [OF inv(2)])
  moreover have "fchan_ok t"
  proof -
    have "ps = [] \<and> fs_drives t r = Some p" if "hf_matched (fhalf t r) = p # ps" for r p ps
    proof -
      have "hf_matched (fhalf s r) = p # ps" using buf [of r] that by auto
      then show ?thesis using inv(3) by (simp add: fchan_ok_def eq)
    qed
    then show ?thesis using inv(3) by (simp add: fchan_ok_def eq flags)
  qed
  moreover have "fhandler_ok t"
  proof -
    have "fs_drives s r = Some p" if "fs_handler t r = H_matched p" for r p
      using inv(4) h [of r] that by (auto simp: fhandler_ok_def)
    moreover have "hf_closed (fhalf s r)" if "fs_handler t r = H_nil" for r
      using inv(4) h [of r] that by (auto simp: fhandler_ok_def)
    moreover have "r < fs_next s" if "fs_handler t r \<noteq> H_none \<or> fs_expiry t r \<noteq> E_none \<or> hf_closed (fhalf s r)" for r
      using inv(4) h [of r] ex [of r] that by (auto simp: fhandler_ok_def)
    ultimately show ?thesis by (simp add: fhandler_ok_def eq flags)
  qed
  moreover have "fwait_ok t"
    unfolding fwait_ok_def
  proof (intro allI impI)
    fix r
    assume r: "fs_handler t r = H_recv"
    then have "fs_handler s r = H_recv" and "hf_matched (fhalf t r) = hf_matched (fhalf s r)"
      using h [of r] buf [of r] by auto
    then show "fm_pending (fs_m t) (hf_id (fhalf t r)) = Some r \<and> fs_expiry t r = E_wait \<or>
      hf_matched (fhalf t r) \<noteq> [] \<or> hf_closed (fhalf t r)"
      using inv(5) ex [of r] by (auto simp: fwait_ok_def eq flags)
  qed
  ultimately show ?thesis by (simp add: forward_inv_def)
qed

lemma forward_step_inv: "forward_step s t \<Longrightarrow> forward_inv s \<Longrightarrow> forward_inv t"
proof (induction rule: forward_step.induct)
  case (fs_submit s now i u ac my ack)
  then show ?case
    by (cases "fm_pending (fs_m s) i") (simp_all add: forward_submit_parks forward_submit_pairs)
next
  case (fs_handler_recv s r p ps)
  have "ps = []" "fs_drives s r = Some p"
    using forward_invD(3) [OF fs_handler_recv(3)] fs_handler_recv(2) by (auto simp: fchan_ok_def)
  with fs_handler_recv(1) show ?case
    by (intro forward_inv_frame [OF fs_handler_recv(3)]) auto
next
  case (fs_handler_closed s r)
  from fs_handler_closed(1-3) show ?case by (intro forward_inv_frame [OF fs_handler_closed(4)]) auto
next
  case (fs_expiry_recv s r p ps)
  then show ?case using expiry_no_value [of s r] by simp
next
  case (fs_expiry_closed s r)
  from fs_expiry_closed(1-3) show ?case by (intro forward_inv_frame [OF fs_expiry_closed(4)]) auto
next
  case (fs_expiry_timer s r)
  then show ?case by (simp add: forward_expire_inv)
qed

interpretation forward_system: inductive_invariant "\<lambda>s. s = forward_sys0" forward_step forward_inv
  by unfold_locales (auto simp: forward_inv_init intro: forward_step_inv)

section \<open>Properties\<close>

definition two_fhalves :: forward_sys where
  "two_fhalves = do_forward_submit 1 7 ''b'' 1 0 0 (do_forward_submit 0 7 ''a'' 0 0 0 forward_sys0)"

definition one_fhalf :: forward_sys where
  "one_fhalf = do_forward_submit 0 7 ''a'' 0 0 0 forward_sys0"

lemma one_fhalf_reach: "forward_reach one_fhalf"
proof -
  have "forward_reach forward_sys0" by (rule reach_init) simp
  from reach_step [OF this fs_submit] show ?thesis unfolding one_fhalf_def .
qed

lemma two_fhalves_reach: "forward_reach two_fhalves"
  using reach_step [OF one_fhalf_reach fs_submit] unfolding one_fhalf_def two_fhalves_def .

lemma two_fhalves_simps:
  "fs_handler two_fhalves 0 = H_recv" "fs_handler two_fhalves (Suc 0) = H_recv"
  "hf_matched (fhalf two_fhalves (Suc 0)) = [0]" "hf_matched (fhalf two_fhalves 0) = []"
  "hf_closed (fhalf two_fhalves 0)"
  by (simp_all add: two_fhalves_def forward_submit_defs forward_sys0_def newForwardMatcher_def)

text \<open>C24: no wake-up of the forward matcher is lost. In every reachable interleaving a handler that
  waits is parked under a running window timer, or a receive on its channel is ready.\<close>

theorem forward_no_lost_wakeup:
  assumes "forward_reach s" and "fs_handler s r = H_recv"
  shows "fm_pending (fs_m s) (hf_id (fhalf s r)) = Some r \<and> fs_expiry s r = E_wait \<or>
    (\<exists>t. forward_step s t \<and> fs_handler t r \<noteq> H_recv)"
proof -
  note inv = forward_system.reach_inv [OF assms(1)]
  consider "fm_pending (fs_m s) (hf_id (fhalf s r)) = Some r" "fs_expiry s r = E_wait"
    | p ps where "hf_matched (fhalf s r) = p # ps" | "hf_matched (fhalf s r) = []" "hf_closed (fhalf s r)"
    using forward_invD(5) [OF inv] assms(2) by (cases "hf_matched (fhalf s r)") (auto simp: fwait_ok_def)
  then show ?thesis
  proof cases
    case (2 p ps)
    from fs_handler_recv [OF assms(2) 2] show ?thesis by fastforce
  next
    case 3
    from fs_handler_closed [OF assms(2) 3] show ?thesis by fastforce
  qed blast
qed

theorem forward_no_lost_wakeup_witness:
  "\<exists>t. forward_step two_fhalves t \<and> fs_handler t 0 \<noteq> H_recv"
proof -
  have "fm_pending (fs_m two_fhalves) (hf_id (fhalf two_fhalves 0)) \<noteq> Some 0"
    by (simp add: two_fhalves_def forward_submit_defs forward_sys0_def newForwardMatcher_def)
  then show ?thesis using forward_no_lost_wakeup [OF two_fhalves_reach two_fhalves_simps(1)] by blast
qed

text \<open>C25: exactly one side of a FORWARD_RESUME pair drives the re-allocation. If the handler of \<open>r\<close>
  received \<open>p\<close> then \<open>p\<close> arrived earlier under the same stream id, no other handler received \<open>p\<close>,
  and the handler of \<open>p\<close> cannot drive: its channel is closed and it is not flagged as timed out.\<close>

theorem forward_single_driver:
  assumes "forward_reach s" and "fs_handler s r = H_matched p"
  shows "p < r \<and> hf_id (fhalf s p) = hf_id (fhalf s r) \<and> hf_closed (fhalf s p) \<and> \<not> hf_timedOut (fhalf s p) \<and>
    \<not> (\<exists>q. fs_handler s p = H_matched q) \<and> {r'. fs_handler s r' = H_matched p} = {r}"
proof -
  note inv = forward_invD [OF forward_system.reach_inv [OF assms(1)]]
  have drives: "fs_drives s x = Some y" if "fs_handler s x = H_matched y" for x y
    using inv(4) that by (simp add: fhandler_ok_def)
  note d = fdriveD [OF inv(2) drives [OF assms(2)]]
  have "{r'. fs_handler s r' = H_matched p} = {r}"
    using assms(2) fdrive_inj [OF inv(2) drives [OF assms(2)]] drives by blast
  moreover have "\<not> (\<exists>q. fs_handler s p = H_matched q)" using drives [of p] d(6) by fastforce
  ultimately show ?thesis using d by simp
qed

theorem forward_single_driver_witness:
  "\<exists>s. forward_reach s \<and> fs_handler s (Suc 0) = H_matched 0 \<and> \<not> (\<exists>q. fs_handler s 0 = H_matched q)"
proof -
  let ?s = "(upd_fhalf (Suc 0) ((fhalf two_fhalves (Suc 0))\<lparr>hf_matched := []\<rparr>) two_fhalves)
    \<lparr>fs_handler := (fs_handler two_fhalves)(Suc 0 := H_matched 0)\<rparr>"
  have r: "forward_reach ?s"
    by (rule reach_step [OF two_fhalves_reach]) (rule fs_handler_recv, simp_all add: two_fhalves_simps)
  have h: "fs_handler ?s (Suc 0) = H_matched 0" by simp
  from forward_single_driver [OF r h] r h show ?thesis by blast
qed

text \<open>The metric for expired windows counts what it says. A handler that received nothing was
  either overtaken by its partner or flagged as timed out, never both.\<close>

lemma forward_timeout_exact:
  assumes "forward_reach s" and "fs_handler s r = H_nil"
  shows "hf_timedOut (fhalf s r) \<longleftrightarrow> \<not> (\<exists>q. fs_drives s q = Some r)"
proof -
  note inv = forward_invD [OF forward_system.reach_inv [OF assms(1)]]
  have "hf_closed (fhalf s r)" using inv(4) assms(2) by (simp add: fhandler_ok_def)
  then have "hf_timedOut (fhalf s r) \<or> (\<exists>q. fs_drives s q = Some r)" using inv(3) by (simp add: fchan_ok_def)
  then show ?thesis using fdriveD(5) [OF inv(2)] by auto
qed

definition expired_fhalf :: forward_sys where
  "expired_fhalf = (let s = one_fhalf\<lparr>fs_m := forward_expire 0 (fs_m one_fhalf), fs_expiry := (fs_expiry one_fhalf)(0 := E_done)\<rparr>
     in s\<lparr>fs_handler := (fs_handler s)(0 := H_nil)\<rparr>)"

lemma forward_timeout_exact_witness:
  "fs_handler expired_fhalf 0 = H_nil \<and> hf_timedOut (fhalf expired_fhalf 0) \<and>
    \<not> (\<exists>q. fs_drives expired_fhalf q = Some 0)"
proof -
  have "forward_reach (one_fhalf\<lparr>fs_m := forward_expire 0 (fs_m one_fhalf), fs_expiry := (fs_expiry one_fhalf)(0 := E_done)\<rparr>)"
    by (rule reach_step [OF one_fhalf_reach fs_expiry_timer])
      (simp add: one_fhalf_def forward_submit_defs forward_sys0_def newForwardMatcher_def)
  then have "forward_reach expired_fhalf"
    unfolding expired_fhalf_def Let_def
    by (rule reach_step) (rule fs_handler_closed; simp add: one_fhalf_def forward_expire_def
      forward_submit_defs forward_sys0_def newForwardMatcher_def)
  moreover have h: "fs_handler expired_fhalf 0 = H_nil" by (simp add: expired_fhalf_def Let_def)
  moreover have "\<not> (\<exists>q. fs_drives expired_fhalf q = Some 0)"
    by (simp add: expired_fhalf_def one_fhalf_def forward_submit_defs forward_sys0_def newForwardMatcher_def)
  ultimately show ?thesis using forward_timeout_exact [of expired_fhalf 0] by blast
qed

end
