(* ===== verification/EdgeState.thy ===== *)
theory EdgeState
  imports Registry PolicyCache Plane Migrate Pool AuditEmitter ResumeMatcher ForwardMatcher
begin

text \<open>
  The state of the edge server (\<open>Server\<close> of \<open>pkg/edge/edge.go\<close>) and its small operations: agent
  tracking, the successor list, the table of stream pairs, rejects, policy evaluation and audit. The
  optional parts of the server (nil pointers in the code) are options. What a handler does to the
  outside is a list of \<open>effect\<close>s in program order.
\<close>

section \<open>Connections and effects\<close>

text \<open>An \<open>AgentConn\<close> is compared by pointer in the code: \<open>ac_id\<close> is that identity.\<close>

record AgentConn =
  ac_id :: nat
  ac_uri :: uri

datatype stream_ref = ConsumerStream | ProviderStream | PeerStream | OwnStream | MatchedStream

text \<open>
  \<open>WriteCtrl\<close> is the method of that name, which holds the connection's \<open>ctrlMu\<close>;
  \<open>WriteCtrlUnlocked\<close> is a write of the control loop on the same stream without it. \<open>ForwardRaw\<close>
  re-serialises a received frame onto a peer's control stream. \<open>CloseConn\<close> closes the
  connection of the agent with that identity. The \<open>Spawn\<close> effects start a goroutine.
\<close>

datatype effect =
    WriteCtrl AgentConn FrameType message
  | WriteCtrlUnlocked AgentConn FrameType message
  | ForwardRaw AgentConn frame
  | WriteFrame stream_ref FrameType message
  | OpenIncomingStream AgentConn message
  | CloseStream stream_ref
  | CloseConn nat
  | Deregister deregister_request
  | SpawnForwardResume halfForwardResume
  | SpawnEnforce u64

section \<open>The server\<close>

record streamPair =
  consumerURI :: uri
  providerURI :: uri

record relayMetrics =
  evalCounters :: eval_counters
  streamActive :: int
  bytesForwarded :: int
  intraRelayHops :: nat
  streamRejects :: nat
  streamOpens :: nat
  streamMigratedP2P :: nat
  streamMigratedRelay :: nat
  streamForwardAssigned :: nat
  streamForwardResumeSubmitted :: nat
  streamForwardResumePaired :: nat
  streamForwardResumeTimeout :: nat

definition newRelayMetrics :: "bool \<Rightarrow> relayMetrics option" where
  "newRelayMetrics reg = (if reg then Some \<lparr>evalCounters = \<lparr>policyCacheHits = 0, policyCacheMisses = 0\<rparr>,
     streamActive = 0, bytesForwarded = 0, intraRelayHops = 0, streamRejects = 0, streamOpens = 0,
     streamMigratedP2P = 0, streamMigratedRelay = 0, streamForwardAssigned = 0,
     streamForwardResumeSubmitted = 0, streamForwardResumePaired = 0, streamForwardResumeTimeout = 0\<rparr>
   else None)"

record Server =
  sv_reg :: "AgentConn Registry"
  sv_policy :: "Engine option"
  sv_cache :: "Cache option"
  sv_audit :: "AuditEvent Emitter option"
  sv_pool :: "Pool option"
  sv_forward :: "Plane option"
  sv_metrics :: "relayMetrics option"
  sv_resumer :: resumeMatcher
  sv_pairs :: "u64 \<rightharpoonup> streamPair"
  sv_migrated :: migratedLRU
  sv_forwardResumer :: forwardMatcher
  sv_successors :: "endpoint list"
  sv_agents :: "AgentConn set"

definition edge_New :: "AgentConn Registry \<Rightarrow> Engine option \<Rightarrow> Cache option \<Rightarrow> AuditEvent Emitter option \<Rightarrow>
    Pool option \<Rightarrow> Plane option \<Rightarrow> bool \<Rightarrow> Server" where
  "edge_New reg policyEngine cache auditEm pool fwd obsReg =
     \<lparr>sv_reg = reg, sv_policy = policyEngine, sv_cache = cache, sv_audit = auditEm, sv_pool = pool,
      sv_forward = fwd, sv_metrics = newRelayMetrics obsReg, sv_resumer = newResumeMatcher,
      sv_pairs = Map.empty, sv_migrated = newMigratedLRU, sv_forwardResumer = newForwardMatcher,
      sv_successors = [], sv_agents = {}\<rparr>"

text \<open>A metric is only touched when the server has metrics.\<close>

definition bump :: "(relayMetrics \<Rightarrow> relayMetrics) \<Rightarrow> Server \<Rightarrow> Server" where
  "bump f s = s\<lparr>sv_metrics := map_option f (sv_metrics s)\<rparr>"

section \<open>Agents and successors\<close>

definition trackAgent :: "AgentConn \<Rightarrow> Server \<Rightarrow> Server" where
  "trackAgent ac s = s\<lparr>sv_agents := insert ac (sv_agents s)\<rparr>"

definition untrackAgent :: "AgentConn \<Rightarrow> Server \<Rightarrow> Server" where
  "untrackAgent ac s = s\<lparr>sv_agents := sv_agents s - {ac}\<rparr>"

definition AgentCount :: "Server \<Rightarrow> nat" where
  "AgentCount s = card (sv_agents s)"

text \<open>\<open>liveAgents\<close> lists the set in the iteration order of the map, which Go leaves open: \<open>ord\<close> gives it, and
  \<open>agents_order\<close> says that it is a possible one.\<close>

definition agents_order :: "(AgentConn set \<Rightarrow> AgentConn list) \<Rightarrow> bool" where
  "agents_order ord \<longleftrightarrow> (\<forall>S. finite S \<longrightarrow> distinct (ord S) \<and> set (ord S) = S)"

definition liveAgents :: "(AgentConn set \<Rightarrow> AgentConn list) \<Rightarrow> Server \<Rightarrow> AgentConn list" where
  "liveAgents ord s = ord (sv_agents s)"

definition SetSuccessors :: "endpoint list \<Rightarrow> Server \<Rightarrow> Server" where
  "SetSuccessors eps s = s\<lparr>sv_successors := eps\<rparr>"

section \<open>Stream pairs\<close>

definition recordPair :: "u64 \<Rightarrow> streamPair \<Rightarrow> Server \<Rightarrow> bool \<times> Server" where
  "recordPair i p s =
     (if i = 0 then (True, s)
      else case sv_pairs s i of
        Some existing \<Rightarrow> if existing \<noteq> p then (False, s) else (True, s\<lparr>sv_pairs := (sv_pairs s)(i \<mapsto> p)\<rparr>)
      | None \<Rightarrow> (True, s\<lparr>sv_pairs := (sv_pairs s)(i \<mapsto> p)\<rparr>))"

definition replacePair :: "u64 \<Rightarrow> streamPair \<Rightarrow> Server \<Rightarrow> Server" where
  "replacePair i p s = (if i = 0 then s else s\<lparr>sv_pairs := (sv_pairs s)(i \<mapsto> p)\<rparr>)"

definition forgetPair :: "u64 \<Rightarrow> Server \<Rightarrow> Server" where
  "forgetPair i s = (if i = 0 then s else s\<lparr>sv_pairs := (sv_pairs s)(i := None)\<rparr>)"

definition peerOf :: "u64 \<Rightarrow> uri \<Rightarrow> Server \<Rightarrow> uri" where
  "peerOf i callerURI s = (case sv_pairs s i of
     None \<Rightarrow> []
   | Some p \<Rightarrow> if callerURI = consumerURI p then providerURI p
               else if callerURI = providerURI p then consumerURI p else [])"

section \<open>Rejects, policy and audit\<close>

definition writeStreamReject :: "stream_ref \<Rightarrow> u32 \<Rightarrow> string \<Rightarrow> Server \<Rightarrow> Server \<times> effect list" where
  "writeStreamReject st code reason s =
     (bump (\<lambda>m. m\<lparr>streamRejects := streamRejects m + 1\<rparr>) s,
      [WriteFrame st FrameTypeStreamReject (M_StreamReject code reason 0)])"

definition rejectConsumer :: "AgentConn option \<Rightarrow> stream_ref \<Rightarrow> u64 \<Rightarrow> u32 \<Rightarrow> string \<Rightarrow> Server \<Rightarrow> Server \<times> effect list" where
  "rejectConsumer caller st i code reason s =
     (case writeStreamReject st code reason s of (s', es) \<Rightarrow>
        (s', es @ (case caller of
                     None \<Rightarrow> []
                   | Some c \<Rightarrow> if i = 0 then []
                               else [WriteCtrl c FrameTypeStreamReject (M_StreamReject code reason i)])))"

text \<open>
  The parameters of the server that stand for code outside the repository or for what Go leaves open:
  \<open>identity.Parse\<close>, the controller, the map iteration order of the cache, the remote address of a
  connection, the textual endpoint of the forwarding socket and whether a frame can be serialised.
\<close>

record edge_env =
  en_Parse :: identity_Parse
  en_ctrl :: registry_client
  en_cord :: "Cache \<Rightarrow> cacheKey list"
  en_remoteAddr :: "AgentConn \<Rightarrow> string"
  en_endpoint :: string
  en_marshal :: "frame \<Rightarrow> bool"

text \<open>\<open>Server.evaluate\<close> on the server's cache and counters; only called with a policy engine.\<close>

definition server_evaluate :: "edge_env \<Rightarrow> gotime \<Rightarrow> Engine \<Rightarrow> string \<Rightarrow> string \<Rightarrow> string \<Rightarrow> Server \<Rightarrow> Result \<times> Server" where
  "server_evaluate env now e caller target meth s =
     (case evaluate (en_cord env) now e caller target meth
             (sv_cache s, case sv_metrics s of None \<Rightarrow> \<lparr>policyCacheHits = 0, policyCacheMisses = 0\<rparr> | Some m \<Rightarrow> evalCounters m) of
        (r, cache, n) \<Rightarrow> (r, bump (\<lambda>m. m\<lparr>evalCounters := n\<rparr>) (s\<lparr>sv_cache := cache\<rparr>)))"

text \<open>Its two sections on the cache: the lookup with its counter, and the insertion.\<close>

definition server_lookup :: "gotime \<Rightarrow> cacheKey \<Rightarrow> Server \<Rightarrow> Result option \<times> Server" where
  "server_lookup now key s = (case sv_cache s of
     None \<Rightarrow> (None, s)
   | Some m \<Rightarrow> (case Cache_Get now key m of (r, m') \<Rightarrow>
       (r, bump (\<lambda>x. x\<lparr>evalCounters := (if r \<noteq> None then (evalCounters x)\<lparr>policyCacheHits := policyCacheHits (evalCounters x) + 1\<rparr>
          else (evalCounters x)\<lparr>policyCacheMisses := policyCacheMisses (evalCounters x) + 1\<rparr>)\<rparr>) (s\<lparr>sv_cache := Some m'\<rparr>))))"

definition server_put :: "edge_env \<Rightarrow> gotime \<Rightarrow> cacheKey \<Rightarrow> Result \<Rightarrow> Server \<Rightarrow> Server" where
  "server_put env now key r s = s\<lparr>sv_cache := map_option (Cache_Put (en_cord env) now key r) (sv_cache s)\<rparr>"

lemma server_evaluate_sections:
  "server_evaluate env now e caller target meth s = (case server_lookup now (caller, target, meth) s of
     (Some r, s') \<Rightarrow> (r, s')
   | (None, s') \<Rightarrow> let r = Engine_Decide e caller target meth now in (r, server_put env now (caller, target, meth) r s'))"
  by (auto simp: server_evaluate_def server_lookup_def server_put_def evaluate_def bump_def Let_def split: prod.split option.split)

definition recordAudit :: "edge_env \<Rightarrow> gotime \<Rightarrow> string \<Rightarrow> string \<Rightarrow> string \<Rightarrow> Result \<Rightarrow> Server \<Rightarrow> Server" where
  "recordAudit env now caller target meth r s = (case sv_audit s of
     None \<Rightarrow> s
   | Some em \<Rightarrow> s\<lparr>sv_audit := Some (fst (Emit
       \<lparr>ev_TsUnixMs = UnixMilli now,
        ev_Tenant = (case en_Parse env caller of None \<Rightarrow> [] | Some n \<Rightarrow> Tenant n),
        ev_Caller = caller, ev_Target = target, ev_Method = meth,
        ev_Allow = (res_Decision r \<noteq> DecisionDeny), ev_Reason = Reason r\<rparr> em))\<rparr>)"

end
