(* ===== verification/GoNet.thy ===== *)
theory GoNet
  imports GoStrings
begin

text \<open>
  Addresses as text: \<open>net.SplitHostPort\<close>, \<open>net.JoinHostPort\<close> and the decimal conversions of
  \<open>strconv\<close>, and \<open>splitAddr\<close> of \<open>pkg/edge/edge.go\<close> on top of them. Bytes are characters.
\<close>

section \<open>The standard library\<close>

definition IndexByte :: "char \<Rightarrow> string \<Rightarrow> nat option" where
  "IndexByte c s = (if c \<in> set s then Some (length (takeWhile (\<lambda>x. x \<noteq> c) s)) else None)"

definition LastIndexByte :: "char \<Rightarrow> string \<Rightarrow> nat option" where
  "LastIndexByte c s = (if c \<in> set s then Some (length s - 1 - length (takeWhile (\<lambda>x. x \<noteq> c) (rev s))) else None)"

datatype addr_error = missingPort | missingBracket | tooManyColons | unexpectedOpen | unexpectedClose

definition split_finish :: "string \<Rightarrow> nat \<Rightarrow> string \<Rightarrow> nat \<Rightarrow> nat \<Rightarrow> addr_error + string \<times> string" where
  "split_finish hp i host j k =
     (if CHR ''['' \<in> set (drop j hp) then Inl unexpectedOpen
      else if CHR '']'' \<in> set (drop k hp) then Inl unexpectedClose
      else Inr (host, drop (i + 1) hp))"

definition SplitHostPort :: "string \<Rightarrow> addr_error + string \<times> string" where
  "SplitHostPort hp = (case LastIndexByte CHR '':'' hp of
     None \<Rightarrow> Inl missingPort
   | Some i \<Rightarrow>
       if hp ! 0 = CHR ''['' then
         (case IndexByte CHR '']'' hp of
            None \<Rightarrow> Inl missingBracket
          | Some e \<Rightarrow>
              if e + 1 = length hp then Inl missingPort
              else if e + 1 = i then split_finish hp i (take (e - 1) (drop 1 hp)) 1 (e + 1)
              else if hp ! (e + 1) = CHR '':'' then Inl tooManyColons else Inl missingPort)
       else if CHR '':'' \<in> set (take i hp) then Inl tooManyColons
       else split_finish hp i (take i hp) 0 0)"

definition JoinHostPort :: "string \<Rightarrow> string \<Rightarrow> string" where
  "JoinHostPort host port =
     (if CHR '':'' \<in> set host then ''['' @ host @ '']:'' @ port else host @ '':'' @ port)"

text \<open>\<open>Atoi\<close>: an optional sign, then at least one digit, within the 64-bit range.\<close>

definition digit_val :: "char \<Rightarrow> nat option" where
  "digit_val c = (let n = of_char c in if 48 \<le> n \<and> n \<le> 57 then Some (n - 48) else None)"

fun digits_val :: "nat \<Rightarrow> string \<Rightarrow> nat option" where
  "digits_val acc [] = Some acc"
| "digits_val acc (c # cs) = (case digit_val c of None \<Rightarrow> None | Some d \<Rightarrow> digits_val (10 * acc + d) cs)"

definition Atoi :: "string \<Rightarrow> int option" where
  "Atoi s = (case s of
     [] \<Rightarrow> None
   | c # cs \<Rightarrow>
       let signed = (c = CHR ''-'' \<or> c = CHR ''+''); ds = (if signed then cs else s) in
       if ds = [] then None
       else (case digits_val 0 ds of
          None \<Rightarrow> None
        | Some n \<Rightarrow>
            if c = CHR ''-'' then (if n \<le> 2 ^ 63 then Some (- int n) else None)
            else (if n < 2 ^ 63 then Some (int n) else None)))"

fun Itoa :: "nat \<Rightarrow> string" where
  "Itoa n = (if n < 10 then [char_of (48 + n)] else Itoa (n div 10) @ [char_of (48 + n mod 10)])"

declare Itoa.simps [simp del]

section \<open>The code\<close>

definition splitAddr :: "string \<Rightarrow> (string \<times> int) option" where
  "splitAddr s = (case SplitHostPort s of
     Inl err \<Rightarrow> None
   | Inr (host, portStr) \<Rightarrow> (case Atoi portStr of None \<Rightarrow> None | Some port \<Rightarrow> Some (host, port)))"

section \<open>Decimal numbers\<close>

lemma digit_val_char: "d < 10 \<Longrightarrow> digit_val (char_of (48 + d)) = Some d"
  by (simp add: digit_val_def Let_def)

lemma digits_val_append:
  "digits_val acc (xs @ ys) = (case digits_val acc xs of None \<Rightarrow> None | Some a \<Rightarrow> digits_val a ys)"
  by (induction xs arbitrary: acc) (auto split: option.split)

lemma digits_val_Itoa: "digits_val 0 (Itoa n) = Some n"
proof (induction n rule: Itoa.induct)
  case (1 n)
  then show ?case
    by (subst Itoa.simps) (auto simp: digits_val_append digit_val_char)
qed

lemma digit_of_char: "digit_val c = None \<Longrightarrow> c \<notin> set (Itoa n)"
proof (induction n rule: Itoa.induct)
  case (1 n)
  have "c \<noteq> char_of (48 + d)" if "d < 10" for d :: nat using digit_val_char [OF that] 1(2) by auto
  then show ?case using 1 by (subst Itoa.simps) auto
qed

lemma Itoa_ne: "Itoa n \<noteq> []"
  by (subst Itoa.simps) simp

text \<open>Colons, brackets and signs are no digits.\<close>

lemma Itoa_plain: "CHR '':'' \<notin> set (Itoa n)" "CHR ''['' \<notin> set (Itoa n)" "CHR '']'' \<notin> set (Itoa n)"
  "CHR ''-'' \<notin> set (Itoa n)" "CHR ''+'' \<notin> set (Itoa n)"
  by (rule digit_of_char; simp add: digit_val_def)+

lemma Atoi_Itoa: "n < 2 ^ 63 \<Longrightarrow> Atoi (Itoa n) = Some (int n)"
  using Itoa_ne [of n] Itoa_plain(4,5) [of n] digits_val_Itoa [of n]
  by (cases "Itoa n") (auto simp: Atoi_def Let_def)

section \<open>Round trip\<close>

lemma takeWhile_ne: "c \<notin> set xs \<Longrightarrow> takeWhile (\<lambda>x. x \<noteq> c) (xs @ c # ys) = xs"
  by (induction xs) auto

lemma LastIndexByte_append: "c \<notin> set ys \<Longrightarrow> LastIndexByte c (xs @ c # ys) = Some (length xs)"
  by (simp add: LastIndexByte_def takeWhile_ne)

lemma IndexByte_append: "c \<notin> set xs \<Longrightarrow> IndexByte c (xs @ c # ys) = Some (length xs)"
  by (simp add: IndexByte_def takeWhile_ne)

lemma SplitHostPort_Join:
  assumes "CHR ''['' \<notin> set host" and "CHR '']'' \<notin> set host"
    and "CHR '':'' \<notin> set port" and "CHR ''['' \<notin> set port" and "CHR '']'' \<notin> set port"
  shows "SplitHostPort (JoinHostPort host port) = Inr (host, port)"
proof (cases "CHR '':'' \<in> set host")
  case True
  let ?hp = "''['' @ host @ '']:'' @ port"
  have "LastIndexByte CHR '':'' ?hp = Some (length host + 2)"
    using LastIndexByte_append [OF assms(3), of "''['' @ host @ '']''"] by simp
  moreover have "IndexByte CHR '']'' ?hp = Some (length host + 1)"
    using IndexByte_append [of "CHR '']''" "''['' @ host"] assms(2) by simp
  ultimately show ?thesis
    using True assms by (simp add: SplitHostPort_def JoinHostPort_def split_finish_def)
next
  case False
  let ?hp = "host @ '':'' @ port"
  have "LastIndexByte CHR '':'' ?hp = Some (length host)" using LastIndexByte_append [OF assms(3), of host] by simp
  moreover have "?hp ! 0 \<noteq> CHR ''[''" using assms(1) by (cases host) auto
  ultimately show ?thesis
    using False assms by (simp add: SplitHostPort_def JoinHostPort_def split_finish_def)
qed

text \<open>\<open>splitAddr\<close> reads back every address the transport prints: for an IPv4 or IPv6 host and any port
  up to 65535 the text joined from them is split into the same host and port.\<close>

lemma splitAddr_roundtrip:
  assumes "CHR ''['' \<notin> set host" and "CHR '']'' \<notin> set host" and "port < 2 ^ 16"
  shows "splitAddr (JoinHostPort host (Itoa port)) = Some (host, int port)"
proof -
  have "SplitHostPort (JoinHostPort host (Itoa port)) = Inr (host, Itoa port)"
    by (rule SplitHostPort_Join [OF assms(1,2)]) (rule Itoa_plain)+
  moreover have "Atoi (Itoa port) = Some (int port)" using assms(3) by (intro Atoi_Itoa) simp
  ultimately show ?thesis by (simp add: splitAddr_def)
qed

lemma splitAddr_roundtrip_witness: "splitAddr (JoinHostPort ''fe80::1'' (Itoa 7443)) = Some (''fe80::1'', 7443)"
  using splitAddr_roundtrip [of "''fe80::1''" 7443] by simp

end
