(* ===== verification/EdgeCtrl.thy ===== *)
theory EdgeCtrl
  imports EdgeState GoNet
begin

text \<open>
  The control stream of an agent (\<open>controlLoop\<close> and the handlers it dispatches to, \<open>pkg/edge/edge.go\<close>).
  A handler is a function from the server state to the new state and its effects. \<open>ac\<close> is the
  connection whose control stream carried the frame.
\<close>

section \<open>The handlers\<close>

definition handleRegister :: "edge_env \<Rightarrow> AgentConn \<Rightarrow> frame \<Rightarrow> Server \<Rightarrow> Server \<times> effect list" where
  "handleRegister env ac f s = (case f_Msg f of
     Some (M_Register serviceName localAddr) \<Rightarrow>
       (case RegisterService (en_Parse env) (en_ctrl env) (ac_uri ac) serviceName localAddr (sv_reg s) of
          Inl err \<Rightarrow> (s, [CloseConn (ac_id ac)])
        | Inr i \<Rightarrow> (s, [WriteCtrlUnlocked ac FrameTypeRegisterAck (M_RegisterAck i)]))
   | _ \<Rightarrow> (s, []))"

text \<open>The routing shared by \<open>forwardCandidate\<close> and \<open>forwardCheckpoint\<close>: find the peer and write the frame.\<close>

definition route_to_peer :: "edge_env \<Rightarrow> AgentConn \<Rightarrow> u64 \<Rightarrow> frame \<Rightarrow> Server \<Rightarrow> effect list" where
  "route_to_peer env from i f s =
     (let peerURI = peerOf i (ac_uri from) s in
      if peerURI = [] then []
      else case LookupAgent peerURI (sv_reg s) of
        None \<Rightarrow> []
      | Some ac \<Rightarrow> if en_marshal env f then [ForwardRaw ac f] else [])"

definition forwardCandidate :: "edge_env \<Rightarrow> AgentConn \<Rightarrow> frame \<Rightarrow> Server \<Rightarrow> Server \<times> effect list" where
  "forwardCandidate env from f s = (case (f_Type f, f_Msg f) of
     (FrameTypeCandidateOffer, Some (M_CandidateOffer i)) \<Rightarrow> (s, route_to_peer env from i f s)
   | (FrameTypeCandidateAnswer, Some (M_CandidateAnswer i)) \<Rightarrow> (s, route_to_peer env from i f s)
   | _ \<Rightarrow> (s, []))"

definition forwardCheckpoint :: "edge_env \<Rightarrow> AgentConn \<Rightarrow> frame \<Rightarrow> Server \<Rightarrow> Server \<times> effect list" where
  "forwardCheckpoint env from f s = (case f_Msg f of
     Some (M_StreamCheckpoint i) \<Rightarrow> (s, route_to_peer env from i f s)
   | _ \<Rightarrow> (s, []))"

definition handleObservedAddrQuery :: "edge_env \<Rightarrow> AgentConn \<Rightarrow> frame \<Rightarrow> Server \<Rightarrow> Server \<times> effect list" where
  "handleObservedAddrQuery env ac f s = (case f_Msg f of
     Some (M_ObservedAddrQuery requestId) \<Rightarrow>
       (case splitAddr (en_remoteAddr env ac) of
          None \<Rightarrow> (s, [])
        | Some (host, port) \<Rightarrow>
            (s, [WriteCtrlUnlocked ac FrameTypeObservedAddrResp (M_ObservedAddrResp requestId host (word_of_int port))]))
   | _ \<Rightarrow> (s, []))"

text \<open>\<open>Note\<close> reads the clock twice: \<open>now\<close> and \<open>now'\<close>.\<close>

definition handleMigrateToP2P :: "gotime \<Rightarrow> gotime \<Rightarrow> AgentConn \<Rightarrow> frame \<Rightarrow> Server \<Rightarrow> Server \<times> effect list" where
  "handleMigrateToP2P now now' ac f s = (case f_Msg f of
     Some (M_MigrateToP2P i) \<Rightarrow>
       let pair = (case sv_pairs s i of None \<Rightarrow> \<lparr>consumerURI = [], providerURI = []\<rparr> | Some p \<Rightarrow> p);
           pair' = (if consumerURI pair = [] then pair\<lparr>consumerURI := ac_uri ac\<rparr>
                    else if providerURI pair = [] then pair\<lparr>providerURI := ac_uri ac\<rparr> else pair);
           entry = \<lparr>mg_id = i, mg_consumerURI = consumerURI pair', mg_providerURI = providerURI pair', mg_migratedAt = 0\<rparr>
       in (bump (\<lambda>m. m\<lparr>streamMigratedP2P := streamMigratedP2P m + 1\<rparr>)
             (s\<lparr>sv_migrated := migrated_Note now now' entry (sv_migrated s)\<rparr>), [])
   | _ \<Rightarrow> (s, []))"

definition replyForwardRegisterReject :: "AgentConn \<Rightarrow> u32 \<Rightarrow> string \<Rightarrow> effect list" where
  "replyForwardRegisterReject ac allocID reason =
     [WriteCtrl ac FrameTypeForwardRegisterReject (M_ForwardRegisterReject allocID reason)]"

definition handleForwardRegister :: "gotime \<Rightarrow> AgentConn \<Rightarrow> frame \<Rightarrow> Server \<Rightarrow> Server \<times> effect list" where
  "handleForwardRegister now ac f s = (case f_Msg f of
     Some (M_ForwardRegister allocId punchNonce) \<Rightarrow>
       (case sv_forward s of
          None \<Rightarrow> (s, replyForwardRegisterReject ac allocId ''forward_plane_disabled'')
        | Some p \<Rightarrow>
            if length punchNonce \<noteq> PunchNonceSize then (s, replyForwardRegisterReject ac allocId ''bad_nonce'')
            else (case ArmPending now allocId (ac_uri ac) punchNonce p of
               (Some ErrUnknownAlloc, p') \<Rightarrow>
                 (s\<lparr>sv_forward := Some p'\<rparr>, replyForwardRegisterReject ac allocId ''unknown_alloc'')
             | (Some ErrOwnerMismatch, p') \<Rightarrow>
                 (s\<lparr>sv_forward := Some p'\<rparr>, replyForwardRegisterReject ac allocId ''owner_mismatch'')
             | (None, p') \<Rightarrow> (s\<lparr>sv_forward := Some p'\<rparr>, [])))
   | _ \<Rightarrow> (s, []))"

definition handleForwardResume :: "AgentConn \<Rightarrow> frame \<Rightarrow> Server \<Rightarrow> Server \<times> effect list" where
  "handleForwardResume ac f s = (case f_Msg f of
     Some (M_ForwardResume i my ack) \<Rightarrow>
       (case sv_forward s of
          None \<Rightarrow> (s, [])
        | Some _ \<Rightarrow>
            (bump (\<lambda>m. m\<lparr>streamForwardResumeSubmitted := streamForwardResumeSubmitted m + 1\<rparr>) s,
             [SpawnForwardResume (new_forward_half i (ac_uri ac) (ac_id ac) my ack)]))
   | _ \<Rightarrow> (s, []))"

text \<open>The body of the loop for one frame.\<close>

definition controlLoop_frame :: "edge_env \<Rightarrow> gotime \<Rightarrow> gotime \<Rightarrow> AgentConn \<Rightarrow> frame \<Rightarrow> Server \<Rightarrow> Server \<times> effect list" where
  "controlLoop_frame env now now' ac f s = (case f_Type f of
     FrameTypeRegister \<Rightarrow> handleRegister env ac f s
   | FrameTypePing \<Rightarrow> (s, [WriteCtrlUnlocked ac FrameTypePong (M_HelloAck [])])
   | FrameTypeObservedAddrQuery \<Rightarrow> handleObservedAddrQuery env ac f s
   | FrameTypeCandidateOffer \<Rightarrow> forwardCandidate env ac f s
   | FrameTypeCandidateAnswer \<Rightarrow> forwardCandidate env ac f s
   | FrameTypeStreamCheckpoint \<Rightarrow> forwardCheckpoint env ac f s
   | FrameTypeMigrateToP2P \<Rightarrow> handleMigrateToP2P now now' ac f s
   | FrameTypeForwardResume \<Rightarrow> handleForwardResume ac f s
   | FrameTypeForwardRegister \<Rightarrow> handleForwardRegister now ac f s
   | _ \<Rightarrow> (s, []))"

text \<open>
  The loop over what \<open>ParseFrame\<close> returns. Each round carries its clock readings, what the other
  goroutines did to the server before the frame is handled, and whether the context is done
  afterwards. The last component says whether the loop has returned.
\<close>

record ctrl_round =
  cr_now :: gotime
  cr_now' :: gotime
  cr_others :: "Server \<Rightarrow> Server"
  cr_frame :: "string + frame"
  cr_done :: bool

fun controlLoop :: "edge_env \<Rightarrow> AgentConn \<Rightarrow> ctrl_round list \<Rightarrow> Server \<Rightarrow> Server \<times> effect list \<times> bool" where
  "controlLoop env ac [] s = (s, [], False)"
| "controlLoop env ac (r # rs) s = (case cr_frame r of
     Inl err \<Rightarrow> (cr_others r s, [], True)
   | Inr f \<Rightarrow>
       (case controlLoop_frame env (cr_now r) (cr_now' r) ac f (cr_others r s) of (s', es) \<Rightarrow>
          if cr_done r then (s', es, True)
          else (case controlLoop env ac rs s' of (s'', es', fin) \<Rightarrow> (s'', es @ es', fin))))"

section \<open>Forward resume\<close>

text \<open>
  \<open>driveForwardResume\<close> up to its receive, and after it: \<open>peer\<close> is what the channel delivered. A nil
  plane or an empty URI panics (\<open>None\<close>).
\<close>

definition driveForwardResume_submit :: "gotime \<Rightarrow> ref \<Rightarrow> halfForwardResume \<Rightarrow> Server \<Rightarrow> Server" where
  "driveForwardResume_submit now r self s =
     s\<lparr>sv_forwardResumer := forward_Submit now r self (sv_forwardResumer s)\<rparr>"

definition half_conn :: "halfForwardResume \<Rightarrow> AgentConn" where
  "half_conn h = \<lparr>ac_id = hf_ac h, ac_uri = hf_agentURI h\<rparr>"

definition driveForwardResume_end ::
  "edge_env \<Rightarrow> gotime \<Rightarrow> gotime \<Rightarrow> ref \<Rightarrow> ref option \<Rightarrow> Server \<Rightarrow> (Server \<times> effect list) option" where
  "driveForwardResume_end env now now' r peer s =
     (let self = fm_half (sv_forwardResumer s) r in
      case peer of
        None \<Rightarrow> Some (if hf_timedOut self
                   then bump (\<lambda>m. m\<lparr>streamForwardResumeTimeout := streamForwardResumeTimeout m + 1\<rparr>) s else s, [])
      | Some p \<Rightarrow>
          let peer = fm_half (sv_forwardResumer s) p;
              s1 = bump (\<lambda>m. m\<lparr>streamForwardResumePaired := streamForwardResumePaired m + 1\<rparr>) s
          in (case sv_forward s1 of
                None \<Rightarrow> None
              | Some pl \<Rightarrow> (case Allocate now (hf_agentURI self) pl of
                  None \<Rightarrow> None
                | Some (selfAlloc, pl1) \<Rightarrow> (case Allocate now' (hf_agentURI peer) pl1 of
                    None \<Rightarrow> None
                  | Some (peerAlloc, pl2) \<Rightarrow>
                      let i = hf_id self; resumeRelays = sv_successors s1 in
                      Some (s1\<lparr>sv_forward := Some pl2\<rparr>,
                        [WriteCtrl (half_conn self) FrameTypeAllocGranted (M_AllocGranted
                           \<lparr>ag_StreamId = i, ag_MyAllocation = selfAlloc, ag_PeerAllocation = peerAlloc,
                            ag_ForwardEndpoint = en_endpoint env, ag_ResumeRelays = resumeRelays\<rparr>),
                         WriteCtrl (half_conn peer) FrameTypeAllocGranted (M_AllocGranted
                           \<lparr>ag_StreamId = i, ag_MyAllocation = peerAlloc, ag_PeerAllocation = selfAlloc,
                            ag_ForwardEndpoint = en_endpoint env, ag_ResumeRelays = resumeRelays\<rparr>)])))))"

end
