(* ===== verification/EdgeStream.thy ===== *)
theory EdgeStream
  imports EdgeState
begin

text \<open>
  The life of a consumer's OPEN_STREAM (\<open>handleConsumerStream\<close>, \<open>OpenIncoming\<close>,
  \<open>forwardToPeer\<close>, \<open>handleForwardedStream\<close> and \<open>enforceRequiredPromotion\<close> of \<open>pkg/edge/edge.go\<close>). A handler
  blocks several times, and other goroutines change the server meanwhile, so it is cut at its
  blocking calls into phases: each is one function of the server state, and \<open>cs_phase\<close> holds the
  local variables between them. \<open>handleConsumerStream\<close> composes the phases with arbitrary changes by
  others in between. What an I/O call returns is an argument.
\<close>

section \<open>Phases of a consumer stream\<close>

record cs_locals =
  cl_open :: OpenStream
  cl_prov :: AgentConn
  cl_p2p :: P2PMode
  cl_relay :: RelayMode

datatype cs_phase =
    CS_exit
  | CS_resume frame
  | CS_migrate frame
  | CS_resolving OpenStream P2PMode RelayMode
  | CS_peer OpenStream Remote
  | CS_opening cs_locals
  | CS_waitAck cs_locals
  | CS_forwarding cs_locals u32 u32
  | CS_splicing cs_locals

type_synonym cs_result = "Server \<times> effect list \<times> cs_phase"

definition cs_begin :: "Server \<Rightarrow> Server" where
  "cs_begin s = bump (\<lambda>m. m\<lparr>streamActive := streamActive m + 1\<rparr>) s"

text \<open>The two outermost deferred calls, run on every return.\<close>

definition cs_return :: "Server \<times> effect list \<Rightarrow> cs_result" where
  "cs_return se = (bump (\<lambda>m. m\<lparr>streamActive := streamActive m - 1\<rparr>) (fst se), snd se @ [CloseStream ConsumerStream], CS_exit)"

text \<open>The callee-side check and the choice of the mode, once the provider is known.\<close>

definition cs_callee_checked ::
  "edge_env \<Rightarrow> gotime \<Rightarrow> AgentConn \<Rightarrow> OpenStream \<Rightarrow> P2PMode \<Rightarrow> RelayMode \<Rightarrow> AgentConn \<Rightarrow> Result \<Rightarrow> Server \<Rightarrow> cs_result" where
  "cs_callee_checked env now caller open p2p relay prov callee s =
     (let s2 = recordAudit env now (ac_uri prov) (ac_uri caller) (os_Method open) callee s in
      if res_Decision callee = DecisionDeny
      then cs_return (rejectConsumer (Some caller) ConsumerStream (os_StreamId open) 403 (''denied (callee): '' @ Reason callee) s2)
      else (s2, [], CS_opening \<lparr>cl_open = open, cl_prov = prov,
                     cl_p2p = CombineP2PModes p2p (res_P2PMode callee), cl_relay = relay\<rparr>))"

definition cs_callee :: "edge_env \<Rightarrow> gotime \<Rightarrow> AgentConn \<Rightarrow> OpenStream \<Rightarrow> P2PMode \<Rightarrow> RelayMode \<Rightarrow> AgentConn \<Rightarrow> Server \<Rightarrow> cs_result" where
  "cs_callee env now caller open p2p relay prov s = (case sv_policy s of
     None \<Rightarrow> (s, [], CS_opening \<lparr>cl_open = open, cl_prov = prov, cl_p2p = p2p, cl_relay = relay\<rparr>)
   | Some e \<Rightarrow>
       (case server_evaluate env now e (ac_uri prov) (ac_uri caller) (os_Method open) s of (callee, s1) \<Rightarrow>
          cs_callee_checked env now caller open p2p relay prov callee s1))"

text \<open>The lookup of the provider, after the controller answered.\<close>

definition cs_resolve :: "edge_env \<Rightarrow> gotime \<Rightarrow> AgentConn \<Rightarrow> OpenStream \<Rightarrow> P2PMode \<Rightarrow> RelayMode \<Rightarrow> Server \<Rightarrow> cs_result" where
  "cs_resolve env now caller open p2p relay s =
     (case Resolve (en_Parse env) (en_ctrl env) (ac_uri caller) (os_TargetService open) (sv_reg s) of
        (prov, remote, err) \<Rightarrow>
          if err = Some ErrProviderRemote then
            (case remote of
               Some r \<Rightarrow>
                 if sv_pool s = None \<or> remote_Endpoint r = []
                 then cs_return (rejectConsumer (Some caller) ConsumerStream (os_StreamId open) 502 ''inter-relay forwarding unavailable'' s)
                 else (s, [], CS_peer open r)
             | None \<Rightarrow> cs_return (rejectConsumer (Some caller) ConsumerStream (os_StreamId open) 502 ''inter-relay forwarding unavailable'' s))
          else (case (err, prov) of
             (None, Some p) \<Rightarrow> cs_callee env now caller open p2p relay p s
           | _ \<Rightarrow> cs_return (rejectConsumer (Some caller) ConsumerStream (os_StreamId open) 404 ''service not found'' s)))"

text \<open>The caller-side check, and the dispatch on the first frame.\<close>

definition cs_caller_checked :: "edge_env \<Rightarrow> gotime \<Rightarrow> AgentConn \<Rightarrow> OpenStream \<Rightarrow> Result \<Rightarrow> Server \<Rightarrow> cs_result" where
  "cs_caller_checked env now caller open dec s =
     (let s3 = recordAudit env now (ac_uri caller) (os_TargetService open) (os_Method open) dec s in
      if res_Decision dec = DecisionDeny
      then cs_return (rejectConsumer (Some caller) ConsumerStream (os_StreamId open) 403 (''denied: '' @ Reason dec) s3)
      else (s3, [], CS_resolving open (res_P2PMode dec) (res_RelayMode dec)))"

definition cs_openstream :: "edge_env \<Rightarrow> gotime \<Rightarrow> AgentConn \<Rightarrow> OpenStream \<Rightarrow> Server \<Rightarrow> cs_result" where
  "cs_openstream env now caller open s =
     (let s1 = bump (\<lambda>m. m\<lparr>streamOpens := streamOpens m + 1\<rparr>) s in
      case sv_policy s1 of
        None \<Rightarrow> (s1, [], CS_resolving open P2PModeAllowed RelayModeSplice)
      | Some e \<Rightarrow>
          (case server_evaluate env now e (ac_uri caller) (os_TargetService open) (os_Method open) s1 of (dec, s2) \<Rightarrow> cs_caller_checked env now caller open dec s2))"

definition cs_first :: "edge_env \<Rightarrow> gotime \<Rightarrow> AgentConn \<Rightarrow> string + frame \<Rightarrow> Server \<Rightarrow> cs_result" where
  "cs_first env now caller fr s = (case fr of
     Inl err \<Rightarrow> cs_return (s, [])
   | Inr f \<Rightarrow>
       if f_Type f = FrameTypeStreamResume then (s, [], CS_resume f)
       else if f_Type f = FrameTypeMigrateToRelay then (s, [], CS_migrate f)
       else if f_Type f \<noteq> FrameTypeOpenStream then cs_return (s, [])
       else (case f_Msg f of
          Some (M_OpenStream open) \<Rightarrow> cs_openstream env now caller open s
        | _ \<Rightarrow> cs_return (s, [])))"

text \<open>\<open>AgentConn.OpenIncoming\<close>: opening the stream can fail, and so can writing the frame.\<close>

datatype open_result = OpenFailed | FrameFailed | Opened

definition OpenIncoming :: "AgentConn \<Rightarrow> string \<Rightarrow> string \<Rightarrow> uri \<Rightarrow> u64 \<Rightarrow> endpoint list \<Rightarrow> open_result \<Rightarrow> effect list \<times> bool" where
  "OpenIncoming a service meth caller i successors res =
     (let msg = M_IncomingStream \<lparr>is_TargetService = service, is_Method = meth, is_SourceAgentUri = caller,
                  is_StreamId = i, is_ResumeRelays = successors\<rparr> in
      case res of
        OpenFailed \<Rightarrow> ([], False)
      | FrameFailed \<Rightarrow> ([OpenIncomingStream a msg, CloseStream ProviderStream], False)
      | Opened \<Rightarrow> ([OpenIncomingStream a msg], True))"

definition pair_of :: "AgentConn \<Rightarrow> cs_locals \<Rightarrow> streamPair" where
  "pair_of caller l = \<lparr>consumerURI = ac_uri caller, providerURI = ac_uri (cl_prov l)\<rparr>"

text \<open>Open the provider's stream, record the pair and arm the promotion timer.\<close>

definition cs_incoming :: "AgentConn \<Rightarrow> cs_locals \<Rightarrow> open_result \<Rightarrow> Server \<Rightarrow> cs_result" where
  "cs_incoming caller l res s =
     (let open = cl_open l; i = os_StreamId open in
      case OpenIncoming (cl_prov l) (os_TargetService open) (os_Method open) (ac_uri caller) i (sv_successors s) res of
        (es, ok) \<Rightarrow>
          if \<not> ok then
            (case rejectConsumer (Some caller) ConsumerStream i 502 ''provider stream open failed'' s of
               (s', es') \<Rightarrow> cs_return (s', es @ es'))
          else (case recordPair i (pair_of caller l) s of
             (False, s1) \<Rightarrow>
               (case rejectConsumer (Some caller) ConsumerStream i 409 ''stream id collision'' s1 of
                  (s', es') \<Rightarrow> cs_return (s', es @ es' @ [CloseStream ProviderStream]))
           | (True, s1) \<Rightarrow>
               (s1, es @ (if cl_p2p l = P2PModeRequired then [SpawnEnforce i] else []), CS_waitAck l)))"

text \<open>The deferred calls of a handler past \<open>recordPair\<close>, last registered first.\<close>

definition cs_teardown :: "cs_locals \<Rightarrow> (u32 \<times> u32) option \<Rightarrow> Server \<Rightarrow> Server \<times> effect list" where
  "cs_teardown l allocs s =
     (let s1 = (case allocs of None \<Rightarrow> s
                | Some (consumerAlloc, providerAlloc) \<Rightarrow>
                    s\<lparr>sv_forward := map_option (Forget consumerAlloc \<circ> Forget providerAlloc) (sv_forward s)\<rparr>)
      in (forgetPair (os_StreamId (cl_open l)) s1, [CloseStream ProviderStream]))"

definition cs_leave :: "cs_locals \<Rightarrow> (u32 \<times> u32) option \<Rightarrow> Server \<times> effect list \<Rightarrow> cs_result" where
  "cs_leave l allocs se = (case cs_teardown l allocs (fst se) of (s', es') \<Rightarrow> cs_return (s', snd se @ es'))"

text \<open>The forward grant: two allocations, told to both agents crosswise.\<close>

definition granted :: "edge_env \<Rightarrow> u64 \<Rightarrow> u32 \<Rightarrow> u32 \<Rightarrow> endpoint list \<Rightarrow> message" where
  "granted env i mine theirs relays = M_AllocGranted \<lparr>ag_StreamId = i, ag_MyAllocation = mine,
     ag_PeerAllocation = theirs, ag_ForwardEndpoint = en_endpoint env, ag_ResumeRelays = relays\<rparr>"

definition cs_forward :: "edge_env \<Rightarrow> gotime \<Rightarrow> AgentConn \<Rightarrow> cs_locals \<Rightarrow> bool \<Rightarrow> bool \<Rightarrow> Plane \<Rightarrow> Server \<Rightarrow> cs_result option" where
  "cs_forward env now caller l okC okP p s =
     (let i = os_StreamId (cl_open l) in
      case LookupAgent (ac_uri (cl_prov l)) (sv_reg s) of
        None \<Rightarrow> Some (cs_leave l None
           (rejectConsumer (Some caller) ConsumerStream i 502 ''forward: provider control channel unavailable'' s))
      | Some provAC \<Rightarrow> (case Allocate now (ac_uri caller) p of
          None \<Rightarrow> None
        | Some (consumerAlloc, p1) \<Rightarrow> (case Allocate now (ac_uri provAC) p1 of
            None \<Rightarrow> None
          | Some (providerAlloc, p2) \<Rightarrow>
              let s1 = bump (\<lambda>m. m\<lparr>streamForwardAssigned := streamForwardAssigned m + 1\<rparr>) (s\<lparr>sv_forward := Some p2\<rparr>);
                  relays = sv_successors s1;
                  w1 = WriteCtrl caller FrameTypeAllocGranted (granted env i consumerAlloc providerAlloc relays);
                  w2 = WriteCtrl provAC FrameTypeAllocGranted (granted env i providerAlloc consumerAlloc relays)
              in Some (if \<not> okC then cs_leave l (Some (consumerAlloc, providerAlloc)) (s1, [w1])
                       else if \<not> okP then cs_leave l (Some (consumerAlloc, providerAlloc)) (s1, [w1, w2])
                       else (s1, [w1, w2], CS_forwarding l consumerAlloc providerAlloc)))))"

text \<open>
  The provider's answer. \<open>okC\<close> and \<open>okP\<close> are the outcomes of the ALLOC_GRANTED writes. \<open>None\<close> is
  the panic of \<open>Allocate\<close> on an empty URI.
\<close>

definition cs_ack :: "edge_env \<Rightarrow> gotime \<Rightarrow> AgentConn \<Rightarrow> cs_locals \<Rightarrow> string + frame \<Rightarrow> bool \<Rightarrow> bool \<Rightarrow> Server \<Rightarrow> cs_result option" where
  "cs_ack env now caller l ack okC okP s =
     (let i = os_StreamId (cl_open l) in
      case ack of
        Inl err \<Rightarrow> Some (cs_leave l None (s, []))
      | Inr f \<Rightarrow>
          if f_Type f = FrameTypeStreamReject
          then Some (cs_leave l None (rejectConsumer (Some caller) ConsumerStream i 503 ''provider rejected'' s))
          else if f_Type f \<noteq> FrameTypeStreamAccept then Some (cs_leave l None (s, []))
          else (case (cl_relay l, sv_forward s) of
             (RelayModeForward, Some p) \<Rightarrow> cs_forward env now caller l okC okP p s
           | _ \<Rightarrow>
               let ready = M_StreamReady i (sv_successors s) in
               Some (s, WriteCtrl caller FrameTypeStreamReady ready #
                        (case LookupAgent (ac_uri (cl_prov l)) (sv_reg s) of
                           None \<Rightarrow> [] | Some provAC \<Rightarrow> [WriteCtrl provAC FrameTypeStreamReady ready]),
                     CS_splicing l)))"

text \<open>The end of the data phase; \<open>n\<close> is the byte count of \<open>splice.Bidirectional\<close>.\<close>

definition cs_spliced :: "cs_locals \<Rightarrow> int \<Rightarrow> Server \<Rightarrow> cs_result" where
  "cs_spliced l n s = cs_leave l None (bump (\<lambda>m. m\<lparr>bytesForwarded := bytesForwarded m + n\<rparr>) s, [])"

definition cs_forwarded :: "cs_locals \<Rightarrow> u32 \<Rightarrow> u32 \<Rightarrow> Server \<Rightarrow> cs_result" where
  "cs_forwarded l consumerAlloc providerAlloc s = cs_leave l (Some (consumerAlloc, providerAlloc)) (s, [])"

section \<open>The whole handler\<close>

text \<open>
  \<open>ci_others k\<close> is what the other goroutines do to the server while the handler is blocked for the
  \<open>k\<close>-th time. The result is the final state, all effects and the phases the handler went through;
  a run that ends in \<open>CS_resume\<close>, \<open>CS_migrate\<close> or \<open>CS_peer\<close> continues in the function of that name.
\<close>

record consumer_io =
  ci_first :: "string + frame"
  ci_now1 :: gotime
  ci_now2 :: gotime
  ci_open :: open_result
  ci_ack :: "string + frame"
  ci_now3 :: gotime
  ci_okC :: bool
  ci_okP :: bool
  ci_bytes :: int
  ci_others :: "nat \<Rightarrow> Server \<Rightarrow> Server"

type_synonym cs_run = "Server \<times> effect list \<times> cs_phase list"

definition cs_then :: "cs_run \<Rightarrow> cs_result \<Rightarrow> cs_run" where
  "cs_then r q = (case (r, q) of ((_, es, phs), (s', es', ph)) \<Rightarrow> (s', es @ es', phs @ [ph]))"

definition cs_data :: "consumer_io \<Rightarrow> cs_run \<Rightarrow> cs_run" where
  "cs_data io r = (case last (snd (snd r)) of
     CS_splicing l \<Rightarrow> cs_then r (cs_spliced l (ci_bytes io) (ci_others io 4 (fst r)))
   | CS_forwarding l a b \<Rightarrow> cs_then r (cs_forwarded l a b (ci_others io 4 (fst r)))
   | _ \<Rightarrow> r)"

definition cs_answer :: "edge_env \<Rightarrow> consumer_io \<Rightarrow> AgentConn \<Rightarrow> cs_run \<Rightarrow> cs_run option" where
  "cs_answer env io caller r = (case last (snd (snd r)) of
     CS_waitAck l \<Rightarrow> map_option (cs_data io \<circ> cs_then r)
       (cs_ack env (ci_now3 io) caller l (ci_ack io) (ci_okC io) (ci_okP io) (ci_others io 3 (fst r)))
   | _ \<Rightarrow> Some r)"

definition cs_dial :: "edge_env \<Rightarrow> consumer_io \<Rightarrow> AgentConn \<Rightarrow> cs_run \<Rightarrow> cs_run option" where
  "cs_dial env io caller r = (case last (snd (snd r)) of
     CS_opening l \<Rightarrow> cs_answer env io caller (cs_then r (cs_incoming caller l (ci_open io) (ci_others io 2 (fst r))))
   | _ \<Rightarrow> Some r)"

definition handleConsumerStream :: "edge_env \<Rightarrow> consumer_io \<Rightarrow> AgentConn \<Rightarrow> Server \<Rightarrow> cs_run option" where
  "handleConsumerStream env io caller s =
     (let r = cs_then (s, [], []) (cs_first env (ci_now1 io) caller (ci_first io) (ci_others io 0 (cs_begin s)))
      in case last (snd (snd r)) of
           CS_resolving open p2p relay \<Rightarrow>
             cs_dial env io caller (cs_then r (cs_resolve env (ci_now2 io) caller open p2p relay (ci_others io 1 (fst r))))
         | _ \<Rightarrow> Some r)"

section \<open>Required promotion\<close>

text \<open>
  The select loop of \<open>enforceRequiredPromotion\<close> over the events it receives; \<open>EnfOthers\<close> is a change of
  the table by another goroutine. \<open>Lookup\<close> may delete an expired row, so the table is threaded;
  \<open>None\<close> is a loop that still waits.
\<close>

definition RequiredPromotionTimeout :: duration where
  "RequiredPromotionTimeout = 10 * Second"

datatype enforce_event = EnfDone | EnfTick gotime | EnfDeadline | EnfOthers "migratedLRU \<Rightarrow> migratedLRU"

fun enforceRequiredPromotion :: "u64 \<Rightarrow> enforce_event list \<Rightarrow> migratedLRU \<Rightarrow> (effect list \<times> migratedLRU) option" where
  "enforceRequiredPromotion i [] l = None"
| "enforceRequiredPromotion i (EnfDone # evs) l = Some ([], l)"
| "enforceRequiredPromotion i (EnfTick now # evs) l =
     (case migrated_Lookup now i l of
        (Some _, l') \<Rightarrow> Some ([], l')
      | (None, l') \<Rightarrow> enforceRequiredPromotion i evs l')"
| "enforceRequiredPromotion i (EnfOthers f # evs) l = enforceRequiredPromotion i evs (f l)"
| "enforceRequiredPromotion i (EnfDeadline # evs) l = Some ([CloseStream ConsumerStream], l)"

end
