(* ===== verification/EdgeRun.thy ===== *)
theory EdgeRun
  imports EdgeStream
begin

text \<open>
  How a run of \<open>handleConsumerStream\<close> goes through its phases: which phase can follow which, and an
  elimination rule that lists the possible runs. The properties of the handler are proved from it.
\<close>

section \<open>Phases\<close>

lemma cs_return_simps [simp]:
  "fst (cs_return se) = bump (\<lambda>m. m\<lparr>streamActive := streamActive m - 1\<rparr>) (fst se)"
  "fst (snd (cs_return se)) = snd se @ [CloseStream ConsumerStream]"
  "snd (snd (cs_return se)) = CS_exit"
  by (simp_all add: cs_return_def)

lemma bump_simps [simp]:
  "sv_reg (bump f s) = sv_reg s" "sv_policy (bump f s) = sv_policy s" "sv_cache (bump f s) = sv_cache s"
  "sv_audit (bump f s) = sv_audit s" "sv_pool (bump f s) = sv_pool s" "sv_forward (bump f s) = sv_forward s"
  "sv_resumer (bump f s) = sv_resumer s" "sv_pairs (bump f s) = sv_pairs s" "sv_migrated (bump f s) = sv_migrated s"
  "sv_forwardResumer (bump f s) = sv_forwardResumer s" "sv_successors (bump f s) = sv_successors s"
  "sv_agents (bump f s) = sv_agents s"
  by (simp_all add: bump_def)

lemma cs_leave_eq:
  "cs_leave l allocs se = (bump (\<lambda>m. m\<lparr>streamActive := streamActive m - 1\<rparr>) (fst (cs_teardown l allocs (fst se))),
     snd se @ [CloseStream ProviderStream, CloseStream ConsumerStream], CS_exit)"
  by (simp add: cs_leave_def cs_teardown_def cs_return_def Let_def)

lemma cs_first_phase:
  assumes "cs_first env now caller fr s = (s', es, ph)"
  shows "ph = CS_exit \<or> (\<exists>f. ph = CS_resume f \<and> es = []) \<or> (\<exists>f. ph = CS_migrate f \<and> es = []) \<or>
    (\<exists>open p2p relay. ph = CS_resolving open p2p relay \<and> es = [] \<and>
       fr = Inr (Frame FrameTypeOpenStream (Some (M_OpenStream open))) \<and>
       cs_openstream env now caller open s = (s', [], ph))"
  using assms
  by (auto simp: cs_first_def cs_openstream_def cs_caller_checked_def cs_return_def frame_type_iff Let_def
      split: sum.splits option.splits message.splits if_splits prod.splits)

lemma cs_callee_phase:
  assumes "cs_callee env now caller open p2p relay prov s = (s', es, ph)"
  shows "ph = CS_exit \<or> (\<exists>m. ph = CS_opening \<lparr>cl_open = open, cl_prov = prov, cl_p2p = m, cl_relay = relay\<rparr> \<and> es = [])"
  using assms by (auto simp: cs_callee_def cs_callee_checked_def cs_return_def Let_def split: prod.splits option.splits if_splits)

lemma cs_resolve_phase:
  assumes "cs_resolve env now caller open p2p relay s = (s', es, ph)"
  shows "ph = CS_exit \<or> (\<exists>r. ph = CS_peer open r \<and> es = []) \<or>
    (\<exists>l. ph = CS_opening l \<and> es = [] \<and> cl_open l = open \<and> cl_relay l = relay \<and>
       cs_callee env now caller open p2p relay (cl_prov l) s = (s', [], ph))"
proof (rule Resolve_cases [of "en_Parse env" "en_ctrl env" "ac_uri caller" "os_TargetService open" "sv_reg s"])
  fix p
  assume "Resolve (en_Parse env) (en_ctrl env) (ac_uri caller) (os_TargetService open) (sv_reg s) = (Some p, None, None)"
  then have c: "cs_callee env now caller open p2p relay p s = (s', es, ph)" using assms by (simp add: cs_resolve_def)
  from cs_callee_phase [OF this] c show ?thesis by fastforce
next
  fix r
  assume "Resolve (en_Parse env) (en_ctrl env) (ac_uri caller) (os_TargetService open) (sv_reg s) =
    (None, Some r, Some ErrProviderRemote)"
  then show ?thesis using assms by (auto simp: cs_resolve_def cs_return_def split: if_splits)
next
  fix e
  assume "Resolve (en_Parse env) (en_ctrl env) (ac_uri caller) (os_TargetService open) (sv_reg s) = (None, None, Some e)"
    and "e \<noteq> ErrProviderRemote"
  then show ?thesis using assms by (simp add: cs_resolve_def cs_return_def)
qed

lemma cs_incoming_phase:
  assumes "cs_incoming caller l res s = (s', es, ph)"
  shows "ph = CS_exit \<or> ph = CS_waitAck l"
  using assms by (auto simp: cs_incoming_def cs_return_def Let_def split: prod.splits if_splits bool.splits)

lemma cs_ack_phase:
  assumes "cs_ack env now caller l ack okC okP s = Some (s', es, ph)"
  shows "ph = CS_exit \<or> ph = CS_splicing l \<or> (\<exists>a b. ph = CS_forwarding l a b)"
  using assms
  by (auto simp: cs_ack_def cs_forward_def cs_leave_eq Let_def
      split: sum.splits option.splits if_splits prod.splits RelayMode.splits)

section \<open>Runs\<close>

text \<open>
  The possible runs, one case per phase in which the handler may stop. \<open>s0\<close> to \<open>s4\<close> are the states
  the phases start from, \<open>x1\<close> to \<open>x4\<close> those they leave.
\<close>

inductive consumer_run :: "edge_env \<Rightarrow> consumer_io \<Rightarrow> AgentConn \<Rightarrow> Server \<Rightarrow> cs_run \<Rightarrow> bool"
  for env :: edge_env and io :: consumer_io and caller :: AgentConn and s0 :: Server where
  run_first: "cs_first env (ci_now1 io) caller (ci_first io) s0 = (x1, es1, ph1) \<Longrightarrow>
    \<nexists>open p2p relay. ph1 = CS_resolving open p2p relay \<Longrightarrow> consumer_run env io caller s0 (x1, es1, [ph1])"
| run_resolve: "cs_first env (ci_now1 io) caller (ci_first io) s0 = (x1, [], CS_resolving open p2p relay) \<Longrightarrow>
    s1 = ci_others io 1 x1 \<Longrightarrow> cs_resolve env (ci_now2 io) caller open p2p relay s1 = (x2, es2, ph2) \<Longrightarrow>
    \<nexists>l. ph2 = CS_opening l \<Longrightarrow> consumer_run env io caller s0 (x2, es2, [CS_resolving open p2p relay, ph2])"
| run_incoming: "cs_first env (ci_now1 io) caller (ci_first io) s0 = (x1, [], CS_resolving open p2p relay) \<Longrightarrow>
    s1 = ci_others io 1 x1 \<Longrightarrow> cs_resolve env (ci_now2 io) caller open p2p relay s1 = (x2, [], CS_opening l) \<Longrightarrow>
    s2 = ci_others io 2 x2 \<Longrightarrow> cs_incoming caller l (ci_open io) s2 = (x3, es3, CS_exit) \<Longrightarrow>
    consumer_run env io caller s0 (x3, es3, [CS_resolving open p2p relay, CS_opening l, CS_exit])"
| run_ack: "cs_first env (ci_now1 io) caller (ci_first io) s0 = (x1, [], CS_resolving open p2p relay) \<Longrightarrow>
    s1 = ci_others io 1 x1 \<Longrightarrow> cs_resolve env (ci_now2 io) caller open p2p relay s1 = (x2, [], CS_opening l) \<Longrightarrow>
    s2 = ci_others io 2 x2 \<Longrightarrow> cs_incoming caller l (ci_open io) s2 = (x3, es3, CS_waitAck l) \<Longrightarrow>
    s3 = ci_others io 3 x3 \<Longrightarrow>
    cs_ack env (ci_now3 io) caller l (ci_ack io) (ci_okC io) (ci_okP io) s3 = Some (x4, es4, CS_exit) \<Longrightarrow>
    consumer_run env io caller s0 (x4, es3 @ es4, [CS_resolving open p2p relay, CS_opening l, CS_waitAck l, CS_exit])"
| run_splice: "cs_first env (ci_now1 io) caller (ci_first io) s0 = (x1, [], CS_resolving open p2p relay) \<Longrightarrow>
    s1 = ci_others io 1 x1 \<Longrightarrow> cs_resolve env (ci_now2 io) caller open p2p relay s1 = (x2, [], CS_opening l) \<Longrightarrow>
    s2 = ci_others io 2 x2 \<Longrightarrow> cs_incoming caller l (ci_open io) s2 = (x3, es3, CS_waitAck l) \<Longrightarrow>
    s3 = ci_others io 3 x3 \<Longrightarrow>
    cs_ack env (ci_now3 io) caller l (ci_ack io) (ci_okC io) (ci_okP io) s3 = Some (x4, es4, CS_splicing l) \<Longrightarrow>
    s4 = ci_others io 4 x4 \<Longrightarrow> cs_spliced l (ci_bytes io) s4 = (x5, es5, CS_exit) \<Longrightarrow>
    consumer_run env io caller s0 (x5, es3 @ es4 @ es5,
      [CS_resolving open p2p relay, CS_opening l, CS_waitAck l, CS_splicing l, CS_exit])"
| run_forward: "cs_first env (ci_now1 io) caller (ci_first io) s0 = (x1, [], CS_resolving open p2p relay) \<Longrightarrow>
    s1 = ci_others io 1 x1 \<Longrightarrow> cs_resolve env (ci_now2 io) caller open p2p relay s1 = (x2, [], CS_opening l) \<Longrightarrow>
    s2 = ci_others io 2 x2 \<Longrightarrow> cs_incoming caller l (ci_open io) s2 = (x3, es3, CS_waitAck l) \<Longrightarrow>
    s3 = ci_others io 3 x3 \<Longrightarrow>
    cs_ack env (ci_now3 io) caller l (ci_ack io) (ci_okC io) (ci_okP io) s3 = Some (x4, es4, CS_forwarding l a b) \<Longrightarrow>
    s4 = ci_others io 4 x4 \<Longrightarrow> cs_forwarded l a b s4 = (x5, es5, CS_exit) \<Longrightarrow>
    consumer_run env io caller s0 (x5, es3 @ es4 @ es5,
      [CS_resolving open p2p relay, CS_opening l, CS_waitAck l, CS_forwarding l a b, CS_exit])"

lemma cs_data_phases:
  "cs_spliced l n s = (fst (cs_spliced l n s), fst (snd (cs_spliced l n s)), CS_exit)"
  "cs_forwarded l a b s = (fst (cs_forwarded l a b s), fst (snd (cs_forwarded l a b s)), CS_exit)"
  by (simp_all add: cs_spliced_def cs_forwarded_def cs_leave_eq)

lemma cs_data_exit [simp]: "snd (snd (cs_spliced l n s)) = CS_exit" "snd (snd (cs_forwarded l a b s)) = CS_exit"
  by (simp_all add: cs_spliced_def cs_forwarded_def cs_leave_eq)

lemma handleConsumerStream_run:
  assumes "handleConsumerStream env io caller s = Some r"
  shows "consumer_run env io caller (ci_others io 0 (cs_begin s)) r"
proof -
  let ?s0 = "ci_others io 0 (cs_begin s)"
  obtain x1 es1 ph1 where f: "cs_first env (ci_now1 io) caller (ci_first io) ?s0 = (x1, es1, ph1)"
    by (metis prod_cases3)
  show ?thesis
  proof (cases "\<exists>open p2p relay. ph1 = CS_resolving open p2p relay")
    case False
    then have "r = (x1, es1, [ph1])"
      using assms f by (cases ph1) (auto simp: handleConsumerStream_def cs_then_def Let_def)
    with f False show ?thesis by (auto intro: run_first)
  next
    case True
    then obtain os p2p relay where ph1: "ph1 = CS_resolving os p2p relay" "es1 = []"
      using cs_first_phase [OF f] by auto
    let ?s1 = "ci_others io 1 x1"
    obtain x2 es2 ph2 where g: "cs_resolve env (ci_now2 io) caller os p2p relay ?s1 = (x2, es2, ph2)"
      by (metis prod_cases3)
    show ?thesis
    proof (cases "\<exists>l. ph2 = CS_opening l")
      case False
      then have "r = (x2, es2, [CS_resolving os p2p relay, ph2])"
        using assms f g ph1 by (cases ph2) (auto simp: handleConsumerStream_def cs_dial_def cs_then_def Let_def)
      with f g ph1 False show ?thesis by (auto intro: run_resolve)
    next
      case True
      then obtain l where ph2: "ph2 = CS_opening l" "es2 = []" using cs_resolve_phase [OF g] by auto
      obtain x3 es3 ph3 where h: "cs_incoming caller l (ci_open io) (ci_others io 2 x2) = (x3, es3, ph3)"
        by (metis prod_cases3)
      have run: "cs_answer env io caller (x3, es3, [CS_resolving os p2p relay, CS_opening l, ph3]) = Some r"
        using assms f g h ph1 ph2 by (simp add: handleConsumerStream_def cs_dial_def cs_then_def Let_def)
      from cs_incoming_phase [OF h] show ?thesis
      proof
        assume "ph3 = CS_exit"
        then show ?thesis using run f g h ph1 ph2 by (auto simp: cs_answer_def intro: run_incoming)
      next
        assume ph3: "ph3 = CS_waitAck l"
        with run obtain x4 es4 ph4 where k: "cs_ack env (ci_now3 io) caller l (ci_ack io) (ci_okC io) (ci_okP io)
            (ci_others io 3 x3) = Some (x4, es4, ph4)"
          and r: "r = cs_data io (x4, es3 @ es4, [CS_resolving os p2p relay, CS_opening l, CS_waitAck l, ph4])"
          by (auto simp: cs_answer_def cs_then_def)
        from cs_ack_phase [OF k] show ?thesis
        proof (elim disjE exE)
          assume "ph4 = CS_exit"
          then show ?thesis using f g h k r ph1 ph2 ph3 by (auto simp: cs_data_def intro: run_ack)
        next
          assume ph4: "ph4 = CS_splicing l"
          then show ?thesis
            using run_splice [OF f [unfolded ph1] refl g [unfolded ph2] refl h [unfolded ph3] refl k [unfolded ph4] refl
                cs_data_phases(1)] r
            by (simp add: cs_data_def cs_then_def split_beta)
        next
          fix a b
          assume ph4: "ph4 = CS_forwarding l a b"
          then show ?thesis
            using run_forward [OF f [unfolded ph1] refl g [unfolded ph2] refl h [unfolded ph3] refl k [unfolded ph4] refl
                cs_data_phases(2)] r
            by (simp add: cs_data_def cs_then_def split_beta)
        qed
      qed
    qed
  qed
qed

end
