(* ===== verification/EdgeDemo.thy ===== *)
theory EdgeDemo
  imports EdgeRun
begin

text \<open>
  A small deployment on which the properties of the edge server are instantiated: two agents on one
  relay, a policy that allows everything in a given relay mode, and a forwarding plane.
\<close>

definition demo_c :: AgentConn where
  "demo_c = \<lparr>ac_id = 1, ac_uri = ''a''\<rparr>"

definition demo_p :: AgentConn where
  "demo_p = \<lparr>ac_id = 2, ac_uri = ''b''\<rparr>"

definition demo_env :: edge_env where
  "demo_env = \<lparr>en_Parse = (\<lambda>u. Some \<lparr>Tenant = ''t'', RoleRelay = False\<rparr>),
     en_ctrl = \<lparr>rpc_Resolve = (\<lambda>_. Inr [\<lparr>AgentUri = ''b'', RelayId = ''r'', RelayEndpoint = []\<rparr>]),
                rpc_RegisterService = (\<lambda>_. Inr ''id'')\<rparr>,
     en_cord = (\<lambda>_. []), en_remoteAddr = (\<lambda>_. ''10.0.0.1:99''), en_endpoint = ''10.0.0.2:9443'',
     en_marshal = (\<lambda>_. True)\<rparr>"

definition demo_rule :: "RelayMode \<Rightarrow> Rule" where
  "demo_rule m = rule_allow_all\<lparr>TargetPattern := ''*'', rule_RelayMode := m\<rparr>"

definition demo_engine :: "RelayMode \<Rightarrow> Engine" where
  "demo_engine m = Engine_Add [''a''] (demo_rule m) NewEngine"

definition demo_server :: "RelayMode \<Rightarrow> Server" where
  "demo_server m = SetSuccessors [''s:1'']
     (edge_New (RegisterAgent ''b'' demo_p (RegisterAgent ''a'' demo_c (Registry_New ''r'' ''us'')))
        (Some (demo_engine m)) None (Some NewEmitter) None (Some NewPlane) True)"

definition demo_open :: OpenStream where
  "demo_open = \<lparr>os_StreamId = 7, os_TargetService = ''svc'', os_Method = ''m''\<rparr>"

definition demo_io :: consumer_io where
  "demo_io = \<lparr>ci_first = Inr (Frame FrameTypeOpenStream (Some (M_OpenStream demo_open))), ci_now1 = 0, ci_now2 = 0,
     ci_open = Opened, ci_ack = Inr (Frame FrameTypeStreamAccept (Some M_StreamAccept)), ci_now3 = 0,
     ci_okC = True, ci_okP = True, ci_bytes = 10, ci_others = (\<lambda>_ x. x)\<rparr>"

definition demo_l :: "RelayMode \<Rightarrow> cs_locals" where
  "demo_l m = \<lparr>cl_open = demo_open, cl_prov = demo_p, cl_p2p = P2PModeAllowed, cl_relay = m\<rparr>"

definition phases_of :: "cs_run option \<Rightarrow> cs_phase list" where
  "phases_of r = (case r of None \<Rightarrow> [] | Some (_, _, phs) \<Rightarrow> phs)"

text \<open>The deployment has no decision cache, so a run never evaluates \<open>Cache_Put\<close>, whose size test has no
  executable form on function maps.\<close>

lemma Cache_Put_unevaluated [code]: "Cache_Put ord now k r m = Cache_Put ord now k r m"
  by (rule refl)

lemma demo_splice_phases:
  "phases_of (handleConsumerStream demo_env demo_io demo_c (demo_server RelayModeSplice)) =
     [CS_resolving demo_open P2PModeAllowed RelayModeSplice, CS_opening (demo_l RelayModeSplice),
      CS_waitAck (demo_l RelayModeSplice), CS_splicing (demo_l RelayModeSplice), CS_exit]"
  by code_simp

lemma demo_forward_phases:
  "phases_of (handleConsumerStream demo_env demo_io demo_c (demo_server RelayModeForward)) =
     [CS_resolving demo_open P2PModeAllowed RelayModeForward, CS_opening (demo_l RelayModeForward),
      CS_waitAck (demo_l RelayModeForward), CS_forwarding (demo_l RelayModeForward) 1 2, CS_exit]"
  by code_simp

text \<open>The run as a triple.\<close>

lemma phases_ofE:
  assumes "phases_of r = phs" and "phs \<noteq> []"
  obtains s' es where "r = Some (s', es, phs)"
  using assms by (auto simp: phases_of_def split: option.splits)

lemma demo_lost_phases:
  "phases_of (handleConsumerStream demo_env (demo_io\<lparr>ci_ack := Inl ''EOF''\<rparr>) demo_c (demo_server RelayModeSplice)) =
     [CS_resolving demo_open P2PModeAllowed RelayModeSplice, CS_opening (demo_l RelayModeSplice),
      CS_waitAck (demo_l RelayModeSplice), CS_exit]"
  by code_simp

lemma demo_splice_run:
  obtains s' es phs where "handleConsumerStream demo_env demo_io demo_c (demo_server RelayModeSplice) = Some (s', es, phs)"
    "CS_waitAck (demo_l RelayModeSplice) \<in> set phs" "last phs = CS_exit"
  by (rule phases_ofE [OF demo_splice_phases]) auto

lemma demo_forward_run:
  obtains s' es phs where "handleConsumerStream demo_env demo_io demo_c (demo_server RelayModeForward) = Some (s', es, phs)"
    "CS_waitAck (demo_l RelayModeForward) \<in> set phs" "last phs = CS_exit"
  by (rule phases_ofE [OF demo_forward_phases]) auto

lemma demo_lost_run:
  obtains s' es phs where "handleConsumerStream demo_env (demo_io\<lparr>ci_ack := Inl ''EOF''\<rparr>) demo_c
      (demo_server RelayModeSplice) = Some (s', es, phs)" "CS_waitAck (demo_l RelayModeSplice) \<in> set phs"
  by (rule phases_ofE [OF demo_lost_phases]) auto

lemma demo_engine_ok: "engine_ok (demo_engine m)"
  unfolding demo_engine_def
  by (rule Engine_ops_ok(2)) (simp add: range_order_def NewEngine_def demo_rule_def rule_allow_all_def)

lemma sv_policy_frame [simp]:
  "sv_policy (recordAudit env now c t m r s) = sv_policy s"
  "sv_policy (snd (server_evaluate env now e c t m s)) = sv_policy s"
  by (simp_all add: recordAudit_def server_evaluate_def split: option.split prod.split)

lemma sv_policy_cs_first [simp]: "sv_policy (fst (cs_first env now c fr s)) = sv_policy s"
  using sv_policy_frame(2)
  by (auto simp: cs_first_def cs_openstream_def cs_caller_checked_def cs_return_def rejectConsumer_def writeStreamReject_def Let_def
      split: sum.split option.split message.split prod.split) (metis sv_policy_frame(2) bump_simps(2) snd_conv)+

lemma demo_no_cache: "Option.is_none (sv_cache (fst (cs_first demo_env 0 demo_c (ci_first demo_io) (cs_begin (demo_server m)))))"
  by (cases m) (simp_all, code_simp+)

end
