(* ===== verification/EdgeConn.thy ===== *)
theory EdgeConn
  imports EdgeCtrl EdgeDemo
begin

text \<open>
  The life of an accepted connection (\<open>uriFromConn\<close> and \<open>serveConn\<close>, \<open>pkg/edge/edge.go\<close>): the identity
  check and HELLO exchange, the registration of the agent, and the deferred clean-up when the
  connection ends. The certificates a TLS peer presented are lists of URI SANs, leaf first.
\<close>

section \<open>The code\<close>

type_synonym tls_certs = "uri list list"

definition uriFromConn :: "tls_certs \<Rightarrow> uri option" where
  "uriFromConn certs = (case certs of
     [] \<Rightarrow> None
   | leaf # _ \<Rightarrow> (case leaf of [] \<Rightarrow> None | u # _ \<Rightarrow> Some u))"

text \<open>What comes of a connection: closed, handed to \<open>servePeerRelay\<close>, or an agent with its two loops.\<close>

datatype sc_phase = SC_closed | SC_peerRelay uri | SC_serving AgentConn

record conn_io =
  sc_certs :: tls_certs
  sc_ctrl :: bool
  sc_hello :: "string + frame"
  sc_ackOk :: bool

definition hello_uri :: "frame \<Rightarrow> uri option" where
  "hello_uri f = (case (f_Type f, f_Msg f) of (FrameTypeHello, Some (M_Hello u)) \<Rightarrow> Some u | _ \<Rightarrow> None)"

text \<open>\<open>serveConn\<close> up to the two loops, for the connection with identity \<open>n\<close>.\<close>

definition serveConn_accept :: "edge_env \<Rightarrow> nat \<Rightarrow> conn_io \<Rightarrow> Server \<Rightarrow> Server \<times> effect list \<times> sc_phase" where
  "serveConn_accept env n io s =
     (let closed = (s, [CloseConn n], SC_closed) in
      case uriFromConn (sc_certs io) of
        None \<Rightarrow> closed
      | Some u \<Rightarrow> (case en_Parse env u of
          None \<Rightarrow> closed
        | Some name \<Rightarrow>
            if RoleRelay name then (s, [], SC_peerRelay u)
            else if \<not> sc_ctrl io then closed
            else (case sc_hello io of
               Inl err \<Rightarrow> closed
             | Inr f \<Rightarrow> (case hello_uri f of
                 None \<Rightarrow> closed
               | Some claimed \<Rightarrow>
                   if claimed \<noteq> u then closed
                   else
                     let ac = \<lparr>ac_id = n, ac_uri = u\<rparr>;
                         ack = WriteCtrlUnlocked ac FrameTypeHelloAck (M_HelloAck (sv_successors s))
                     in if \<not> sc_ackOk io then (s, [ack, CloseConn n], SC_closed)
                        else (trackAgent ac (s\<lparr>sv_reg := RegisterAgent u ac (sv_reg s)\<rparr>), [ack], SC_serving ac)))))"

text \<open>The deferred calls when the stream loop ends; \<open>ids\<close> is the order in which \<open>ForgetAgent\<close> ranges over
  the agent's allocations.\<close>

definition serveConn_exit :: "edge_env \<Rightarrow> u32 list \<Rightarrow> AgentConn \<Rightarrow> Server \<Rightarrow> Server \<times> effect list" where
  "serveConn_exit env ids ac s =
     (let s1 = untrackAgent ac s in
      case UnregisterAgent (en_Parse env) (ac_uri ac) (sv_reg s1) of (r, dereg) \<Rightarrow>
        (s1\<lparr>sv_reg := r, sv_forward := map_option (\<lambda>p. snd (ForgetAgent ids (ac_uri ac) p)) (sv_forward s1)\<rparr>,
         (case dereg of None \<Rightarrow> [] | Some rq \<Rightarrow> [Deregister rq]) @ [CloseConn (ac_id ac)]))"

section \<open>Behaviour\<close>

lemma hello_uri_Hello [simp]: "hello_uri (Frame FrameTypeHello (Some (M_Hello u))) = Some u"
  by (simp add: hello_uri_def)

lemma hello_uri_Some: "hello_uri f = Some u \<longleftrightarrow> f = Frame FrameTypeHello (Some (M_Hello u))"
  by (cases f) (auto simp: hello_uri_def split: FrameType.splits option.splits message.splits)

lemma serveConn_accept_serving:
  assumes "serveConn_accept env n io s = (s', es, SC_serving ac)"
  obtains name where "ac_id ac = n" "uriFromConn (sc_certs io) = Some (ac_uri ac)" "en_Parse env (ac_uri ac) = Some name"
    "\<not> RoleRelay name" "sc_hello io = Inr (Frame FrameTypeHello (Some (M_Hello (ac_uri ac))))"
    "s' = trackAgent ac (s\<lparr>sv_reg := RegisterAgent (ac_uri ac) ac (sv_reg s)\<rparr>)"
    "es = [WriteCtrlUnlocked ac FrameTypeHelloAck (M_HelloAck (sv_successors s))]"
  using assms by (auto simp: serveConn_accept_def hello_uri_Some Let_def split: option.splits if_splits sum.splits)

lemma serveConn_accept_quiet:
  assumes "serveConn_accept env n io s = (s', es, ph)" and "\<nexists>ac. ph = SC_serving ac"
  shows "s' = s"
  using assms by (auto simp: serveConn_accept_def Let_def split: option.splits if_splits sum.splits)

section \<open>Properties\<close>

text \<open>C21: an agent is served only under the identity of its certificate. A connection becomes an agent
  exactly if the first URI of its leaf certificate parses as a non-relay name and its HELLO claims that
  very URI and is acknowledged; then the registry changes at that URI alone, and on every other
  path the server is left as it was.\<close>

theorem agent_identity:
  "\<exists>s' es ph. serveConn_accept env n io s = (s', es, ph) \<and>
     ((\<exists>ac. ph = SC_serving ac) \<longleftrightarrow>
        sc_ctrl io \<and> sc_ackOk io \<and> (\<exists>u name. uriFromConn (sc_certs io) = Some u \<and> en_Parse env u = Some name \<and>
          \<not> RoleRelay name \<and> sc_hello io = Inr (Frame FrameTypeHello (Some (M_Hello u))))) \<and>
     (case ph of
        SC_serving ac \<Rightarrow> ac_id ac = n \<and> uriFromConn (sc_certs io) = Some (ac_uri ac) \<and>
          s' = s\<lparr>sv_reg := RegisterAgent (ac_uri ac) ac (sv_reg s), sv_agents := insert ac (sv_agents s)\<rparr>
      | _ \<Rightarrow> s' = s)"
  by (auto simp: serveConn_accept_def trackAgent_def hello_uri_Some Let_def split: option.split sum.split)

text \<open>C39: an agent that reconnects before its old connection is torn down is cut off by the clean-up of
  the old one: the new, live connection is no longer found under its URI, all allocations of the
  agent are dropped, and the controller is told that the agent is gone, although the server still
  tracks the new connection.\<close>

theorem reconnect_unregisters:
  assumes "serveConn_accept env n io s = (s1, es1, SC_serving ac)" and "ac_uri old = ac_uri ac" and "ac_id old \<noteq> n"
    and "en_Parse env (ac_uri ac) = Some name" and "Tenant name \<noteq> []"
    and "serveConn_exit env ids old s1 = (s2, es2)"
  shows "LookupAgent (ac_uri ac) (sv_reg s1) = Some ac \<and> ac \<in> sv_agents s2 \<and>
    LookupAgent (ac_uri ac) (sv_reg s2) = None \<and>
    Deregister \<lparr>dr_Tenant = Tenant name, dr_AgentUri = ac_uri ac, dr_RelayId = reg_relayID (sv_reg s)\<rparr> \<in> set es2"
proof (rule serveConn_accept_serving [OF assms(1)])
  assume a: "ac_id ac = n"
    and s1: "s1 = trackAgent ac (s\<lparr>sv_reg := RegisterAgent (ac_uri ac) ac (sv_reg s)\<rparr>)"
  have "old \<noteq> ac" using a assms(3) by auto
  then show ?thesis
    using assms(2,4-6)
    by (auto simp: s1 serveConn_exit_def trackAgent_def untrackAgent_def RegisterAgent_def LookupAgent_def UnregisterAgent_def
        tenantOf_def Let_def)
qed

definition demo_conn_io :: conn_io where
  "demo_conn_io = \<lparr>sc_certs = [[''a'']], sc_ctrl = True, sc_hello = Inr (Frame FrameTypeHello (Some (M_Hello ''a''))), sc_ackOk = True\<rparr>"

theorem reconnect_unregisters_witness:
  "\<exists>s1 s2 es2. ac_uri demo_c = ''a'' \<and> LookupAgent ''a'' (sv_reg s1) = Some \<lparr>ac_id = 9, ac_uri = ''a''\<rparr> \<and>
     serveConn_exit demo_env [] demo_c s1 = (s2, es2) \<and> LookupAgent ''a'' (sv_reg s2) = None"
proof -
  let ?ac = "\<lparr>ac_id = 9, ac_uri = ''a''\<rparr>"
  obtain s1 es1 where a: "serveConn_accept demo_env 9 demo_conn_io (demo_server RelayModeSplice) = (s1, es1, SC_serving ?ac)"
    by (simp add: serveConn_accept_def demo_conn_io_def uriFromConn_def demo_env_def Let_def)
  obtain s2 es2 where e: "serveConn_exit demo_env [] demo_c s1 = (s2, es2)" by fastforce
  have "LookupAgent ''a'' (sv_reg s1) = Some ?ac \<and> LookupAgent ''a'' (sv_reg s2) = None"
    using reconnect_unregisters [OF a _ _ _ _ e, of "\<lparr>Tenant = ''t'', RoleRelay = False\<rparr>"]
    by (simp add: demo_c_def demo_env_def)
  with e show ?thesis by (auto simp: demo_c_def)
qed

end
