(* ===== verification/EdgeStreamProps.thy ===== *)
theory EdgeStreamProps
  imports EdgeDemo
begin

text \<open>
  What \<open>handleConsumerStream\<close> guarantees, whatever the other goroutines do between its phases: a
  stream is only carried if both policy checks allowed it, the consumer gets one verdict, and
  everything the handler holds is released at the end.
\<close>

section \<open>Authorisation\<close>

text \<open>A server whose policy plane is in order: the snapshot belongs to the working set of rules, and
  cached decisions are recent decisions of this engine, as it is where evaluations and events are not
  interrupted. \<open>RelayStreams\<close> has what holds when they are.\<close>

definition policy_live :: "gotime \<Rightarrow> Server \<Rightarrow> bool" where
  "policy_live now s \<longleftrightarrow> (case sv_policy s of
     None \<Rightarrow> False
   | Some e \<Rightarrow> engine_ok e \<and> (case sv_cache s of None \<Rightarrow> True | Some m \<Rightarrow> coherent now e m))"

text \<open>An allow rule of the engine applied to the request at some moment of the last \<open>CacheTTL\<close>.\<close>

definition authorised :: "Engine \<Rightarrow> gotime \<Rightarrow> string \<Rightarrow> string \<Rightarrow> string \<Rightarrow> bool" where
  "authorised e now caller target meth \<longleftrightarrow> (\<exists>t r. now - CacheTTL < t \<and> t \<le> now \<and> r \<in> ran (eng_rules e) \<and>
     applicable caller target meth (UnixMilli t) r \<and> rule_Decision r = DecisionAllow)"

lemma server_evaluate_decision:
  assumes "policy_live now s" and "sv_policy s = Some e" and "server_evaluate env now e caller target meth s = (r, s')"
  shows "\<exists>t. now - CacheTTL < t \<and> t \<le> now \<and> r = Engine_Decide e caller target meth t"
proof (cases "sv_cache s")
  case None
  then have "r = Engine_Decide e caller target meth now"
    using assms(3) by (simp add: server_evaluate_def evaluate_def)
  then show ?thesis by (intro exI [of _ now]) simp
next
  case (Some m)
  with assms(1,2) have "coherent now e m" by (simp add: policy_live_def)
  moreover obtain n c n' where "evaluate (en_cord env) now e caller target meth (Some m, n) = (r, c, n')"
    using assms(3) Some by (auto simp: server_evaluate_def split: prod.splits)
  ultimately show ?thesis by (rule evaluate_decision)
qed

lemma evaluated_authorised:
  assumes "policy_live now s" and "sv_policy s = Some e" and "server_evaluate env now e caller target meth s = (r, s')"
    and "res_Decision r \<noteq> DecisionDeny"
  shows "authorised e now caller target meth"
proof -
  obtain t where t: "now - CacheTTL < t" "t \<le> now" "r = Engine_Decide e caller target meth t"
    using server_evaluate_decision [OF assms(1-3)] by blast
  have "engine_ok e" using assms(1,2) by (simp add: policy_live_def)
  from engine_ok_decide [OF this, of caller target meth t]
  have "decide_spec (ran (eng_rules e)) caller target meth t r" using t(3) by simp
  moreover have "res_Decision r = DecisionAllow" using assms(4) by (cases "res_Decision r") auto
  ultimately show ?thesis using decide_spec_allow t(1,2) by (fastforce simp: authorised_def)
qed

lemma policy_live_bump: "policy_live now (bump f s) = policy_live now s"
  by (simp add: policy_live_def cong: option.case_cong)

lemma cs_openstream_authorised:
  assumes "cs_openstream env now caller os s = (s', es, CS_resolving os' p2p relay)" and "policy_live now s"
  shows "os' = os \<and> (\<exists>e. sv_policy s = Some e \<and> authorised e now (ac_uri caller) (os_TargetService os) (os_Method os))"
proof -
  let ?s1 = "bump (\<lambda>m. m\<lparr>streamOpens := streamOpens m + 1\<rparr>) s"
  obtain e where e: "sv_policy s = Some e" using assms(2) by (auto simp: policy_live_def split: option.splits)
  obtain dec s2 where d: "server_evaluate env now e (ac_uri caller) (os_TargetService os) (os_Method os) ?s1 = (dec, s2)"
    by fastforce
  have "res_Decision dec \<noteq> DecisionDeny" "os' = os"
    using assms(1) e d by (auto simp: cs_openstream_def cs_caller_checked_def cs_return_def Let_def split: if_splits)
  then show ?thesis
    using evaluated_authorised [OF _ _ d] assms(2) e by (auto simp: policy_live_bump)
qed

lemma cs_callee_authorised:
  assumes "cs_callee env now caller os p2p relay prov s = (s', es, CS_opening l)" and "policy_live now s"
  shows "\<exists>e. sv_policy s = Some e \<and> authorised e now (ac_uri prov) (ac_uri caller) (os_Method os)"
proof -
  obtain e where e: "sv_policy s = Some e" using assms(2) by (auto simp: policy_live_def split: option.splits)
  obtain r s1 where d: "server_evaluate env now e (ac_uri prov) (ac_uri caller) (os_Method os) s = (r, s1)"
    by fastforce
  have "res_Decision r \<noteq> DecisionDeny"
    using assms(1) e d by (auto simp: cs_callee_def cs_callee_checked_def cs_return_def Let_def split: if_splits)
  then show ?thesis using evaluated_authorised [OF assms(2) e d] e by blast
qed

text \<open>Runs that reach the provider.\<close>

lemma run_reaches_provider:
  assumes "handleConsumerStream env io caller s = Some (s', es, phs)" and "CS_waitAck l \<in> set phs"
  obtains os p2p relay x1 x2 x3 es3 where
    "ci_first io = Inr (Frame FrameTypeOpenStream (Some (M_OpenStream os)))"
    "cs_first env (ci_now1 io) caller (ci_first io) (ci_others io 0 (cs_begin s)) = (x1, [], CS_resolving os p2p relay)"
    "cs_resolve env (ci_now2 io) caller os p2p relay (ci_others io 1 x1) = (x2, [], CS_opening l)"
    "cs_incoming caller l (ci_open io) (ci_others io 2 x2) = (x3, es3, CS_waitAck l)" "cl_open l = os"
proof -
  note run = handleConsumerStream_run [OF assms(1)]
  have "\<exists>os p2p relay x1 x2 x3 es3.
    cs_first env (ci_now1 io) caller (ci_first io) (ci_others io 0 (cs_begin s)) = (x1, [], CS_resolving os p2p relay) \<and>
    cs_resolve env (ci_now2 io) caller os p2p relay (ci_others io 1 x1) = (x2, [], CS_opening l) \<and>
    cs_incoming caller l (ci_open io) (ci_others io 2 x2) = (x3, es3, CS_waitAck l)"
    using run assms(2)
  proof cases
    case (run_first ph1)
    then show ?thesis using assms(2) cs_first_phase [of env _ caller _ _ s' es ph1] by auto
  next
    case (run_resolve x1 os p2p relay s1 ph2)
    then show ?thesis using assms(2) cs_resolve_phase [of env _ caller os p2p relay s1 s' es ph2] by auto
  qed auto
  then show thesis using that cs_first_phase cs_resolve_phase by (metis cs_phase.distinct cs_phase.inject)
qed

text \<open>No stream reaches a local provider unless both policy checks allowed it. If the handler got as
  far as waiting for the provider, then an allow rule of the engine in force at the first check
  applied to (caller, service, method), and one in force at the second check applied to
  (provider, caller, method), each within the last \<open>CacheTTL\<close>.\<close>

lemma stream_authorised:
  assumes "handleConsumerStream env io caller s = Some (s', es, phs)" and "CS_waitAck l \<in> set phs"
    and "s0 = ci_others io 0 (cs_begin s)"
    and "s1 = ci_others io 1 (fst (cs_first env (ci_now1 io) caller (ci_first io) s0))"
    and "policy_live (ci_now1 io) s0" and "policy_live (ci_now2 io) s1"
  shows "(\<exists>e. sv_policy s0 = Some e \<and>
      authorised e (ci_now1 io) (ac_uri caller) (os_TargetService (cl_open l)) (os_Method (cl_open l))) \<and>
    (\<exists>e. sv_policy s1 = Some e \<and>
      authorised e (ci_now2 io) (ac_uri (cl_prov l)) (ac_uri caller) (os_Method (cl_open l)))"
proof (rule run_reaches_provider [OF assms(1,2)])
  fix os p2p relay x1 x2 x3 es3
  assume f: "cs_first env (ci_now1 io) caller (ci_first io) (ci_others io 0 (cs_begin s)) = (x1, [], CS_resolving os p2p relay)"
    and g: "cs_resolve env (ci_now2 io) caller os p2p relay (ci_others io 1 x1) = (x2, [], CS_opening l)"
    and o: "cl_open l = os"
  have s1: "s1 = ci_others io 1 x1" using assms(3,4) f by simp
  from cs_first_phase [OF f] have "cs_openstream env (ci_now1 io) caller os s0 = (x1, [], CS_resolving os p2p relay)"
    using assms(3) by auto
  from cs_openstream_authorised [OF this assms(5)] o
  have "\<exists>e. sv_policy s0 = Some e \<and>
      authorised e (ci_now1 io) (ac_uri caller) (os_TargetService (cl_open l)) (os_Method (cl_open l))" by simp
  moreover from cs_resolve_phase [OF g]
  have "cs_callee env (ci_now2 io) caller os p2p relay (cl_prov l) s1 = (x2, [], CS_opening l)" using s1 by auto
  from cs_callee_authorised [OF this assms(6)] o
  have "\<exists>e. sv_policy s1 = Some e \<and>
      authorised e (ci_now2 io) (ac_uri (cl_prov l)) (ac_uri caller) (os_Method (cl_open l))" by simp
  ultimately show ?thesis ..
qed

lemma stream_authorised_witness:
  "(\<exists>e. sv_policy (demo_server RelayModeSplice) = Some e \<and> authorised e 0 ''a'' ''svc'' ''m'') \<and>
   (\<exists>e. sv_policy (demo_server RelayModeSplice) = Some e \<and> authorised e 0 ''b'' ''a'' ''m'')"
proof -
  let ?s = "demo_server RelayModeSplice"
  let ?s1 = "fst (cs_first demo_env (ci_now1 demo_io) demo_c (ci_first demo_io) (cs_begin ?s))"
  obtain s' es phs where r: "handleConsumerStream demo_env demo_io demo_c ?s = Some (s', es, phs)"
    "CS_waitAck (demo_l RelayModeSplice) \<in> set phs" by (rule demo_splice_run)
  have p: "sv_policy ?s = Some (demo_engine RelayModeSplice)" "sv_cache ?s = None"
    by (simp_all add: demo_server_def SetSuccessors_def edge_New_def)
  have l0: "policy_live 0 (cs_begin ?s)" by (simp add: cs_begin_def policy_live_def p demo_engine_ok)
  have "sv_cache ?s1 = None" using demo_no_cache [of RelayModeSplice] by (simp add: demo_io_def Option.is_none_def)
  then have l1: "policy_live 0 ?s1" by (simp add: policy_live_def cs_begin_def p demo_engine_ok)
  have io: "ci_others demo_io k x = x" "ci_now1 demo_io = 0" "ci_now2 demo_io = 0" for k x by (simp_all add: demo_io_def)
  show ?thesis
    using stream_authorised [OF r, of "cs_begin ?s" ?s1] l0 l1
    by (simp add: io cs_begin_def p demo_l_def demo_open_def demo_c_def demo_p_def)
qed

section \<open>The verdict\<close>

text \<open>The frames that tell the consumer on its control stream what became of stream \<open>i\<close>.\<close>

definition positive :: "AgentConn \<Rightarrow> u64 \<Rightarrow> effect \<Rightarrow> bool" where
  "positive c i e \<longleftrightarrow> (\<exists>t relays. e = WriteCtrl c t (M_StreamReady i relays)) \<or>
     (\<exists>t g. e = WriteCtrl c t (M_AllocGranted g) \<and> ag_StreamId g = i)"

definition negative :: "AgentConn \<Rightarrow> u64 \<Rightarrow> effect \<Rightarrow> bool" where
  "negative c i e \<longleftrightarrow> (\<exists>t code reason. e = WriteCtrl c t (M_StreamReject code reason i))"

definition told_yes :: "AgentConn \<Rightarrow> u64 \<Rightarrow> effect list \<Rightarrow> bool" where
  "told_yes c i es \<longleftrightarrow> list_ex (positive c i) es"

definition told_no :: "AgentConn \<Rightarrow> u64 \<Rightarrow> effect list \<Rightarrow> bool" where
  "told_no c i es \<longleftrightarrow> list_ex (negative c i) es"

lemma told_append [simp]:
  "told_yes c i (es @ es') \<longleftrightarrow> told_yes c i es \<or> told_yes c i es'"
  "told_no c i (es @ es') \<longleftrightarrow> told_no c i es \<or> told_no c i es'"
  "told_yes c i [] \<longleftrightarrow> False" "told_no c i [] \<longleftrightarrow> False"
  "told_yes c i (e # es) \<longleftrightarrow> positive c i e \<or> told_yes c i es"
  "told_no c i (e # es) \<longleftrightarrow> negative c i e \<or> told_no c i es"
  by (simp_all add: told_yes_def told_no_def)

lemma rejectConsumer_eq:
  "rejectConsumer (Some c) st i code reason s =
     (bump (\<lambda>m. m\<lparr>streamRejects := streamRejects m + 1\<rparr>) s,
      WriteFrame st FrameTypeStreamReject (M_StreamReject code reason 0) #
      (if i = 0 then [] else [WriteCtrl c FrameTypeStreamReject (M_StreamReject code reason i)]))"
  by (simp add: rejectConsumer_def writeStreamReject_def)

lemma verdict_simps [simp]:
  "positive c i (WriteFrame st t m) \<longleftrightarrow> False" "negative c i (WriteFrame st t m) \<longleftrightarrow> False"
  "positive c i (CloseStream st) \<longleftrightarrow> False" "negative c i (CloseStream st) \<longleftrightarrow> False"
  "positive c i (OpenIncomingStream a m) \<longleftrightarrow> False" "negative c i (OpenIncomingStream a m) \<longleftrightarrow> False"
  "positive c i (SpawnEnforce j) \<longleftrightarrow> False" "negative c i (SpawnEnforce j) \<longleftrightarrow> False"
  "positive c i (WriteCtrl c' t (M_StreamReject code reason j)) \<longleftrightarrow> False"
  "negative c i (WriteCtrl c' t (M_StreamReject code reason j)) \<longleftrightarrow> c' = c \<and> j = i"
  "positive c i (WriteCtrl c' t (M_StreamReady j relays)) \<longleftrightarrow> c' = c \<and> j = i"
  "negative c i (WriteCtrl c' t (M_StreamReady j relays)) \<longleftrightarrow> False"
  "positive c i (WriteCtrl c' t (M_AllocGranted g)) \<longleftrightarrow> c' = c \<and> ag_StreamId g = i"
  "negative c i (WriteCtrl c' t (M_AllocGranted g)) \<longleftrightarrow> False"
  by (auto simp: positive_def negative_def)

lemma cs_openstream_told:
  assumes "cs_openstream env now c os s = (s', es, CS_exit)" and "os_StreamId os \<noteq> 0"
  shows "told_no c (os_StreamId os) es \<and> \<not> told_yes c (os_StreamId os) es"
  using assms
  by (auto simp: cs_openstream_def cs_caller_checked_def cs_return_def rejectConsumer_eq Let_def split: option.splits if_splits prod.splits)

lemma cs_resolve_told:
  assumes "cs_resolve env now c os p2p relay s = (s', es, CS_exit)" and "os_StreamId os \<noteq> 0"
  shows "told_no c (os_StreamId os) es \<and> \<not> told_yes c (os_StreamId os) es"
  using assms
  by (auto simp: cs_resolve_def cs_callee_def cs_callee_checked_def cs_return_def rejectConsumer_eq Let_def
      split: option.splits if_splits prod.splits)

lemma cs_incoming_told:
  assumes "cs_incoming c l res s = (s', es, ph)" and "os_StreamId (cl_open l) \<noteq> 0"
  shows "\<not> told_yes c (os_StreamId (cl_open l)) es \<and> (told_no c (os_StreamId (cl_open l)) es \<longleftrightarrow> ph = CS_exit)"
  using assms
  by (auto simp: cs_incoming_def OpenIncoming_def cs_return_def rejectConsumer_eq Let_def
      split: open_result.splits if_splits prod.splits bool.splits)

lemma cs_ack_told:
  assumes "cs_ack env now c l (Inr f) okC okP s = Some (s', es, ph)" and "os_StreamId (cl_open l) \<noteq> 0"
    and "f_Type f \<in> {FrameTypeStreamAccept, FrameTypeStreamReject}"
  shows "told_yes c (os_StreamId (cl_open l)) es \<longleftrightarrow> \<not> told_no c (os_StreamId (cl_open l)) es"
  using assms
  by (auto simp: cs_ack_def cs_forward_def cs_leave_eq rejectConsumer_eq granted_def Let_def
      split: option.splits if_splits prod.splits RelayMode.splits)

lemma cs_data_told:
  "cs_spliced l n s = (s', es, ph) \<Longrightarrow> \<not> told_yes c i es \<and> \<not> told_no c i es"
  "cs_forwarded l a b s = (s', es, ph) \<Longrightarrow> \<not> told_yes c i es \<and> \<not> told_no c i es"
  by (auto simp: cs_spliced_def cs_forwarded_def cs_leave_eq)



text \<open>A provider that fails to answer leaves the consumer without a verdict. If reading the provider's
  answer fails, or the answer is some other frame, the handler ends without any frame for the
  stream on the consumer's control stream.\<close>

lemma lost_answer_no_verdict:
  assumes "handleConsumerStream env io c s = Some (s', es, phs)" and "CS_waitAck l \<in> set phs"
    and "os_StreamId (cl_open l) \<noteq> 0"
    and "\<nexists>f. ci_ack io = Inr f \<and> f_Type f \<in> {FrameTypeStreamAccept, FrameTypeStreamReject}"
  shows "\<not> told_yes c (os_StreamId (cl_open l)) es \<and> \<not> told_no c (os_StreamId (cl_open l)) es"
proof -
  have ack: "ph = CS_exit \<and> es' = [CloseStream ProviderStream, CloseStream ConsumerStream]"
    if "cs_ack env now c l (ci_ack io) okC okP x = Some (x', es', ph)" for now okC okP x x' es' ph
    using that assms(4) by (auto simp: cs_ack_def cs_leave_eq Let_def split: sum.splits if_splits)
  from handleConsumerStream_run [OF assms(1)] assms(2) show ?thesis
  proof cases
    case (run_first ph1)
    then show ?thesis using assms(2) cs_first_phase [OF run_first(2)] by auto
  next
    case (run_resolve x1 os p2p relay s1 ph2)
    then show ?thesis using assms(2) cs_resolve_phase [of env _ c os p2p relay s1 s' es ph2] by auto
  next
    case (run_ack x1 os p2p relay s1 x2 l' s2 x3 es3 s3 es4)
    then have l: "l' = l" using assms(2) by auto
    from ack [OF run_ack(9) [unfolded l]] show ?thesis
      using cs_incoming_told [OF run_ack(7)] run_ack(1) assms(3) l by auto
  next
    case (run_splice x1 os p2p relay s1 x2 l' s2 x3 es3 s3 x4 es4 s4 es5)
    then have l: "l' = l" using assms(2) by auto
    from ack [OF run_splice(9) [unfolded l]] show ?thesis by simp
  next
    case (run_forward x1 os p2p relay s1 x2 l' s2 x3 es3 s3 x4 es4 a b s4 es5)
    then have l: "l' = l" using assms(2) by auto
    from ack [OF run_forward(9) [unfolded l]] show ?thesis by simp
  qed auto
qed

lemma lost_answer_no_verdict_witness:
  "\<exists>s' es phs. handleConsumerStream demo_env (demo_io\<lparr>ci_ack := Inl ''EOF''\<rparr>) demo_c (demo_server RelayModeSplice) =
      Some (s', es, phs) \<and> \<not> told_yes demo_c 7 es \<and> \<not> told_no demo_c 7 es"
proof -
  obtain s' es phs where r: "handleConsumerStream demo_env (demo_io\<lparr>ci_ack := Inl ''EOF''\<rparr>) demo_c
      (demo_server RelayModeSplice) = Some (s', es, phs)" "CS_waitAck (demo_l RelayModeSplice) \<in> set phs"
    by (rule demo_lost_run)
  from lost_answer_no_verdict [OF r] r(1) show ?thesis by (simp add: demo_l_def demo_open_def)
qed

section \<open>Release\<close>

lemma cs_leave_releases:
  assumes "cs_leave l allocs se = (s', es, ph)"
  shows "(os_StreamId (cl_open l) = 0 \<or> sv_pairs s' (os_StreamId (cl_open l)) = None) \<and>
    CloseStream ProviderStream \<in> set es \<and> last es = CloseStream ConsumerStream \<and>
    (\<forall>a b p. allocs = Some (a, b) \<and> sv_forward s' = Some p \<longrightarrow> OwnerOf a p = None \<and> OwnerOf b p = None)"
proof -
  have f: "OwnerOf a (Forget a q) = None" "OwnerOf b q = None \<Longrightarrow> OwnerOf b (Forget a q) = None" for a b q
    by (auto simp: OwnerOf_def Forget_def drop_alloc_def drop_handshake_def split: option.splits)
  show ?thesis
    using assms f by (auto simp: cs_leave_eq cs_teardown_def forgetPair_def Let_def split: option.splits if_splits)
qed

text \<open>The allocations a list of effects grants.\<close>

definition grants :: "effect list \<Rightarrow> u32 set" where
  "grants es = {ag_MyAllocation g | g. \<exists>c t. WriteCtrl c t (M_AllocGranted g) \<in> set es}"

lemma grants_simps [simp]:
  "grants (es @ es') = grants es \<union> grants es'" "grants [] = {}"
  "grants (WriteCtrl c t (M_AllocGranted g) # es) = insert (ag_MyAllocation g) (grants es)"
  "grants (WriteCtrl c t (M_StreamReady i relays) # es) = grants es"
  "grants (WriteCtrl c t (M_StreamReject code reason i) # es) = grants es"
  "grants (WriteFrame st t m # es) = grants es" "grants (CloseStream st # es) = grants es"
  "grants (OpenIncomingStream a m # es) = grants es" "grants (SpawnEnforce i # es) = grants es"
  by (auto simp: grants_def)

lemma cs_incoming_grants: "cs_incoming c l res s = (s', es, ph) \<Longrightarrow> grants es = {}"
  by (auto simp: cs_incoming_def OpenIncoming_def cs_return_def rejectConsumer_eq Let_def
      split: open_result.splits if_splits prod.splits bool.splits)

lemma cs_ack_exit:
  assumes "cs_ack env now c l ack okC okP s = Some (s', es, CS_exit)"
  shows "\<exists>allocs se. cs_leave l allocs se = (s', es, CS_exit) \<and>
    (grants es = {} \<or> (\<exists>a b. allocs = Some (a, b) \<and> grants es \<subseteq> {a, b}))"
  using assms
  by (auto simp: cs_ack_def cs_forward_def Let_def cs_leave_eq rejectConsumer_eq granted_def
      split: sum.splits option.splits if_splits prod.splits RelayMode.splits)

lemma cs_ack_forwarding:
  assumes "cs_ack env now c l ack okC okP s = Some (s', es, CS_forwarding l a b)"
  shows "grants es \<subseteq> {a, b}"
  using assms
  by (auto simp: cs_ack_def cs_forward_def Let_def cs_leave_eq granted_def
      split: sum.splits option.splits if_splits prod.splits RelayMode.splits)

lemma cs_ack_splicing:
  assumes "cs_ack env now c l ack okC okP s = Some (s', es, CS_splicing l)"
  shows "grants es = {}"
  using assms
  by (auto simp: cs_ack_def cs_forward_def Let_def cs_leave_eq
      split: sum.splits option.splits if_splits prod.splits RelayMode.splits)

lemma leave_after_grants:
  assumes "cs_leave l allocs se = (s', es', ph)" and "es = es0 @ es'"
    and "grants es = {} \<or> (\<exists>a b. allocs = Some (a, b) \<and> grants es \<subseteq> {a, b})"
  shows "(os_StreamId (cl_open l) = 0 \<or> sv_pairs s' (os_StreamId (cl_open l)) = None) \<and>
    CloseStream ProviderStream \<in> set es \<and> last es = CloseStream ConsumerStream \<and>
    (\<forall>p a. sv_forward s' = Some p \<and> a \<in> grants es \<longrightarrow> OwnerOf a p = None)"
proof -
  note rel = cs_leave_releases [OF assms(1)]
  have "es' \<noteq> []" using assms(1) by (auto simp: cs_leave_eq)
  moreover have "OwnerOf a p = None" if "sv_forward s' = Some p" "a \<in> grants es" for p a
    using assms(3) that rel by blast
  ultimately show ?thesis using rel assms(2) by auto
qed



section \<open>Stream ids\<close>

text \<open>A stream id in use by another pair is never taken over. The new stream is rejected with code 409
  on the data and the control stream, the provider's fresh stream is closed, and the recorded pairs
  stay as they are.\<close>

lemma collision_rejected:
  assumes "sv_pairs s (os_StreamId (cl_open l)) = Some p" and "p \<noteq> pair_of c l" and "os_StreamId (cl_open l) \<noteq> 0"
    and "cs_incoming c l Opened s = (s', es, ph)"
  shows "ph = CS_exit \<and> sv_pairs s' = sv_pairs s \<and>
    WriteCtrl c FrameTypeStreamReject (M_StreamReject 409 ''stream id collision'' (os_StreamId (cl_open l))) \<in> set es \<and>
    CloseStream ProviderStream \<in> set es \<and> CloseStream ConsumerStream \<in> set es"
  using assms
  by (auto simp: cs_incoming_def OpenIncoming_def recordPair_def rejectConsumer_eq cs_return_def Let_def)

lemma collision_rejected_witness:
  "sv_pairs (fst (cs_incoming demo_p (demo_l RelayModeSplice) Opened
      ((demo_server RelayModeSplice)\<lparr>sv_pairs := [7 \<mapsto> pair_of demo_c (demo_l RelayModeSplice)]\<rparr>))) 7 =
    Some (pair_of demo_c (demo_l RelayModeSplice))"
proof -
  let ?s = "(demo_server RelayModeSplice)\<lparr>sv_pairs := [7 \<mapsto> pair_of demo_c (demo_l RelayModeSplice)]\<rparr>"
  obtain s' es ph where r: "cs_incoming demo_p (demo_l RelayModeSplice) Opened ?s = (s', es, ph)" by (rule prod_cases3)
  show ?thesis
    using collision_rejected [OF _ _ _ r, of "pair_of demo_c (demo_l RelayModeSplice)"] r
    by (simp add: demo_l_def demo_open_def pair_of_def demo_c_def demo_p_def)
qed

text \<open>A second stream of the same two agents under an id that is still in use is let in, and the end
  of either removes the pair of both: the surviving stream's control frames are no longer routed.\<close>

lemma duplicate_id_loses_route:
  assumes "i = os_StreamId (cl_open l)" and "i \<noteq> 0" and "sv_pairs s i = Some (pair_of c l)"
    and "ac_uri c \<noteq> []" and "ac_uri (cl_prov l) \<noteq> []"
  shows "snd (snd (cs_incoming c l Opened s)) = CS_waitAck l \<and>
    peerOf i (ac_uri c) (fst (cs_incoming c l Opened s)) = ac_uri (cl_prov l) \<and>
    peerOf i (ac_uri c) (fst (cs_spliced l n (fst (cs_incoming c l Opened s)))) = []"
proof -
  have "cs_incoming c l Opened s = (s\<lparr>sv_pairs := (sv_pairs s)(i \<mapsto> pair_of c l)\<rparr>, fst (snd (cs_incoming c l Opened s)), CS_waitAck l)"
    using assms(1-3) by (simp add: cs_incoming_def OpenIncoming_def recordPair_def Let_def)
  then have "fst (cs_incoming c l Opened s) = s\<lparr>sv_pairs := (sv_pairs s)(i \<mapsto> pair_of c l)\<rparr>"
    "snd (snd (cs_incoming c l Opened s)) = CS_waitAck l" by (metis fst_conv, metis snd_conv)
  then show ?thesis
    using assms(1,2)
    by (simp add: peerOf_def pair_of_def cs_spliced_def cs_leave_eq cs_teardown_def forgetPair_def)
qed

lemma duplicate_id_loses_route_witness:
  "\<exists>s s'. peerOf 7 ''a'' s = ''b'' \<and> peerOf 7 ''a'' s' = [] \<and>
     s' = fst (cs_spliced (demo_l RelayModeSplice) 0 s)"
  using duplicate_id_loses_route [of 7 "demo_l RelayModeSplice"
      "(demo_server RelayModeSplice)\<lparr>sv_pairs := [7 \<mapsto> pair_of demo_c (demo_l RelayModeSplice)]\<rparr>" demo_c 0]
  by (auto simp: demo_l_def demo_open_def demo_c_def demo_p_def)

end
