(* ===== verification/EdgeResume.thy ===== *)
theory EdgeResume
  imports EdgeStreamProps
begin

text \<open>
  Streams that come back (\<open>pkg/edge/edge.go\<close>): \<open>handleResumeHalf\<close> for STREAM_RESUME after a relay
  failure and \<open>handleMigrateToRelay\<close> for a demotion from P2P, which both park a half in the resume
  matcher and, on the side that completes the pair, run \<open>splicePair\<close>. A handler is cut at its
  receive on the matched channel and at the splice; \<open>r\<close> is the reference of its half and
  \<open>OwnStream\<close> its stream, \<open>MatchedStream\<close> the one of the other half.
\<close>

section \<open>The code\<close>

datatype rh_phase = RH_exit | RH_recv | RH_waitDone | RH_splicing ref

text \<open>\<open>handleResumeHalf\<close> up to the receive.\<close>

definition handleResumeHalf_submit :: "gotime \<Rightarrow> ref \<Rightarrow> uri \<Rightarrow> frame \<Rightarrow> Server \<Rightarrow> Server \<times> effect list \<times> rh_phase" where
  "handleResumeHalf_submit now r callerURI f s = (case f_Msg f of
     Some (M_StreamResume i my ack) \<Rightarrow>
       (s\<lparr>sv_resumer := resume_Submit now r (new_half i callerURI my ack) (sv_resumer s)\<rparr>, [], RH_recv)
   | _ \<Rightarrow> (s, [CloseStream OwnStream], RH_exit))"

text \<open>\<open>splicePair\<close> up to the splice, and after it: \<open>n\<close> is the byte count. Closing a nil or closed
  \<open>done\<close> channel panics (\<open>None\<close>).\<close>

definition splicePair_begin :: "ref \<Rightarrow> ref \<Rightarrow> Server \<Rightarrow> Server" where
  "splicePair_begin self peer s =
     (let hs = rm_half (sv_resumer s) in
      replacePair (hs_id (hs self)) \<lparr>consumerURI = hs_uri (hs self), providerURI = hs_uri (hs peer)\<rparr> s)"

definition close_done :: "ref \<Rightarrow> Server \<Rightarrow> Server option" where
  "close_done r s =
     (let m = sv_resumer s; h = rm_half m r in
      if hs_done h = Some False
      then Some (s\<lparr>sv_resumer := m\<lparr>rm_half := (rm_half m)(r := h\<lparr>hs_done := Some True\<rparr>)\<rparr>\<rparr>)
      else None)"

definition splicePair_end :: "ref \<Rightarrow> ref \<Rightarrow> int \<Rightarrow> Server \<Rightarrow> (Server \<times> effect list \<times> rh_phase) option" where
  "splicePair_end self peer n s =
     map_option (\<lambda>s'. (s', [CloseStream OwnStream, CloseStream MatchedStream], RH_exit))
       (close_done peer (forgetPair (hs_id (rm_half (sv_resumer s) self))
          (bump (\<lambda>m. m\<lparr>bytesForwarded := bytesForwarded m + n\<rparr>) s)))"

text \<open>The echo of one half's payload onto a stream.\<close>

definition echo :: "stream_ref \<Rightarrow> u64 \<Rightarrow> halfStream \<Rightarrow> effect" where
  "echo dst i src = WriteFrame dst FrameTypeStreamResume
     (M_StreamResume i (word_of_int (hs_myPos src)) (word_of_int (hs_peerAckPos src)))"

text \<open>\<open>handleResumeHalf\<close> after the receive; \<open>matched\<close> is what the channel gave, \<open>None\<close> once it is closed.\<close>

definition handleResumeHalf_matched :: "ref \<Rightarrow> ref option \<Rightarrow> Server \<Rightarrow> Server \<times> effect list \<times> rh_phase" where
  "handleResumeHalf_matched r matched s =
     (let hs = rm_half (sv_resumer s); half = hs r in
      case matched of
        None \<Rightarrow> (s, [CloseStream OwnStream], RH_exit)
      | Some p \<Rightarrow>
          if \<not> hs_splicer half then (s, [], RH_waitDone)
          else (splicePair_begin r p s,
                [echo OwnStream (hs_id half) (hs p), echo MatchedStream (hs_id half) half], RH_splicing p))"

text \<open>\<open>handleMigrateToRelay\<close>: the same with the table of migrated streams and without the echoes. \<open>prior\<close>
  is whether the table knew the stream.\<close>

definition handleMigrateToRelay_submit ::
  "gotime \<Rightarrow> gotime \<Rightarrow> ref \<Rightarrow> uri \<Rightarrow> frame \<Rightarrow> Server \<Rightarrow> Server \<times> effect list \<times> rh_phase \<times> bool" where
  "handleMigrateToRelay_submit now now' r callerURI f s = (case f_Msg f of
     Some (M_MigrateToRelay i my ack) \<Rightarrow>
       (case migrated_Lookup now i (sv_migrated s) of (prior, l) \<Rightarrow>
          let s1 = bump (\<lambda>m. m\<lparr>streamMigratedRelay := streamMigratedRelay m + 1\<rparr>) (s\<lparr>sv_migrated := l\<rparr>) in
          (s1\<lparr>sv_resumer := resume_Submit now' r (new_half i callerURI my ack) (sv_resumer s1)\<rparr>, [], RH_recv, prior \<noteq> None))
   | _ \<Rightarrow> (s, [CloseStream OwnStream], RH_exit, False))"

definition handleMigrateToRelay_matched :: "ref \<Rightarrow> bool \<Rightarrow> ref option \<Rightarrow> Server \<Rightarrow> Server \<times> effect list \<times> rh_phase" where
  "handleMigrateToRelay_matched r prior matched s =
     (let half = rm_half (sv_resumer s) r in
      case matched of
        None \<Rightarrow> (s, [CloseStream OwnStream], RH_exit)
      | Some p \<Rightarrow>
          let s1 = (if prior then s\<lparr>sv_migrated := migrated_Discard (hs_id half) (sv_migrated s)\<rparr> else s) in
          if \<not> hs_splicer half then (s1, [], RH_waitDone)
          else (splicePair_begin r p s1, [], RH_splicing p))"

text \<open>The end of the wait on \<open>done\<close> of the half that does not splice.\<close>

definition rh_waited :: "ref \<Rightarrow> Server \<Rightarrow> (Server \<times> effect list \<times> rh_phase) option" where
  "rh_waited r s = (if hs_done (rm_half (sv_resumer s) r) = Some True then Some (s, [], RH_exit) else None)"

section \<open>A pair of halves\<close>

text \<open>The two halves once both are submitted: the parked one knows the other, the later one splices.\<close>

lemma submit_both:
  assumes "rm_pending m i = None" and "r1 \<noteq> r2"
    and "m2 = resume_Submit t2 r2 (new_half i v my2 ack2) (resume_Submit t1 r1 (new_half i u my1 ack1) m)"
  shows "rm_half m2 r1 = (new_half i u my1 ack1)\<lparr>hs_arrivedAt := t1, hs_done := Some False, hs_matched := [r2]\<rparr>"
    and "rm_half m2 r2 = (new_half i v my2 ack2)\<lparr>hs_arrivedAt := t2, hs_splicer := True, hs_matched := [r1]\<rparr>"
    and "rm_pending m2 = rm_pending m"
  using assms by (auto simp: resume_Submit_def new_half_def)

lemma peerOf_replacePair:
  "i \<noteq> 0 \<Longrightarrow> peerOf i w (replacePair i p s) =
     (if w = consumerURI p then providerURI p else if w = providerURI p then consumerURI p else [])"
  by (simp add: peerOf_def replacePair_def)

lemma resume_frames [simp]:
  "sv_pairs (s\<lparr>sv_resumer := m\<rparr>) = sv_pairs s" "sv_resumer (replacePair i p s) = sv_resumer s"
  "sv_resumer (forgetPair i s) = sv_resumer s"
  by (simp_all add: replacePair_def forgetPair_def)

text \<open>The two runs of \<open>handleResumeHalf\<close> up to the splice, in one function: the parked half first.\<close>

definition resume_both :: "gotime \<Rightarrow> gotime \<Rightarrow> ref \<Rightarrow> ref \<Rightarrow> uri \<Rightarrow> uri \<Rightarrow> frame \<Rightarrow> frame \<Rightarrow> Server \<Rightarrow> Server \<times> effect list \<times> rh_phase" where
  "resume_both t1 t2 r1 r2 u v f1 f2 s =
     (let s2 = fst (handleResumeHalf_submit t2 r2 v f2 (fst (handleResumeHalf_submit t1 r1 u f1 s))) in
      handleResumeHalf_matched r2 (Some r1) s2)"

lemma resume_both_eq:
  assumes "rm_pending (sv_resumer s) i = None" and "r1 \<noteq> r2"
  shows "resume_both t1 t2 r1 r2 u v (Frame FrameTypeStreamResume (Some (M_StreamResume i my1 ack1)))
      (Frame FrameTypeStreamResume (Some (M_StreamResume i my2 ack2))) s =
    (replacePair i \<lparr>consumerURI = v, providerURI = u\<rparr>
       (s\<lparr>sv_resumer := resume_Submit t2 r2 (new_half i v my2 ack2) (resume_Submit t1 r1 (new_half i u my1 ack1) (sv_resumer s))\<rparr>),
     [WriteFrame OwnStream FrameTypeStreamResume (M_StreamResume i my1 ack1),
      WriteFrame MatchedStream FrameTypeStreamResume (M_StreamResume i my2 ack2)], RH_splicing r1)"
  using submit_both [OF assms refl]
  by (simp add: resume_both_def handleResumeHalf_submit_def handleResumeHalf_matched_def splicePair_begin_def echo_def
      new_half_def)

section \<open>Properties\<close>

text \<open>C32: a resumed pair of streams is stitched as its two agents asked. When two agents have sent
  STREAM_RESUME for a stream nobody else is parked on, each reads back the very payload the other
  one sent, for all 64-bit positions in spite of the signed counters in between, and control frames
  are routed between the two from then on.\<close>

theorem resume_echo_exact:
  assumes "rm_pending (sv_resumer s) i = None" and "r1 \<noteq> r2" and "i \<noteq> 0" and "u \<noteq> v"
    and "resume_both t1 t2 r1 r2 u v (Frame FrameTypeStreamResume (Some (M_StreamResume i my1 ack1)))
      (Frame FrameTypeStreamResume (Some (M_StreamResume i my2 ack2))) s = (s', es, ph)"
  shows "es = [WriteFrame OwnStream FrameTypeStreamResume (M_StreamResume i my1 ack1),
      WriteFrame MatchedStream FrameTypeStreamResume (M_StreamResume i my2 ack2)] \<and> ph = RH_splicing r1 \<and>
    peerOf i u s' = v \<and> peerOf i v s' = u"
  using assms by (auto simp: resume_both_eq peerOf_replacePair)

theorem resume_echo_exact_witness:
  "fst (snd (resume_both 0 1 0 1 ''a'' ''b'' (Frame FrameTypeStreamResume (Some (M_StreamResume 7 (2 ^ 63) 5)))
      (Frame FrameTypeStreamResume (Some (M_StreamResume 7 9 (2 ^ 64 - 1)))) (demo_server RelayModeSplice))) =
    [WriteFrame OwnStream FrameTypeStreamResume (M_StreamResume 7 (2 ^ 63) 5),
     WriteFrame MatchedStream FrameTypeStreamResume (M_StreamResume 7 9 (2 ^ 64 - 1))]"
proof -
  let ?f = "\<lambda>my ack. Frame FrameTypeStreamResume (Some (M_StreamResume 7 my ack))"
  obtain s' es ph where r: "resume_both 0 1 0 1 ''a'' ''b'' (?f (2 ^ 63) 5) (?f 9 (2 ^ 64 - 1)) (demo_server RelayModeSplice) =
    (s', es, ph)" by (rule prod_cases3)
  have "rm_pending (sv_resumer (demo_server RelayModeSplice)) 7 = None"
    by (simp add: demo_server_def SetSuccessors_def edge_New_def newResumeMatcher_def)
  from resume_echo_exact [OF this _ _ _ r] show ?thesis unfolding r by simp
qed

text \<open>A resume takes the stream id away from whoever uses it. Two agents that send STREAM_RESUME for the
  id of a stream between two other agents are paired, the other two lose the route for their
  control frames at once, and the end of the resumed splice leaves the id unrecorded although their
  stream still runs.\<close>

lemma resume_takes_over:
  assumes "rm_pending (sv_resumer s) i = None" and "r1 \<noteq> r2" and "i \<noteq> 0" and "sv_pairs s i = Some p"
    and "consumerURI p \<notin> {u, v}" and "providerURI p \<notin> {u, v}"
    and "resume_both t1 t2 r1 r2 u v (Frame FrameTypeStreamResume (Some (M_StreamResume i my1 ack1)))
      (Frame FrameTypeStreamResume (Some (M_StreamResume i my2 ack2))) s = (s', es, ph)"
  shows "ph = RH_splicing r1 \<and> peerOf i (consumerURI p) s' = [] \<and> peerOf i (providerURI p) s' = [] \<and>
    (\<exists>s''. splicePair_end r2 r1 n s' = Some (s'', [CloseStream OwnStream, CloseStream MatchedStream], RH_exit) \<and>
       sv_pairs s'' i = None)"
proof -
  have e: "s' = replacePair i \<lparr>consumerURI = v, providerURI = u\<rparr>
       (s\<lparr>sv_resumer := resume_Submit t2 r2 (new_half i v my2 ack2) (resume_Submit t1 r1 (new_half i u my1 ack1) (sv_resumer s))\<rparr>)"
    "ph = RH_splicing r1"
    using assms(7) by (auto simp: resume_both_eq [OF assms(1,2)])
  have "hs_id (rm_half (sv_resumer s') r2) = i" "hs_done (rm_half (sv_resumer s') r1) = Some False"
    using submit_both [OF assms(1,2) refl, of t2 v my2 ack2 t1 u my1 ack1] by (simp_all add: e new_half_def)
  then have "\<exists>s''. splicePair_end r2 r1 n s' = Some (s'', [CloseStream OwnStream, CloseStream MatchedStream], RH_exit) \<and>
       sv_pairs s'' i = None"
    using assms(3) by (auto simp: splicePair_end_def close_done_def forgetPair_def bump_def Let_def)
  then show ?thesis using e assms(3,5,6) by (simp add: peerOf_replacePair)
qed

lemma resume_takes_over_witness:
  "\<exists>s' es ph. resume_both 0 0 0 1 ''x'' ''y'' (Frame FrameTypeStreamResume (Some (M_StreamResume 7 0 0)))
      (Frame FrameTypeStreamResume (Some (M_StreamResume 7 0 0)))
      ((demo_server RelayModeSplice)\<lparr>sv_pairs := [7 \<mapsto> pair_of demo_c (demo_l RelayModeSplice)]\<rparr>) = (s', es, ph) \<and>
    peerOf 7 ''a'' s' = [] \<and> peerOf 7 ''b'' s' = []"
proof -
  let ?s = "(demo_server RelayModeSplice)\<lparr>sv_pairs := [7 \<mapsto> pair_of demo_c (demo_l RelayModeSplice)]\<rparr>"
  let ?f = "Frame FrameTypeStreamResume (Some (M_StreamResume 7 0 0))"
  obtain s' es ph where r: "resume_both 0 0 0 1 ''x'' ''y'' ?f ?f ?s = (s', es, ph)" by (rule prod_cases3)
  have "rm_pending (sv_resumer ?s) 7 = None"
    by (simp add: demo_server_def SetSuccessors_def edge_New_def newResumeMatcher_def)
  from resume_takes_over [OF this _ _ _ _ _ r, of "pair_of demo_c (demo_l RelayModeSplice)"] r
  show ?thesis by (simp add: pair_of_def demo_c_def demo_p_def demo_l_def)
qed

end
