(* ===== verification/EdgeCtrlProps.thy ===== *)
theory EdgeCtrlProps
  imports EdgeCtrl EdgeDemo
begin

text \<open>
  What an agent can and cannot do through its control stream: its frames reach only the other end of
  a stream it takes part in, and they leave the rest of the server alone, except for the table of
  migrated streams, which any agent can write.
\<close>

section \<open>Routing\<close>

lemma peerOf_cases:
  assumes "peerOf i u s = v" and "v \<noteq> []"
  obtains p where "sv_pairs s i = Some p" "u = consumerURI p" "v = providerURI p"
    | p where "sv_pairs s i = Some p" "u = providerURI p" "v = consumerURI p"
  using assms by (auto simp: peerOf_def split: option.splits if_splits)

lemma route_to_peer_iff:
  "ForwardRaw to g \<in> set (route_to_peer env from i f s) \<longleftrightarrow>
     g = f \<and> en_marshal env f \<and> peerOf i (ac_uri from) s \<noteq> [] \<and> LookupAgent (peerOf i (ac_uri from) s) (sv_reg s) = Some to"
  by (auto simp: route_to_peer_def Let_def split: option.splits)

text \<open>The stream id a routed frame carries.\<close>

definition routed_id :: "frame \<Rightarrow> u64 option" where
  "routed_id f = (case f_Msg f of
     Some (M_CandidateOffer i) \<Rightarrow> Some i
   | Some (M_CandidateAnswer i) \<Rightarrow> Some i
   | Some (M_StreamCheckpoint i) \<Rightarrow> Some i
   | _ \<Rightarrow> None)"

text \<open>The frame of each handler, by the parts of the server it may write.\<close>

lemma handleRegister_effects:
  "handleRegister env ac f s = (s', es) \<Longrightarrow> s' = s \<and> ForwardRaw to g \<notin> set es"
  by (auto simp: handleRegister_def split: option.splits message.splits sum.splits)

lemma handleObservedAddrQuery_effects:
  "handleObservedAddrQuery env ac f s = (s', es) \<Longrightarrow> s' = s \<and> ForwardRaw to g \<notin> set es"
  by (auto simp: handleObservedAddrQuery_def split: option.splits message.splits)

lemma forward_frames_effects:
  "forwardCandidate env ac f s = (s', es) \<Longrightarrow> s' = s \<and> (ForwardRaw to g \<in> set es \<longrightarrow>
     (\<exists>i. routed_id f = Some i \<and> ForwardRaw to g \<in> set (route_to_peer env ac i f s)))"
  "forwardCheckpoint env ac f s = (s', es) \<Longrightarrow> s' = s \<and> (ForwardRaw to g \<in> set es \<longrightarrow>
     (\<exists>i. routed_id f = Some i \<and> ForwardRaw to g \<in> set (route_to_peer env ac i f s)))"
  by (auto simp: forwardCandidate_def forwardCheckpoint_def routed_id_def split: FrameType.splits option.splits message.splits)

lemma handleMigrateToP2P_effects:
  assumes "handleMigrateToP2P now now' ac f s = (s', es)"
  shows "es = [] \<and> sv_reg s' = sv_reg s \<and> sv_pairs s' = sv_pairs s \<and> sv_agents s' = sv_agents s \<and>
    sv_policy s' = sv_policy s \<and> sv_cache s' = sv_cache s \<and> sv_forward s' = sv_forward s \<and> sv_pool s' = sv_pool s \<and>
    sv_audit s' = sv_audit s"
  using assms by (auto simp: handleMigrateToP2P_def Let_def split: option.splits message.splits)

lemma handleForwardResume_effects:
  assumes "handleForwardResume ac f s = (s', es)"
  shows "ForwardRaw to g \<notin> set es \<and> sv_reg s' = sv_reg s \<and> sv_pairs s' = sv_pairs s \<and> sv_agents s' = sv_agents s \<and>
    sv_policy s' = sv_policy s \<and> sv_cache s' = sv_cache s \<and> sv_forward s' = sv_forward s \<and> sv_pool s' = sv_pool s \<and>
    sv_audit s' = sv_audit s"
  using assms by (auto simp: handleForwardResume_def split: option.splits message.splits)

text \<open>What arming may change in the plane: the handshake of one allocation of the owner.\<close>

definition others_kept :: "uri \<Rightarrow> Plane \<Rightarrow> Plane \<Rightarrow> bool" where
  "others_kept u p q \<longleftrightarrow> (\<forall>i. OwnerOf i q = OwnerOf i p \<and>
     (OwnerOf i p \<noteq> Some u \<longrightarrow> byAlloc q i = byAlloc p i \<and> pending q i = pending p i \<and> queued q i = queued p i))"

lemma others_kept_refl [simp]: "others_kept u p p"
  by (simp add: others_kept_def)

lemma ArmPending_others: "others_kept u p (snd (ArmPending now i u n p))"
  by (auto simp: others_kept_def ArmPending_def OwnerOf_def bind_src_def Let_def split: option.split)

lemma handleForwardRegister_effects:
  assumes "handleForwardRegister now ac f s = (s', es)"
  shows "ForwardRaw to g \<notin> set es \<and> sv_reg s' = sv_reg s \<and> sv_pairs s' = sv_pairs s \<and> sv_agents s' = sv_agents s \<and>
    sv_policy s' = sv_policy s \<and> sv_cache s' = sv_cache s \<and> sv_pool s' = sv_pool s \<and> sv_audit s' = sv_audit s \<and>
    rel_option (others_kept (ac_uri ac)) (sv_forward s) (sv_forward s')"
proof (cases "\<exists>i n p. f_Msg f = Some (M_ForwardRegister i n) \<and> sv_forward s = Some p \<and> length n = PunchNonceSize")
  case True
  then obtain i n p where f: "f_Msg f = Some (M_ForwardRegister i n)" "sv_forward s = Some p" "length n = PunchNonceSize"
    by blast
  obtain err q where "ArmPending now i (ac_uri ac) n p = (err, q)" by fastforce
  then show ?thesis
    using ArmPending_others [of "ac_uri ac" p now i n] assms f
    by (auto simp: handleForwardRegister_def replyForwardRegisterReject_def split: option.splits planeErr.splits)
next
  case False
  then have "s' = s \<and> ForwardRaw to g \<notin> set es"
    using assms
    by (auto simp: handleForwardRegister_def replyForwardRegisterReject_def split: option.splits message.splits)
  then show ?thesis by (simp add: option.rel_refl)
qed

text \<open>C18: a routed control frame only ever reaches the other end of a stream its sender takes part in. A
  CANDIDATE or CHECKPOINT frame is passed on unchanged, to the connection registered under the
  provider's URI if the sender is the consumer of the pair recorded for the frame's stream id, or
  the other way round.\<close>

theorem ctrl_routes_to_pair:
  assumes "controlLoop_frame env now now' ac f s = (s', es)" and "ForwardRaw to g \<in> set es"
  shows "g = f \<and> (\<exists>i p. routed_id f = Some i \<and> sv_pairs s i = Some p \<and>
    (ac_uri ac = consumerURI p \<and> LookupAgent (providerURI p) (sv_reg s) = Some to \<or>
     ac_uri ac = providerURI p \<and> LookupAgent (consumerURI p) (sv_reg s) = Some to))"
proof -
  obtain i where i: "routed_id f = Some i" "ForwardRaw to g \<in> set (route_to_peer env ac i f s)"
  proof (cases "f_Type f \<in> {FrameTypeCandidateOffer, FrameTypeCandidateAnswer, FrameTypeStreamCheckpoint}")
    case True
    then show thesis
      using assms forward_frames_effects [of env ac f s s' es to g] that by (auto simp: controlLoop_frame_def)
  next
    case False
    then show thesis
      using assms handleRegister_effects [of env ac f s s' es to g] handleObservedAddrQuery_effects [of env ac f s s' es to g]
        handleMigrateToP2P_effects [of now now' ac f s s' es] handleForwardResume_effects [of ac f s s' es to g]
        handleForwardRegister_effects [of now ac f s s' es to g]
      by (auto simp: controlLoop_frame_def split: FrameType.splits)
  qed
  then have r: "g = f" "peerOf i (ac_uri ac) s \<noteq> []" "LookupAgent (peerOf i (ac_uri ac) s) (sv_reg s) = Some to"
    by (simp_all add: route_to_peer_iff)
  show ?thesis
  proof (rule peerOf_cases [OF refl r(2)])
  qed (use r i(1) in auto)
qed

theorem ctrl_routes_to_pair_witness:
  "\<exists>i p. routed_id (Frame FrameTypeCandidateOffer (Some (M_CandidateOffer 7))) = Some i \<and>
     sv_pairs ((demo_server RelayModeSplice)\<lparr>sv_pairs := [7 \<mapsto> pair_of demo_c (demo_l RelayModeSplice)]\<rparr>) i = Some p \<and>
     (''a'' = consumerURI p \<and> LookupAgent (providerURI p) (sv_reg (demo_server RelayModeSplice)) = Some demo_p \<or>
      ''a'' = providerURI p \<and> LookupAgent (consumerURI p) (sv_reg (demo_server RelayModeSplice)) = Some demo_p)"
proof -
  let ?s = "(demo_server RelayModeSplice)\<lparr>sv_pairs := [7 \<mapsto> pair_of demo_c (demo_l RelayModeSplice)]\<rparr>"
  let ?f = "Frame FrameTypeCandidateOffer (Some (M_CandidateOffer 7))"
  have "controlLoop_frame demo_env 0 0 demo_c ?f ?s = (?s, [ForwardRaw demo_p ?f])"
    by (simp add: controlLoop_frame_def forwardCandidate_def route_to_peer_def peerOf_def pair_of_def demo_l_def
        demo_c_def demo_p_def demo_env_def demo_server_def SetSuccessors_def edge_New_def LookupAgent_RegisterAgent)
  from ctrl_routes_to_pair [OF this, of demo_p ?f] show ?thesis by (simp add: demo_c_def)
qed

section \<open>Isolation\<close>

lemma controlLoop_frame_kept:
  assumes "controlLoop_frame env now now' ac f s = (s', es)"
  shows "sv_reg s' = sv_reg s" "sv_pairs s' = sv_pairs s" "sv_agents s' = sv_agents s" "sv_policy s' = sv_policy s"
    "sv_cache s' = sv_cache s" "sv_pool s' = sv_pool s" "sv_audit s' = sv_audit s"
    "rel_option (others_kept (ac_uri ac)) (sv_forward s) (sv_forward s')"
proof -
  have r: "rel_option (others_kept (ac_uri ac)) x x" for x by (simp add: option.rel_refl)
  have "sv_reg s' = sv_reg s \<and> sv_pairs s' = sv_pairs s \<and> sv_agents s' = sv_agents s \<and> sv_policy s' = sv_policy s \<and>
    sv_cache s' = sv_cache s \<and> sv_pool s' = sv_pool s \<and> sv_audit s' = sv_audit s \<and>
    rel_option (others_kept (ac_uri ac)) (sv_forward s) (sv_forward s')"
    using assms r handleRegister_effects [of env ac f s s' es] handleObservedAddrQuery_effects [of env ac f s s' es]
      forward_frames_effects [of env ac f s s' es]
      handleMigrateToP2P_effects [of now now' ac f s s' es] handleForwardResume_effects [of ac f s s' es]
      handleForwardRegister_effects [of now ac f s s' es]
    by (auto simp: controlLoop_frame_def split: FrameType.splits)
  then show "sv_reg s' = sv_reg s" "sv_pairs s' = sv_pairs s" "sv_agents s' = sv_agents s" "sv_policy s' = sv_policy s"
    "sv_cache s' = sv_cache s" "sv_pool s' = sv_pool s" "sv_audit s' = sv_audit s"
    "rel_option (others_kept (ac_uri ac)) (sv_forward s) (sv_forward s')" by simp_all
qed

text \<open>C19: a control frame leaves what it does not concern alone. Whatever an agent sends, the registered
  agents, the pairs, the policy with its cache and the peer connections stay as they are, and in the
  forwarding plane every allocation keeps its owner, and those of other agents keep their source
  and handshake.\<close>

theorem ctrl_isolation:
  assumes "controlLoop_frame env now now' ac f s = (s', es)"
  shows "sv_reg s' = sv_reg s \<and> sv_pairs s' = sv_pairs s \<and> sv_agents s' = sv_agents s \<and>
    sv_policy s' = sv_policy s \<and> sv_cache s' = sv_cache s \<and> sv_pool s' = sv_pool s \<and>
    rel_option (others_kept (ac_uri ac)) (sv_forward s) (sv_forward s')"
  using controlLoop_frame_kept [OF assms] by simp

theorem ctrl_isolation_witness:
  "\<exists>s' es. controlLoop_frame demo_env 0 0 demo_c (Frame FrameTypeForwardRegister (Some (M_ForwardRegister 1 (replicate 16 0))))
      (demo_server RelayModeForward) = (s', es) \<and> sv_reg s' = sv_reg (demo_server RelayModeForward)"
proof -
  obtain s' es where "controlLoop_frame demo_env 0 0 demo_c
      (Frame FrameTypeForwardRegister (Some (M_ForwardRegister 1 (replicate 16 0)))) (demo_server RelayModeForward) = (s', es)"
    by fastforce
  with ctrl_isolation [OF this] show ?thesis by blast
qed

section \<open>The table of migrated streams\<close>

text \<open>The enforcement of required P2P can be switched off by an agent that has nothing to do with the
  stream. A MIGRATE_TO_P2P for a stream id from a connection whose URI is neither end of the pair
  is recorded like one from an end, and the next tick of the enforcement, within the time to live of
  the row, ends it without closing the stream.\<close>

lemma stranger_disarms_required:
  assumes "sv_pairs s i = Some p" and "consumerURI p \<noteq> []" and "providerURI p \<noteq> []"
    and "ac_uri ac \<noteq> consumerURI p" and "ac_uri ac \<noteq> providerURI p" and "t < now + MigrationTTL"
    and "controlLoop_frame env now now ac (Frame FrameTypeMigrateToP2P (Some (M_MigrateToP2P i))) s = (s', es)"
  shows "enforceRequiredPromotion i (EnfTick t # evs) (sv_migrated s') = Some ([], sv_migrated s')"
proof -
  have "sv_migrated s' = migrated_Note now now
      \<lparr>mg_id = i, mg_consumerURI = consumerURI p, mg_providerURI = providerURI p, mg_migratedAt = 0\<rparr> (sv_migrated s)"
    using assms(1-3,7) by (auto simp: controlLoop_frame_def handleMigrateToP2P_def Let_def)
  then show ?thesis
    using assms(6) MigrationTTL_pos by (simp add: migrated_Lookup_def migrated_Note_def gcLocked_def)
qed

lemma stranger_disarms_required_witness:
  "\<exists>s'. enforceRequiredPromotion 7 [EnfTick 5, EnfDeadline] (sv_migrated s') = Some ([], sv_migrated s') \<and>
     s' = fst (controlLoop_frame demo_env 0 0 \<lparr>ac_id = 3, ac_uri = ''mallory''\<rparr>
       (Frame FrameTypeMigrateToP2P (Some (M_MigrateToP2P 7)))
       ((demo_server RelayModeSplice)\<lparr>sv_pairs := [7 \<mapsto> pair_of demo_c (demo_l RelayModeSplice)]\<rparr>))"
proof -
  let ?s = "(demo_server RelayModeSplice)\<lparr>sv_pairs := [7 \<mapsto> pair_of demo_c (demo_l RelayModeSplice)]\<rparr>"
  obtain s' es where r: "controlLoop_frame demo_env 0 0 \<lparr>ac_id = 3, ac_uri = ''mallory''\<rparr>
      (Frame FrameTypeMigrateToP2P (Some (M_MigrateToP2P 7))) ?s = (s', es)" by fastforce
  have "5 < 0 + MigrationTTL" by (simp add: MigrationTTL_def Second_def Millisecond_def)
  from stranger_disarms_required [OF _ _ _ _ _ this r, of "pair_of demo_c (demo_l RelayModeSplice)" "[EnfDeadline]"] r
  show ?thesis by (simp add: pair_of_def demo_c_def demo_l_def demo_p_def)
qed

end
