(* ===== verification/PlaneSys.thy ===== *)
theory PlaneSys
  imports Plane
begin

text \<open>
  The forwarding plane as a transition system: the edge server, the UDP socket and the garbage
  collector call the operations of \<open>Plane\<close> in any order while time passes. A ghost history
  records the control-plane registrations that succeeded and the UDP punches that arrived.
  The invariant says that a UDP source is bound to an allocation only by the owner's own nonce.
\<close>

section \<open>The system\<close>

datatype auth_event = Armed gotime u32 uri nonce | Punched gotime u32 AddrPort nonce

fun ev_time :: "auth_event \<Rightarrow> gotime" where
  "ev_time (Armed t _ _ _) = t"
| "ev_time (Punched t _ _ _) = t"

record plane_sys =
  sy_now :: gotime
  sy_plane :: Plane
  sy_hist :: "auth_event list"

definition punch_of :: "byte list \<Rightarrow> (u32 \<times> nonce) option" where
  "punch_of buf =
     (if 8 + PunchNonceSize \<le> length buf \<and> BigEndian_Uint32 buf = 0
      then Some (BigEndian_Uint32 (drop 4 buf), take PunchNonceSize (drop 8 buf)) else None)"

definition plane_sys_init :: "plane_sys \<Rightarrow> bool" where
  "plane_sys_init s \<longleftrightarrow>
     (\<exists>d d'. sy_plane s = SetIdleTTL d (SetPendingTTL d' NewPlane)) \<and> sy_hist s = []"

text \<open>
  An allocation step requires that the counter has not used up its \<open>2 ^ 32 - 1\<close> ids; what happens
  beyond the wrap-around is treated in the theory of the plane properties. A packet comes from a valid address, as
  \<open>ReadFromUDPAddrPort\<close> guarantees.
\<close>

inductive plane_step :: "plane_sys \<Rightarrow> plane_sys \<Rightarrow> bool" where
  pl_tick: "sy_now s \<le> t \<Longrightarrow> plane_step s (s\<lparr>sy_now := t\<rparr>)"
| pl_allocate: "Allocate (sy_now s) u (sy_plane s) = Some (i, q) \<Longrightarrow> nextID (sy_plane s) \<noteq> - 1 \<Longrightarrow>
    plane_step s (s\<lparr>sy_plane := q\<rparr>)"
| pl_forget: "plane_step s (s\<lparr>sy_plane := Forget i (sy_plane s)\<rparr>)"
| pl_forget_agent: "(\<And>S. byURI (sy_plane s) u = Some S \<Longrightarrow> distinct ids \<and> set ids = S) \<Longrightarrow>
    plane_step s (s\<lparr>sy_plane := snd (ForgetAgent ids u (sy_plane s))\<rparr>)"
| pl_arm: "ArmPending (sy_now s) i u n (sy_plane s) = (err, q) \<Longrightarrow>
    plane_step s (s\<lparr>sy_hist := (if err = None then Armed (sy_now s) i u n # sy_hist s else sy_hist s),
      sy_plane := q\<rparr>)"
| pl_packet: "IsValid src \<Longrightarrow> handle_packet (sy_now s) src buf (sy_plane s) = (q, out) \<Longrightarrow>
    plane_step s (s\<lparr>sy_hist := (case punch_of buf of None \<Rightarrow> sy_hist s
                    | Some (i, n) \<Rightarrow> Punched (sy_now s) i src n # sy_hist s),
      sy_plane := q\<rparr>)"
| pl_gc: "range_order (byAlloc (sy_plane s)) ids \<Longrightarrow>
    plane_step s (s\<lparr>sy_plane := gcOnce (sy_now s) ids (sy_plane s)\<rparr>)"

abbreviation plane_reach :: "plane_sys \<Rightarrow> bool" where
  "plane_reach \<equiv> reach plane_sys_init plane_step"

section \<open>Authentication of bound sources\<close>

text \<open>
  The owner \<open>u\<close> armed some nonce for allocation \<open>i\<close> over its control connection, and a punch with
  the same nonce for the same allocation came from \<open>s\<close>, less than the time to live apart.
\<close>

definition authenticated :: "duration \<Rightarrow> auth_event list \<Rightarrow> u32 \<Rightarrow> uri \<Rightarrow> AddrPort \<Rightarrow> bool" where
  "authenticated T h i u s \<longleftrightarrow> (\<exists>n ta tp. Armed ta i u n \<in> set h \<and> Punched tp i s n \<in> set h \<and>
     ta < tp + T \<and> tp \<le> ta + T)"

definition sys_inv :: "plane_sys \<Rightarrow> bool" where
  "sys_inv s \<longleftrightarrow> (let p = sy_plane s; T = pending_ttl p; h = sy_hist s in
     plane_inv p \<and> (\<forall>ev \<in> set h. ev_time ev \<le> sy_now s) \<and>
     (\<forall>i pe. pending p i = Some pe \<longrightarrow> (\<exists>t. Armed t i (pe_uri pe) (pe_nonce pe) \<in> set h \<and> pe_expires pe = t + T)) \<and>
     (\<forall>i q. queued p i = Some q \<longrightarrow> IsValid (qp_src q) \<and>
        (\<exists>t. Punched t i (qp_src q) (qp_nonce q) \<in> set h \<and> qp_expires q = t + T)) \<and>
     (\<forall>i e. byAlloc p i = Some e \<longrightarrow> IsValid (ae_src e) \<longrightarrow> authenticated T h i (ae_uri e) (ae_src e)))"

lemma pending_ttl_pos: "0 < pending_ttl p"
  by (auto simp: pending_ttl_def DefaultPendingTTL_def)

lemma authenticated_mono: "authenticated T h i u s \<Longrightarrow> set h \<subseteq> set h' \<Longrightarrow> authenticated T h' i u s"
  by (fastforce simp: authenticated_def)

lemma sys_invD:
  assumes "sys_inv s"
  shows "plane_inv (sy_plane s)"
    and "ev \<in> set (sy_hist s) \<Longrightarrow> ev_time ev \<le> sy_now s"
    and "pending (sy_plane s) i = Some pe \<Longrightarrow>
      \<exists>t. Armed t i (pe_uri pe) (pe_nonce pe) \<in> set (sy_hist s) \<and> pe_expires pe = t + pending_ttl (sy_plane s)"
    and "queued (sy_plane s) i = Some q \<Longrightarrow> IsValid (qp_src q) \<and>
      (\<exists>t. Punched t i (qp_src q) (qp_nonce q) \<in> set (sy_hist s) \<and> qp_expires q = t + pending_ttl (sy_plane s))"
    and "byAlloc (sy_plane s) i = Some e \<Longrightarrow> IsValid (ae_src e) \<Longrightarrow>
      authenticated (pending_ttl (sy_plane s)) (sy_hist s) i (ae_uri e) (ae_src e)"
  using assms by (simp_all add: sys_inv_def Let_def)

text \<open>
  The operations that add no handshake state and bind no source: what they leave was there
  before. They keep the invariant.
\<close>

definition shrinks :: "Plane \<Rightarrow> Plane \<Rightarrow> bool" where
  "shrinks p q \<longleftrightarrow> pendingTTL q = pendingTTL p \<and> pending q \<subseteq>\<^sub>m pending p \<and> queued q \<subseteq>\<^sub>m queued p \<and>
     (\<forall>i e. byAlloc q i = Some e \<longrightarrow> IsValid (ae_src e) \<longrightarrow>
        (\<exists>e'. byAlloc p i = Some e' \<and> ae_uri e' = ae_uri e \<and> ae_src e' = ae_src e))"

lemma map_leD: "m \<subseteq>\<^sub>m m' \<Longrightarrow> m k = Some v \<Longrightarrow> m' k = Some v"
  by (metis domI map_le_def)

lemma map_leI: "(\<And>k v. m k = Some v \<Longrightarrow> m' k = Some v) \<Longrightarrow> m \<subseteq>\<^sub>m m'"
  by (auto simp: map_le_def)

lemma shrinks_refl [simp]: "shrinks p p"
  by (simp add: shrinks_def)

lemma shrinks_trans:
  assumes "shrinks p q" and "shrinks q r"
  shows "shrinks p r"
  unfolding shrinks_def
proof (intro conjI allI impI)
  show "pendingTTL r = pendingTTL p" using assms by (simp add: shrinks_def)
  show "pending r \<subseteq>\<^sub>m pending p" "queued r \<subseteq>\<^sub>m queued p"
    using assms by (auto simp: shrinks_def intro: map_le_trans)
  fix i e assume "byAlloc r i = Some e" "IsValid (ae_src e)"
  then obtain e' where "byAlloc q i = Some e'" "ae_uri e' = ae_uri e" "ae_src e' = ae_src e"
    using assms(2) by (auto simp: shrinks_def)
  with \<open>IsValid (ae_src e)\<close> assms(1)
  show "\<exists>e'. byAlloc p i = Some e' \<and> ae_uri e' = ae_uri e \<and> ae_src e' = ae_src e"
    by (fastforce simp: shrinks_def)
qed

lemma shrinks_removal:
  assumes "pendingTTL q = pendingTTL p" and "pending q \<subseteq>\<^sub>m pending p" and "queued q \<subseteq>\<^sub>m queued p"
    and "byAlloc q \<subseteq>\<^sub>m byAlloc p"
  shows "shrinks p q"
  using assms map_leD [OF assms(4)] by (auto simp: shrinks_def)

lemma shrinks_Forget: "shrinks p (Forget i p)"
  by (rule shrinks_removal)
    (auto simp: Forget_def drop_handshake_def drop_alloc_def map_le_def split: option.splits)

lemma shrinks_forget_owned: "shrinks (snd np) (snd (forget_owned i np))"
  by (rule shrinks_removal)
    (auto simp: forget_owned_def drop_handshake_def map_le_def split: option.splits prod.splits)

lemma shrinks_fold_forget_owned: "shrinks (snd np) (snd (fold forget_owned ids np))"
proof (induction ids arbitrary: np)
  case (Cons i ids)
  show ?case using shrinks_trans [OF shrinks_forget_owned Cons.IH] by simp
qed simp

lemma shrinks_ForgetAgent: "shrinks p (snd (ForgetAgent ids u p))"
proof -
  obtain n q where nq: "fold forget_owned ids (0, p) = (n, q)" by fastforce
  with shrinks_fold_forget_owned [of "(0, p)" ids] have "shrinks p q" by simp
  then show ?thesis
    by (auto simp: ForgetAgent_def nq shrinks_def split: option.split)
qed

lemma shrinks_gc_evict: "shrinks p (gc_evict c i p)"
  by (rule shrinks_removal)
    (auto simp: gc_evict_def drop_handshake_def drop_alloc_def map_le_def split: option.splits)

lemma shrinks_gc_fold: "shrinks p (fold (gc_evict c) ids p)"
proof (induction ids arbitrary: p)
  case (Cons i ids)
  show ?case using shrinks_trans [OF shrinks_gc_evict Cons.IH] by simp
qed simp

lemma shrinks_gcOnce: "shrinks p (gcOnce now ids p)"
proof -
  let ?f = "fold (gc_evict (now - idleTTL p)) ids p"
  have "shrinks ?f (gcOnce now ids p)"
    by (rule shrinks_removal) (auto simp: gcOnce_def Let_def map_le_def split: option.splits if_splits)
  then show ?thesis using shrinks_gc_fold shrinks_trans by blast
qed

lemma shrinks_Allocate: "Allocate now u p = Some (i, q) \<Longrightarrow> shrinks p q"
  by (auto simp: Allocate_def shrinks_def Let_def IsValid_def split: if_splits)

lemma shrinks_bump: "shrinks p (bump_sender now src p)"
  by (auto simp: bump_sender_def shrinks_def split: option.split)

lemma sys_inv_shrinks:
  assumes inv: "sys_inv s" and pl: "plane_inv q" and sh: "shrinks (sy_plane s) q" and now: "sy_now s \<le> now"
  shows "sys_inv (s\<lparr>sy_now := now, sy_plane := q\<rparr>)"
proof -
  have T: "pending_ttl q = pending_ttl (sy_plane s)" using sh by (simp add: pending_ttl_def shrinks_def)
  have "pending q i = Some x \<Longrightarrow> pending (sy_plane s) i = Some x"
    "queued q i = Some y \<Longrightarrow> queued (sy_plane s) i = Some y" for i x y
    using sh by (auto simp: shrinks_def dest: map_leD)
  moreover have "authenticated (pending_ttl q) (sy_hist s) i (ae_uri e) (ae_src e)"
    if "byAlloc q i = Some e" "IsValid (ae_src e)" for i e
  proof -
    from that sh obtain e' where "byAlloc (sy_plane s) i = Some e'" "ae_uri e' = ae_uri e" "ae_src e' = ae_src e"
      by (auto simp: shrinks_def)
    with sys_invD(5) [OF inv this(1)] that(2) T show ?thesis by simp
  qed
  moreover have "ev_time ev \<le> now" if "ev \<in> set (sy_hist s)" for ev
    using sys_invD(2) [OF inv that] now by simp
  ultimately show ?thesis
    using pl sys_invD(3,4) [OF inv] unfolding sys_inv_def Let_def by (simp add: T) blast
qed

lemma sys_inv_quiet: "sys_inv s \<Longrightarrow> plane_inv q \<Longrightarrow> shrinks (sy_plane s) q \<Longrightarrow> sys_inv (s\<lparr>sy_plane := q\<rparr>)"
  using sys_inv_shrinks [of s q "sy_now s"] by simp

text \<open>Recording one more event changes nothing.\<close>

lemma sys_inv_log:
  assumes "sys_inv s" and "ev_time ev \<le> sy_now s"
  shows "sys_inv (s\<lparr>sy_hist := ev # sy_hist s\<rparr>)"
proof -
  let ?h = "ev # sy_hist s"
  have "\<exists>t. Armed t i (pe_uri x) (pe_nonce x) \<in> set ?h \<and> pe_expires x = t + pending_ttl (sy_plane s)"
    if "pending (sy_plane s) i = Some x" for i x
    using sys_invD(3) [OF assms(1) that] by auto
  moreover have "IsValid (qp_src x) \<and>
      (\<exists>t. Punched t i (qp_src x) (qp_nonce x) \<in> set ?h \<and> qp_expires x = t + pending_ttl (sy_plane s))"
    if "queued (sy_plane s) i = Some x" for i x
    using sys_invD(4) [OF assms(1) that] by auto
  moreover have "authenticated (pending_ttl (sy_plane s)) ?h i (ae_uri e) (ae_src e)"
    if "byAlloc (sy_plane s) i = Some e" "IsValid (ae_src e)" for i e
    by (rule authenticated_mono [OF sys_invD(5) [OF assms(1) that]]) auto
  moreover have "\<forall>x \<in> set ?h. ev_time x \<le> sy_now s"
    using assms(2) sys_invD(2) [OF assms(1)] by auto
  ultimately show ?thesis
    using sys_invD(1) [OF assms(1)] unfolding sys_inv_def Let_def by simp
qed

lemma pending_ttl_bind [simp]: "pending_ttl (bind_src i e src now p) = pending_ttl p"
  by (simp add: pending_ttl_def)

text \<open>Binding a source keeps the invariant when the binding is authenticated.\<close>

lemma sys_inv_bind:
  assumes inv: "sys_inv s" and e: "byAlloc (sy_plane s) i = Some e" and v: "IsValid src"
    and au: "authenticated (pending_ttl (sy_plane s)) (sy_hist s) i (ae_uri e) src"
  shows "sys_inv (s\<lparr>sy_plane := bind_src i e src now (sy_plane s)\<rparr>)"
proof -
  let ?q = "bind_src i e src now (sy_plane s)"
  have "plane_inv ?q" by (rule bind_src_inv [OF sys_invD(1) [OF inv] e v])
  moreover have "authenticated (pending_ttl (sy_plane s)) (sy_hist s) j (ae_uri e') (ae_src e')"
    if "byAlloc ?q j = Some e'" "IsValid (ae_src e')" for j e'
    using that au sys_invD(5) [OF inv] by (cases "j = i") auto
  ultimately show ?thesis
    using sys_invD(2-4) [OF inv] unfolding sys_inv_def Let_def by simp
qed


lemma plane_sys_update [simp]: "s\<lparr>sy_plane := sy_plane s\<rparr> = s" "s\<lparr>sy_now := sy_now s\<rparr> = s" "s\<lparr>sy_hist := sy_hist s\<rparr> = s"
  by simp_all

lemma sys_inv_enqueue:
  assumes inv: "sys_inv s" and np: "pending (sy_plane s) i = None" and v: "IsValid src"
    and ev: "Punched t i src n \<in> set (sy_hist s)"
  shows "sys_inv (s\<lparr>sy_plane := (sy_plane s)\<lparr>queued := (queued (sy_plane s))(i \<mapsto>
    \<lparr>qp_src = src, qp_nonce = n, qp_expires = t + pending_ttl (sy_plane s)\<rparr>)\<rparr>\<rparr>)"
proof -
  let ?q = "(sy_plane s)\<lparr>queued := (queued (sy_plane s))(i \<mapsto>
    \<lparr>qp_src = src, qp_nonce = n, qp_expires = t + pending_ttl (sy_plane s)\<rparr>)\<rparr>"
  have "plane_inv ?q"
    using sys_invD(1) [OF inv] np by (auto simp: plane_inv_def index_ok_def src_ok_def pend_ok_def ids_ok_def)
  moreover have T: "pending_ttl ?q = pending_ttl (sy_plane s)" by (simp add: pending_ttl_def)
  ultimately show ?thesis
    using sys_invD(2-5) [OF inv] v ev unfolding sys_inv_def Let_def by (auto simp: T)
qed

lemma sys_inv_arm_pending:
  assumes inv: "sys_inv s" and e: "byAlloc (sy_plane s) i = Some e" and nq: "queued (sy_plane s) i = None"
    and ev: "Armed t i (ae_uri e) n \<in> set (sy_hist s)"
  shows "sys_inv (s\<lparr>sy_plane := (sy_plane s)\<lparr>pending := (pending (sy_plane s))(i \<mapsto>
    \<lparr>pe_uri = ae_uri e, pe_nonce = n, pe_expires = t + pending_ttl (sy_plane s)\<rparr>)\<rparr>\<rparr>)"
proof -
  let ?q = "(sy_plane s)\<lparr>pending := (pending (sy_plane s))(i \<mapsto>
    \<lparr>pe_uri = ae_uri e, pe_nonce = n, pe_expires = t + pending_ttl (sy_plane s)\<rparr>)\<rparr>"
  have "plane_inv ?q"
    using sys_invD(1) [OF inv] e nq by (auto simp: plane_inv_def index_ok_def src_ok_def pend_ok_def ids_ok_def)
  moreover have T: "pending_ttl ?q = pending_ttl (sy_plane s)" by (simp add: pending_ttl_def)
  ultimately show ?thesis
    using sys_invD(2-5) [OF inv] ev unfolding sys_inv_def Let_def by (auto simp: T)
qed

lemma sys_inv_drop_pending: "sys_inv s \<Longrightarrow> sys_inv (s\<lparr>sy_plane := (sy_plane s)\<lparr>pending := (pending (sy_plane s))(i := None)\<rparr>\<rparr>)"
  by (rule sys_inv_quiet) (auto intro: drop_pending_inv dest: sys_invD(1) simp: map_le_def intro!: shrinks_removal)

lemma sys_inv_drop_queued: "sys_inv s \<Longrightarrow> sys_inv (s\<lparr>sy_plane := (sy_plane s)\<lparr>queued := (queued (sy_plane s))(i := None)\<rparr>\<rparr>)"
  by (rule sys_inv_quiet) (auto intro: drop_queued_inv dest: sys_invD(1) simp: map_le_def intro!: shrinks_removal)

lemma sys_inv_register:
  assumes inv: "sys_inv s" and v: "IsValid src" and ev: "Punched (sy_now s) i src n \<in> set (sy_hist s)"
  shows "sys_inv (s\<lparr>sy_plane := register (sy_now s) i src n (sy_plane s)\<rparr>)"
proof (cases "pending (sy_plane s) i")
  case None
  with sys_inv_enqueue [OF inv None v ev] show ?thesis by (simp add: register_def)
next
  case (Some pe)
  then obtain e where e: "byAlloc (sy_plane s) i = Some e" "ae_uri e = pe_uri pe"
    using plane_invD(3) [OF sys_invD(1) [OF inv]] by (auto simp: pend_ok_def)
  obtain t where t: "Armed t i (pe_uri pe) (pe_nonce pe) \<in> set (sy_hist s)"
    "pe_expires pe = t + pending_ttl (sy_plane s)"
    using sys_invD(3) [OF inv Some] by blast
  have "t \<le> sy_now s" using sys_invD(2) [OF inv t(1)] by simp
  then have lt: "t < sy_now s + pending_ttl (sy_plane s)" using pending_ttl_pos [of "sy_plane s"] by linarith
  show ?thesis
  proof (cases "sy_now s \<le> pe_expires pe \<and> pe_nonce pe = n")
    case True
    with t e ev lt have "authenticated (pending_ttl (sy_plane s)) (sy_hist s) i (ae_uri e) src"
      unfolding authenticated_def by fastforce
    from sys_inv_drop_pending [OF sys_inv_bind [OF inv e(1) v this], of "sy_now s" i] True Some e(1)
    show ?thesis by (simp add: register_def)
  next
    case False
    with Some inv sys_inv_drop_pending [OF inv, of i] show ?thesis by (auto simp: register_def)
  qed
qed

lemma sys_inv_ArmPending:
  assumes inv: "sys_inv s" and ev: "Armed (sy_now s) i u n \<in> set (sy_hist s)"
  shows "sys_inv (s\<lparr>sy_plane := snd (ArmPending (sy_now s) i u n (sy_plane s))\<rparr>)"
proof (cases "\<exists>e. byAlloc (sy_plane s) i = Some e \<and> ae_uri e = u \<and> u \<noteq> []")
  case False
  with inv show ?thesis by (auto simp: ArmPending_def split: option.split)
next
  case True
  then obtain e where e: "byAlloc (sy_plane s) i = Some e" "ae_uri e = u" "u \<noteq> []" by blast
  let ?s1 = "s\<lparr>sy_plane := (sy_plane s)\<lparr>queued := (queued (sy_plane s))(i := None)\<rparr>\<rparr>"
  have inv1: "sys_inv ?s1" by (rule sys_inv_drop_queued [OF inv])
  have T: "pending_ttl (sy_plane ?s1) = pending_ttl (sy_plane s)" by (simp add: pending_ttl_def)
  have arm: "sys_inv (?s1\<lparr>sy_plane := (sy_plane ?s1)\<lparr>pending := (pending (sy_plane ?s1))(i \<mapsto>
      \<lparr>pe_uri = ae_uri e, pe_nonce = n, pe_expires = sy_now s + pending_ttl (sy_plane ?s1)\<rparr>)\<rparr>\<rparr>)"
    by (rule sys_inv_arm_pending [OF inv1]) (simp_all add: e ev)
  have bind: "sys_inv (?s1\<lparr>sy_plane := bind_src i e (qp_src q) (sy_now s) (sy_plane ?s1)\<rparr>)"
    if q: "queued (sy_plane s) i = Some q" "sy_now s < qp_expires q" "qp_nonce q = n" for q
  proof (rule sys_inv_bind [OF inv1])
    obtain t where t: "Punched t i (qp_src q) (qp_nonce q) \<in> set (sy_hist s)"
      "qp_expires q = t + pending_ttl (sy_plane s)" and v: "IsValid (qp_src q)"
      using sys_invD(4) [OF inv q(1)] by blast
    have "t \<le> sy_now s" using sys_invD(2) [OF inv t(1)] by simp
    then have "t \<le> sy_now s + pending_ttl (sy_plane s)" using pending_ttl_pos [of "sy_plane s"] by linarith
    with t q ev e(2) show "authenticated (pending_ttl (sy_plane ?s1)) (sy_hist ?s1) i (ae_uri e) (qp_src q)"
      unfolding authenticated_def T by fastforce
    show "IsValid (qp_src q)" by (rule v)
  qed (simp add: e)
  show ?thesis
    using e arm bind T by (auto simp: ArmPending_def Let_def split: option.split)
qed


section \<open>The invariant holds in every reachable state\<close>

lemma handle_packet_register:
  "punch_of buf = Some (i, n) \<Longrightarrow> handle_packet now src buf p = (register now i src n p, None)"
  by (auto simp: punch_of_def handle_packet_def Let_def PunchNonceSize_def split: if_splits)

lemma handle_packet_data:
  "punch_of buf = None \<Longrightarrow> fst (handle_packet now src buf p) = p \<or> fst (handle_packet now src buf p) = bump_sender now src p"
  by (auto simp: punch_of_def handle_packet_def Let_def PunchNonceSize_def split: if_splits)

lemma plane_step_sys_inv: "plane_step s t \<Longrightarrow> sys_inv s \<Longrightarrow> sys_inv t"
proof (induction rule: plane_step.induct)
  case (pl_tick s t)
  then show ?case
    using sys_inv_shrinks [OF pl_tick(2) sys_invD(1) [OF pl_tick(2)] shrinks_refl pl_tick(1)] by simp
next
  case (pl_allocate s u i q)
  have "plane_inv q" by (rule Allocate_inv [OF sys_invD(1) [OF pl_allocate(3)] pl_allocate(2,1)])
  then show ?case by (rule sys_inv_quiet [OF pl_allocate(3) _ shrinks_Allocate [OF pl_allocate(1)]])
next
  case (pl_forget s i)
  then show ?case by (intro sys_inv_quiet Forget_inv shrinks_Forget sys_invD(1))
next
  case (pl_forget_agent s u ids)
  then show ?case by (intro sys_inv_quiet ForgetAgent_inv shrinks_ForgetAgent sys_invD(1))
next
  case (pl_arm s i u n err q)
  show ?case
  proof (cases "err = None")
    case True
    have "sys_inv (s\<lparr>sy_hist := Armed (sy_now s) i u n # sy_hist s\<rparr>)"
      by (rule sys_inv_log [OF pl_arm(2)]) simp
    from sys_inv_ArmPending [OF this, of i u n] pl_arm(1) True show ?thesis by simp
  next
    case False
    with pl_arm show ?thesis
      by (auto simp: ArmPending_def Let_def split: if_splits option.splits)
  qed
next
  case (pl_packet src s buf q out)
  show ?case
  proof (cases "punch_of buf")
    case None
    with pl_packet handle_packet_data [OF None, of "sy_now s" src "sy_plane s"] show ?thesis
      by (auto intro: sys_inv_quiet bump_sender_inv shrinks_bump dest: sys_invD(1))
  next
    case (Some a)
    then obtain i n where a: "punch_of buf = Some (i, n)" by (cases a) auto
    have "sys_inv (s\<lparr>sy_hist := Punched (sy_now s) i src n # sy_hist s\<rparr>)"
      by (rule sys_inv_log [OF pl_packet(3)]) simp
    from sys_inv_register [OF this pl_packet(1), of i n] pl_packet(2) handle_packet_register [OF a] a
    show ?thesis by simp
  qed
next
  case (pl_gc s ids)
  then show ?case by (intro sys_inv_quiet gcOnce_inv shrinks_gcOnce sys_invD(1))
qed

interpretation plane_system: inductive_invariant plane_sys_init plane_step sys_inv
proof unfold_locales
  fix s assume "plane_sys_init s"
  then obtain d d' where s: "sy_plane s = SetIdleTTL d (SetPendingTTL d' NewPlane)" "sy_hist s = []"
    by (auto simp: plane_sys_init_def)
  have "plane_inv (SetIdleTTL d (SetPendingTTL d' NewPlane))"
    by (auto simp: SetIdleTTL_def SetPendingTTL_def NewPlane_def plane_inv_def index_ok_def src_ok_def
        pend_ok_def ids_ok_def)
  with s show "sys_inv s"
    by (auto simp: sys_inv_def Let_def SetIdleTTL_def SetPendingTTL_def NewPlane_def)
qed (rule plane_step_sys_inv)

end
