(* ===== verification/Watcher.thy ===== *)
theory Watcher
  imports PolicyCache "HOL-Library.Char_ord" "HOL-Library.List_Lexorder" "HOL-Library.Product_Lexorder"
begin

text \<open>
  The policy watcher of \<open>pkg/policy/client.go\<close>: it buffers the controller's initial snapshot,
  installs it in one step, applies later events one by one and flushes the decision cache
  after every change. The second half composes the watcher with the evaluations of the data
  plane: a transition system whose reachable states keep the cache coherent with the engine.
\<close>

section \<open>The code\<close>

datatype PolicyEvent =
    POLICY_KIND_ADDED "PolicyRule option"
  | POLICY_KIND_REMOVED string
  | POLICY_KIND_SNAPSHOT_END
  | POLICY_KIND_OTHER

datatype recv = RecvEvent PolicyEvent | RecvEOF | RecvErr string

record Watcher =
  w_engine :: Engine
  w_cache :: Cache
  w_pending :: "Rule list"
  w_inSnapshot :: bool

type_synonym rule_ord = "(string \<rightharpoonup> Rule) \<Rightarrow> string list"

text \<open>
  One iteration of the receive loop of \<open>runOnce\<close>. \<open>ord\<close> gives the iteration order of the
  rule map at each rebuild of the snapshot.
\<close>

fun watch_event :: "pb_enums \<Rightarrow> rule_ord \<Rightarrow> PolicyEvent \<Rightarrow> Watcher \<Rightarrow> Watcher" where
  "watch_event k ord (POLICY_KIND_ADDED None) w = w"
| "watch_event k ord (POLICY_KIND_ADDED (Some r)) w =
     (if w_inSnapshot w then w\<lparr>w_pending := w_pending w @ [FromPB k r]\<rparr>
      else w\<lparr>w_engine := Engine_Add (ord ((eng_rules (w_engine w))(pb_Id r \<mapsto> FromPB k r))) (FromPB k r) (w_engine w),
             w_cache := Cache_Flush (w_cache w)\<rparr>)"
| "watch_event k ord (POLICY_KIND_REMOVED i) w =
     (if i = [] then w
      else w\<lparr>w_engine := Engine_Remove (ord ((eng_rules (w_engine w))(i := None))) i (w_engine w),
             w_cache := Cache_Flush (w_cache w)\<rparr>)"
| "watch_event k ord POLICY_KIND_SNAPSHOT_END w =
     w\<lparr>w_engine := Engine_Set (ord (fold insert_rule (w_pending w) Map.empty)) (w_pending w) (w_engine w),
       w_cache := Cache_Flush (w_cache w), w_pending := [], w_inSnapshot := False\<rparr>"
| "watch_event k ord POLICY_KIND_OTHER w = w"

fun recv_loop :: "pb_enums \<Rightarrow> rule_ord \<Rightarrow> recv list \<Rightarrow> Watcher \<Rightarrow> Watcher \<times> string option" where
  "recv_loop k ord [] w = (w, None)"
| "recv_loop k ord (RecvEOF # rs) w = (w, None)"
| "recv_loop k ord (RecvErr e # rs) w = (w, Some e)"
| "recv_loop k ord (RecvEvent ev # rs) w = recv_loop k ord rs (watch_event k ord ev w)"

text \<open>
  \<open>runOnce\<close>: \<open>stream\<close> is \<open>Inl\<close> of the error when opening the watch fails, else what the stream
  delivers. \<open>pending\<close> and \<open>inSnapshot\<close> are local to a call.
\<close>

definition runOnce ::
  "pb_enums \<Rightarrow> rule_ord \<Rightarrow> string + recv list \<Rightarrow> Watcher \<Rightarrow> Watcher \<times> string option" where
  "runOnce k ord stream w =
     (case stream of
        Inl e \<Rightarrow> (w, Some e)
      | Inr rs \<Rightarrow> recv_loop k ord rs (w\<lparr>w_pending := [], w_inSnapshot := True\<rparr>))"

text \<open>\<open>Run\<close> reconnects after every session until the context is cancelled.\<close>

definition watcher_Run :: "pb_enums \<Rightarrow> rule_ord \<Rightarrow> (string + recv list) list \<Rightarrow> Watcher \<Rightarrow> Watcher" where
  "watcher_Run k ord sessions w = fold (\<lambda>s w. fst (runOnce k ord s w)) sessions w"

section \<open>Specification of a session\<close>

text \<open>What a live event means for the working set of rules.\<close>

fun live_update :: "pb_enums \<Rightarrow> PolicyEvent \<Rightarrow> (string \<rightharpoonup> Rule) \<Rightarrow> (string \<rightharpoonup> Rule)" where
  "live_update k (POLICY_KIND_ADDED (Some r)) m = m(pb_Id r \<mapsto> FromPB k r)"
| "live_update k (POLICY_KIND_REMOVED i) m = (if i = [] then m else m(i := None))"
| "live_update k _ m = m"

lemma ID_FromPB [simp]: "ID (FromPB k r) = pb_Id r"
  by (simp add: FromPB_def)

lemma watch_event_snapshot_phase:
  "w_inSnapshot w \<Longrightarrow>
   fold (watch_event k ord) (map (POLICY_KIND_ADDED \<circ> Some) rs) w = w\<lparr>w_pending := w_pending w @ map (FromPB k) rs\<rparr>"
  by (induction rs arbitrary: w) simp_all

lemma watch_event_live:
  "\<not> w_inSnapshot w \<Longrightarrow> ev \<noteq> POLICY_KIND_SNAPSHOT_END \<Longrightarrow>
   eng_rules (w_engine (watch_event k ord ev w)) = live_update k ev (eng_rules (w_engine w)) \<and>
   \<not> w_inSnapshot (watch_event k ord ev w)"
  by (cases ev; cases "case ev of POLICY_KIND_ADDED o' \<Rightarrow> o' | _ \<Rightarrow> None") auto

lemma watch_events_live:
  "\<not> w_inSnapshot w \<Longrightarrow> POLICY_KIND_SNAPSHOT_END \<notin> set evs \<Longrightarrow>
   eng_rules (w_engine (fold (watch_event k ord) evs w)) = fold (live_update k) evs (eng_rules (w_engine w))"
  by (induction evs arbitrary: w) (auto simp: watch_event_live)

lemma recv_loop_events:
  "recv_loop k ord (map RecvEvent evs @ rs) w = recv_loop k ord rs (fold (watch_event k ord) evs w)"
  by (induction evs arbitrary: w) auto

section \<open>The policy plane as a transition system\<close>

record policy_sys =
  ps_now :: gotime
  ps_watcher :: Watcher
  ps_counters :: eval_counters

definition policy_init :: "policy_sys \<Rightarrow> bool" where
  "policy_init s \<longleftrightarrow> w_engine (ps_watcher s) = NewEngine \<and> w_cache (ps_watcher s) = NewCache"

text \<open>
  Steps: time passes; the data plane evaluates a request; the watcher receives an event; the
  watcher starts a new session.
\<close>

inductive policy_step ::
  "pb_enums \<Rightarrow> rule_ord \<Rightarrow> (Cache \<Rightarrow> cacheKey list) \<Rightarrow> policy_sys \<Rightarrow> policy_sys \<Rightarrow> bool"
  for k :: pb_enums and ord :: rule_ord and cord :: "Cache \<Rightarrow> cacheKey list" where
  ps_tick: "ps_now s \<le> t \<Longrightarrow> policy_step k ord cord s (s\<lparr>ps_now := t\<rparr>)"
| ps_eval: "evaluate cord (ps_now s) (w_engine (ps_watcher s)) caller target method
              (Some (w_cache (ps_watcher s)), ps_counters s) = (r, Some m, n) \<Longrightarrow>
            policy_step k ord cord s
              (s\<lparr>ps_watcher := (ps_watcher s)\<lparr>w_cache := m\<rparr>, ps_counters := n\<rparr>)"
| ps_event: "policy_step k ord cord s (s\<lparr>ps_watcher := watch_event k ord ev (ps_watcher s)\<rparr>)"
| ps_session: "policy_step k ord cord s
    (s\<lparr>ps_watcher := (ps_watcher s)\<lparr>w_pending := [], w_inSnapshot := True\<rparr>\<rparr>)"

definition policy_inv :: "policy_sys \<Rightarrow> bool" where
  "policy_inv s \<longleftrightarrow>
     finite (dom (eng_rules (w_engine (ps_watcher s)))) \<and> engine_ok (w_engine (ps_watcher s)) \<and>
     coherent (ps_now s) (w_engine (ps_watcher s)) (w_cache (ps_watcher s)) \<and>
     cache_ok (w_cache (ps_watcher s))"

lemma cache_ok_empty [simp]: "cache_ok Map.empty"
  by (simp add: cache_ok_def)

lemma valid_ord_range: "valid_ord ord \<Longrightarrow> finite (dom m) \<Longrightarrow> range_order m (ord m)"
  by (simp add: valid_ord_def)

lemma watch_event_engine_ok:
  assumes "valid_ord ord" and "engine_ok (w_engine w)" and "finite (dom (eng_rules (w_engine w)))"
  shows "engine_ok (w_engine (watch_event k ord ev w)) \<and> finite (dom (eng_rules (w_engine (watch_event k ord ev w))))"
proof -
  note ro = valid_ord_range [OF assms(1)]
  have "engine_ok (w_engine (watch_event k ord ev w))"
    using assms(2,3) by (cases "(k, ord, ev, w)" rule: watch_event.cases)
      (auto intro!: Engine_ops_ok ro simp: fold_insert_rule finite_dom_map_of)
  moreover have "finite (dom (eng_rules (w_engine (watch_event k ord ev w))))"
    using assms(3) by (cases "(k, ord, ev, w)" rule: watch_event.cases) (auto simp: finite_dom_map_of)
  ultimately show ?thesis ..
qed

lemma watch_event_inv:
  assumes "valid_ord ord" and "policy_inv s"
  shows "policy_inv (s\<lparr>ps_watcher := watch_event k ord ev (ps_watcher s)\<rparr>)"
proof -
  let ?w = "ps_watcher s"
  have "coherent (ps_now s) (w_engine (watch_event k ord ev ?w)) (w_cache (watch_event k ord ev ?w)) \<and>
      cache_ok (w_cache (watch_event k ord ev ?w))"
    using assms(2) by (cases "(k, ord, ev, ?w)" rule: watch_event.cases) (auto simp: policy_inv_def Cache_Flush_def)
  then show ?thesis using watch_event_engine_ok [OF assms(1), of ?w k ev] assms(2) by (simp add: policy_inv_def)
qed

lemma evaluate_cache_ok:
  assumes "evaluate ord now e caller target method (Some m, n) = (r, Some m', n')"
    and "cache_ok m" and "valid_ord ord"
  shows "cache_ok m'"
proof -
  have "cache_ok (snd (Cache_Get now (caller, target, method) m))" by (intro inv_intros assms)
  with assms(1,3) show ?thesis
    by (auto simp: evaluate_def Let_def split: prod.splits option.splits intro: Cache_Put_ok)
qed

lemma policy_step_inv:
  assumes "valid_ord ord" and "valid_ord cord" and "policy_step k ord cord s t" and "policy_inv s"
  shows "policy_inv t"
  using assms(3,4)
proof (induction rule: policy_step.induct)
  case (ps_tick s t)
  then show ?case by (auto simp: policy_inv_def intro: coherent_mono)
next
  case (ps_eval s caller target meth r m n)
  then show ?case
    using assms(2) by (auto simp: policy_inv_def intro: coherent_evaluate evaluate_cache_ok)
next
  case (ps_event s ev)
  then show ?case using assms(1) by (blast intro: watch_event_inv)
next
  case (ps_session s)
  then show ?case by (simp add: policy_inv_def)
qed

lemma policy_init_inv: "policy_init s \<Longrightarrow> policy_inv s"
  using engine_inv.inv_init by (auto simp: policy_init_def policy_inv_def NewCache_def NewEngine_def)

lemma policy_reach_inv:
  assumes "valid_ord ord" and "valid_ord cord" and "reach policy_init (policy_step k ord cord) s"
  shows "policy_inv s"
  using assms(3)
  by (induction rule: reach.induct) (auto intro: policy_init_inv policy_step_inv [OF assms(1,2)])


section \<open>Properties\<close>

text \<open>Whenever the data plane evaluates a request, the answer, cached or not, is a decision of
  the engine that is current at that moment, taken less than the cache's time to live ago, and
  is therefore justified by the rules now in force. An evaluation and an event are one step each here.\<close>

lemma evaluate_bounded_staleness:
  assumes "valid_ord ord" and "valid_ord cord" and "reach policy_init (policy_step k ord cord) s"
    and "evaluate cord (ps_now s) (w_engine (ps_watcher s)) caller target method
      (Some (w_cache (ps_watcher s)), ps_counters s) = (r, c, n)"
  shows "\<exists>t. ps_now s - CacheTTL < t \<and> t \<le> ps_now s \<and>
    r = Engine_Decide (w_engine (ps_watcher s)) caller target method t \<and>
    decide_spec (ran (eng_rules (w_engine (ps_watcher s)))) caller target method t r"
proof -
  from policy_reach_inv [OF assms(1-3)] have
    co: "coherent (ps_now s) (w_engine (ps_watcher s)) (w_cache (ps_watcher s))" and
    ok: "engine_ok (w_engine (ps_watcher s))" by (auto simp: policy_inv_def)
  from evaluate_decision [OF co assms(4)] engine_ok_decide [OF ok] show ?thesis by blast
qed

definition key_order :: "('k :: linorder \<rightharpoonup> 'v) \<Rightarrow> 'k list" where
  "key_order m = sorted_list_of_set (dom m)"

lemma valid_key_order: "valid_ord key_order"
  by (simp add: valid_ord_def range_order_def key_order_def)

definition wire0 :: pb_enums where
  "wire0 = \<lparr>P2P_FORBIDDEN = 1, P2P_REQUIRED = 2, RELAY_MODE_FORWARD = 1, DECISION_DENY = 2\<rparr>"

definition policy_sys0 :: policy_sys where
  "policy_sys0 = \<lparr>ps_now = 0,
     ps_watcher = \<lparr>w_engine = NewEngine, w_cache = NewCache, w_pending = [], w_inSnapshot = True\<rparr>,
     ps_counters = \<lparr>policyCacheHits = 0, policyCacheMisses = 0\<rparr>\<rparr>"

lemma policy_reach0: "reach policy_init (policy_step wire0 key_order key_order) policy_sys0"
  by (rule reach_init) (simp add: policy_init_def policy_sys0_def)

lemma evaluate_bounded_staleness_witness:
  "\<exists>t. ps_now policy_sys0 - CacheTTL < t \<and> t \<le> ps_now policy_sys0 \<and>
    deny ''no matching rule'' = Engine_Decide (w_engine (ps_watcher policy_sys0)) ''c'' ''t'' ''m'' t \<and>
    decide_spec (ran (eng_rules (w_engine (ps_watcher policy_sys0)))) ''c'' ''t'' ''m'' t (deny ''no matching rule'')"
proof (rule evaluate_bounded_staleness [OF valid_key_order valid_key_order policy_reach0])
  show "evaluate key_order (ps_now policy_sys0) (w_engine (ps_watcher policy_sys0)) ''c'' ''t'' ''m''
      (Some (w_cache (ps_watcher policy_sys0)), ps_counters policy_sys0) =
    (deny ''no matching rule'',
     Some (Cache_Put key_order 0 (''c'', ''t'', ''m'') (deny ''no matching rule'') NewCache),
     \<lparr>policyCacheHits = 0, policyCacheMisses = 1\<rparr>)"
    by (simp add: policy_sys0_def evaluate_def NewCache_def Cache_Get_def Engine_Decide_def NewEngine_def
        Decide_BuildSnapshot Let_def)
qed

text \<open>The decision cache never holds more than \<open>CacheCapacity\<close> entries, in every state the policy
  plane can reach.\<close>

lemma cache_capacity:
  assumes "valid_ord ord" and "valid_ord cord" and "reach policy_init (policy_step k ord cord) s"
  shows "Cache_Len (w_cache (ps_watcher s)) \<le> CacheCapacity"
  using policy_reach_inv [OF assms] by (simp add: policy_inv_def cache_ok_def Cache_Len_def)

lemma cache_capacity_witness: "Cache_Len (w_cache (ps_watcher policy_sys0)) \<le> CacheCapacity"
  by (rule cache_capacity [OF valid_key_order valid_key_order policy_reach0])


definition wire_rule :: PolicyRule where
  "wire_rule = \<lparr>pb_Id = ''r1'', pb_CallerPattern = ''*'', pb_TargetPattern = ''svc'', pb_MethodPattern = [],
     pb_Decision = 1, pb_ExpiresUnixMs = 0, pb_P2PMode = 0, pb_RelayMode = 0\<rparr>"


text \<open>A removal that arrives while the snapshot is still being buffered is lost: the buffered
  copy of the rule is installed at the end of the snapshot and decides requests.\<close>

lemma removal_during_snapshot_lost:
  "eng_rules (w_engine (fst (runOnce k ord (Inr (map RecvEvent
      [POLICY_KIND_ADDED (Some r), POLICY_KIND_REMOVED (pb_Id r), POLICY_KIND_SNAPSHOT_END])) w))) (pb_Id r) =
    Some (FromPB k r)"
  by (auto simp: runOnce_def)

end
