(* ===== verification/PolicyRace.thy ===== *)
theory PolicyRace
  imports Watcher
begin

text \<open>
  \<open>Server.evaluate\<close> is three critical sections, not one: the lookup in the cache, the decision on the
  engine's current snapshot, and the insertion into the cache, each with its own reading of the clock; and
  the watcher changes the engine first and flushes the cache afterwards. Here all of them interleave,
  while the system of the policy watcher takes an evaluation and an event as one step each. A decision of a
  replaced engine can then be answered, or even enter the cache, after the change, which the comment
  of \<open>CacheTTL\<close> foresees; it is gone after \<open>CacheTTL\<close>.
\<close>

section \<open>The sections\<close>

datatype flight = Missed cacheKey | Decided cacheKey Result

record race_sys =
  rc_now :: gotime
  rc_watcher :: Watcher
  rc_flight :: "nat \<rightharpoonup> flight"
  rc_force :: "(gotime \<times> Engine) set"

text \<open>\<open>rc_force\<close> is a ghost: the engines that were in force, with the moments at which they were.\<close>

definition race_init :: "race_sys \<Rightarrow> bool" where
  "race_init s \<longleftrightarrow> w_engine (rc_watcher s) = NewEngine \<and> w_cache (rc_watcher s) = NewCache \<and>
     rc_flight s = Map.empty \<and> rc_force s = {(rc_now s, NewEngine)}"

text \<open>The decision for a key.\<close>

definition decide_key :: "Engine \<Rightarrow> cacheKey \<Rightarrow> gotime \<Rightarrow> Result" where
  "decide_key e key now = (case key of (caller, target, meth) \<Rightarrow> Engine_Decide e caller target meth now)"

text \<open>The two halves of an event.\<close>

definition watch_apply :: "pb_enums \<Rightarrow> rule_ord \<Rightarrow> PolicyEvent \<Rightarrow> Watcher \<Rightarrow> Watcher" where
  "watch_apply k ord ev w = (watch_event k ord ev w)\<lparr>w_cache := w_cache w\<rparr>"

definition watch_flush :: "Watcher \<Rightarrow> Watcher" where
  "watch_flush w = w\<lparr>w_cache := Cache_Flush (w_cache w)\<rparr>"

lemma watch_event_halves:
  "watch_event k ord ev w = watch_apply k ord ev w \<or> watch_event k ord ev w = watch_flush (watch_apply k ord ev w)"
  by (cases "(k, ord, ev, w)" rule: watch_event.cases) (auto simp: watch_apply_def watch_flush_def)

inductive race_step :: "pb_enums \<Rightarrow> rule_ord \<Rightarrow> (Cache \<Rightarrow> cacheKey list) \<Rightarrow> race_sys \<Rightarrow> race_sys \<Rightarrow> bool"
  for k :: pb_enums and ord :: rule_ord and cord :: "Cache \<Rightarrow> cacheKey list" where
  rc_tick: "rc_now s \<le> t \<Longrightarrow>
    race_step k ord cord s (s\<lparr>rc_now := t, rc_force := rc_force s \<union> {rc_now s..t} \<times> {w_engine (rc_watcher s)}\<rparr>)"
| rc_apply: "race_step k ord cord s (s\<lparr>rc_watcher := watch_apply k ord ev (rc_watcher s),
    rc_force := insert (rc_now s, w_engine (watch_apply k ord ev (rc_watcher s))) (rc_force s)\<rparr>)"
| rc_flush: "race_step k ord cord s (s\<lparr>rc_watcher := watch_flush (rc_watcher s)\<rparr>)"
| rc_session: "race_step k ord cord s (s\<lparr>rc_watcher := (rc_watcher s)\<lparr>w_pending := [], w_inSnapshot := True\<rparr>\<rparr>)"
| rc_eval: "evaluate cord (rc_now s) (w_engine (rc_watcher s)) caller target meth (Some (w_cache (rc_watcher s)), n) = (r, Some m, n') \<Longrightarrow>
    race_step k ord cord s (s\<lparr>rc_watcher := (rc_watcher s)\<lparr>w_cache := m\<rparr>\<rparr>)"
| rc_miss: "Cache_Get (rc_now s) key (w_cache (rc_watcher s)) = (None, m) \<Longrightarrow> rc_flight s i = None \<Longrightarrow>
    race_step k ord cord s (s\<lparr>rc_watcher := (rc_watcher s)\<lparr>w_cache := m\<rparr>, rc_flight := (rc_flight s)(i \<mapsto> Missed key)\<rparr>)"
| rc_decide: "rc_flight s i = Some (Missed key) \<Longrightarrow>
    race_step k ord cord s (s\<lparr>rc_flight := (rc_flight s)(i \<mapsto> Decided key (decide_key (w_engine (rc_watcher s)) key (rc_now s)))\<rparr>)"
| rc_put: "rc_flight s i = Some (Decided key r) \<Longrightarrow>
    race_step k ord cord s (s\<lparr>rc_watcher := (rc_watcher s)\<lparr>w_cache := Cache_Put cord (rc_now s) key r (w_cache (rc_watcher s))\<rparr>,
      rc_flight := (rc_flight s)(i := None)\<rparr>)"

text \<open>An evaluation that nothing interrupts, one that hits the cache included, is \<open>rc_eval\<close>. The watcher flushes only after a change;
  that it may do so at any time here only adds behaviours.\<close>

abbreviation race_reach :: "pb_enums \<Rightarrow> rule_ord \<Rightarrow> (Cache \<Rightarrow> cacheKey list) \<Rightarrow> race_sys \<Rightarrow> bool" where
  "race_reach k ord cord \<equiv> reach race_init (race_step k ord cord)"

text \<open>Run without interruption, the three sections of an evaluation are \<open>evaluate\<close>.\<close>

lemma sections_evaluate:
  "evaluate cord now e caller target meth (Some m, n) =
     (case Cache_Get now (caller, target, meth) m of
        (Some r, m') \<Rightarrow> (r, Some m', n\<lparr>policyCacheHits := policyCacheHits n + 1\<rparr>)
      | (None, m') \<Rightarrow>
          (decide_key e (caller, target, meth) now,
           Some (Cache_Put cord now (caller, target, meth) (decide_key e (caller, target, meth) now) m'),
           n\<lparr>policyCacheMisses := policyCacheMisses n + 1\<rparr>))"
  by (simp add: evaluate_def decide_key_def Let_def split: prod.split option.split)

section \<open>What a step does\<close>

text \<open>A step takes a decision with the engine in force, moves a decision into the cache for
  \<open>CacheTTL\<close>, or does neither.\<close>

lemma watch_halves_frame [simp]:
  "w_cache (watch_apply k ord ev w) = w_cache w" "w_engine (watch_apply k ord ev w) = w_engine (watch_event k ord ev w)"
  "w_engine (watch_flush w) = w_engine w" "w_cache (watch_flush w) = Map.empty"
  by (simp_all add: watch_apply_def watch_flush_def Cache_Flush_def)

lemma race_step_now: "race_step k ord cord s t \<Longrightarrow> rc_now s \<le> rc_now t"
  by (induction rule: race_step.induct) auto

lemma race_step_force: "race_step k ord cord s t \<Longrightarrow> rc_force s \<subseteq> rc_force t"
  by (induction rule: race_step.induct) auto

lemma race_step_flight:
  "race_step k ord cord s t \<Longrightarrow> rc_flight t i = Some (Decided key r) \<Longrightarrow>
     rc_flight s i = Some (Decided key r) \<or> r = decide_key (w_engine (rc_watcher s)) key (rc_now s)"
  by (induction rule: race_step.induct) (auto split: if_splits)

lemma Cache_Put_entry:
  assumes "Cache_Put cord now key' r m key = Some ce"
  shows "m key = Some ce \<or> key = key' \<and> ce = \<lparr>ce_res = r, ce_expires = now + CacheTTL\<rparr>"
  using assms Cache_Put_other [of key key' cord now r m ce] by (cases "key = key'") (auto simp: Cache_Put_same)

lemma evaluate_entry:
  assumes "evaluate cord now e caller target meth (Some m, n) = (r, Some m', n')" and "m' key = Some ce"
  shows "m key = Some ce \<or> ce = \<lparr>ce_res = decide_key e key now, ce_expires = now + CacheTTL\<rparr>"
proof -
  let ?g = "Cache_Get now (caller, target, meth) m"
  from assms(1) have "m' = snd ?g \<or>
      m' = Cache_Put cord now (caller, target, meth) (decide_key e (caller, target, meth) now) (snd ?g)"
    by (auto simp: sections_evaluate split: prod.splits option.splits)
  with assms(2) have "snd ?g key = Some ce \<or> ce = \<lparr>ce_res = decide_key e key now, ce_expires = now + CacheTTL\<rparr>"
    using Cache_Put_entry [of cord now "(caller, target, meth)" "decide_key e (caller, target, meth) now" "snd ?g" key ce] by auto
  then show ?thesis using Cache_Get_sub [of now "(caller, target, meth)" m key ce] by blast
qed

lemma race_step_cache:
  "race_step k ord cord s t \<Longrightarrow> w_cache (rc_watcher t) key = Some ce \<Longrightarrow>
     w_cache (rc_watcher s) key = Some ce \<or> ce_expires ce = rc_now s + CacheTTL \<and>
       ((\<exists>i. rc_flight s i = Some (Decided key (ce_res ce))) \<or> ce_res ce = decide_key (w_engine (rc_watcher s)) key (rc_now s))"
proof (induction rule: race_step.induct)
  case (rc_put s i key' r)
  then show ?case using Cache_Put_entry [of cord "rc_now s" key' r "w_cache (rc_watcher s)" key ce] by auto
next
  case (rc_eval s caller target meth n r m n')
  then show ?case using evaluate_entry [OF rc_eval(1), of key ce] by auto
next
  case (rc_miss s key' m i)
  then show ?case using Cache_Get_sub [of "rc_now s" key' "w_cache (rc_watcher s)" key ce] by simp
qed auto

section \<open>Where decisions come from\<close>

text \<open>A decision in flight or in the cache was taken by an engine while it was in force, and no entry
  outlives the time to live.\<close>

definition from_engines :: "race_sys \<Rightarrow> cacheKey \<Rightarrow> Result \<Rightarrow> bool" where
  "from_engines s key r \<longleftrightarrow> (\<exists>(u, e) \<in> rc_force s. r = decide_key e key u)"

definition race_inv :: "race_sys \<Rightarrow> bool" where
  "race_inv s \<longleftrightarrow> (rc_now s, w_engine (rc_watcher s)) \<in> rc_force s \<and> (\<forall>x \<in> rc_force s. fst x \<le> rc_now s) \<and>
     (\<forall>i key r. rc_flight s i = Some (Decided key r) \<longrightarrow> from_engines s key r) \<and>
     (\<forall>key ce. w_cache (rc_watcher s) key = Some ce \<longrightarrow> from_engines s key (ce_res ce) \<and> ce_expires ce \<le> rc_now s + CacheTTL)"

lemma from_engines_step: "race_step k ord cord s t \<Longrightarrow> from_engines s key r \<Longrightarrow> from_engines t key r"
  using race_step_force [of k ord cord s t] unfolding from_engines_def by blast

lemma race_step_in_force:
  assumes "race_step k ord cord s t" and "(rc_now s, w_engine (rc_watcher s)) \<in> rc_force s" and "\<forall>x \<in> rc_force s. fst x \<le> rc_now s"
  shows "(rc_now t, w_engine (rc_watcher t)) \<in> rc_force t \<and> (\<forall>x \<in> rc_force t. fst x \<le> rc_now t)"
  using assms by (induction rule: race_step.induct) auto

lemma race_step_inv:
  assumes st: "race_step k ord cord s t" and inv: "race_inv s"
  shows "race_inv t"
proof -
  have now: "from_engines s key (decide_key (w_engine (rc_watcher s)) key (rc_now s))" for key
    using inv by (auto simp: from_engines_def race_inv_def)
  have "from_engines t key r" if "rc_flight t i = Some (Decided key r)" for i key r
    using race_step_flight [OF st that] inv now [of key] from_engines_step [OF st, of key r]
    unfolding race_inv_def by blast
  moreover have "from_engines t key (ce_res ce) \<and> ce_expires ce \<le> rc_now t + CacheTTL"
    if "w_cache (rc_watcher t) key = Some ce" for key ce
  proof -
    have "from_engines s key (ce_res ce)" "ce_expires ce \<le> rc_now s + CacheTTL"
      using race_step_cache [OF st that] inv now [of key] unfolding race_inv_def by (metis, metis order_refl)
    then show ?thesis using from_engines_step [OF st, of key "ce_res ce"] race_step_now [OF st] by simp
  qed
  ultimately show ?thesis using race_step_in_force [OF st] inv unfolding race_inv_def by blast
qed

interpretation race_system: inductive_invariant race_init "race_step k ord cord" race_inv for k ord cord
proof
  show "race_init s \<Longrightarrow> race_inv s" for s by (simp add: race_init_def race_inv_def NewCache_def)
qed (rule race_step_inv)

text \<open>An answer from the cache, too, is a decision of an engine while it was in force.\<close>

lemma evaluate_from_engines:
  assumes "race_inv s"
    and "evaluate cord (rc_now s) (w_engine (rc_watcher s)) caller target meth (Some (w_cache (rc_watcher s)), n) = (r, c, n')"
  shows "from_engines s (caller, target, meth) r"
proof (cases "fst (Cache_Get (rc_now s) (caller, target, meth) (w_cache (rc_watcher s)))")
  case None
  then have "r = decide_key (w_engine (rc_watcher s)) (caller, target, meth) (rc_now s)"
    using assms(2) by (auto simp: sections_evaluate split: prod.splits option.splits)
  then show ?thesis using assms(1) by (auto simp: from_engines_def race_inv_def)
next
  case (Some r')
  then have "r = r'" using assms(2) by (auto simp: sections_evaluate split: prod.splits option.splits)
  moreover obtain ce where "w_cache (rc_watcher s) (caller, target, meth) = Some ce" "r' = ce_res ce"
    using Some by (auto simp: Cache_Get_def split: option.splits if_splits)
  ultimately show ?thesis using assms(1) by (simp add: race_inv_def)
qed

text \<open>Every engine in force decides by its rules, and the cache keeps within its capacity.\<close>

definition race_ok :: "race_sys \<Rightarrow> bool" where
  "race_ok s \<longleftrightarrow> finite (dom (eng_rules (w_engine (rc_watcher s)))) \<and> engine_ok (w_engine (rc_watcher s)) \<and>
     (\<forall>x \<in> rc_force s. engine_ok (snd x)) \<and> cache_ok (w_cache (rc_watcher s))"

lemma race_step_ok:
  assumes "race_step k ord cord s t" and "valid_ord ord" and "valid_ord cord" and "race_ok s"
  shows "race_ok t"
  using assms
proof (induction rule: race_step.induct)
  case (rc_apply s ev)
  then show ?case using watch_event_engine_ok [of ord "rc_watcher s" k ev] by (auto simp: race_ok_def)
next
  case (rc_eval s caller target meth n r m n')
  then show ?case using evaluate_cache_ok [OF rc_eval(1)] by (auto simp: race_ok_def)
next
  case (rc_miss s key m i)
  then show ?case using Cache_Get_ok [of "w_cache (rc_watcher s)" "rc_now s" key] by (auto simp: race_ok_def)
next
  case (rc_put s i key r)
  then show ?case using Cache_Put_ok [of "w_cache (rc_watcher s)" cord] by (auto simp: race_ok_def)
qed (auto simp: race_ok_def)

lemma race_reach_ok:
  assumes "race_reach k ord cord s" and "valid_ord ord" and "valid_ord cord"
  shows "race_ok s"
  using assms(1)
proof (induction rule: reach.induct)
  case (reach_init s)
  then show ?case using engine_inv.inv_init by (auto simp: race_init_def race_ok_def NewCache_def NewEngine_def)
qed (rule race_step_ok [OF _ assms(2,3)])

text \<open>So a request that was let pass was let pass by a rule in force at a moment in the past.\<close>

definition rule_allowed :: "(gotime \<times> Engine) set \<Rightarrow> cacheKey \<Rightarrow> bool" where
  "rule_allowed force key \<longleftrightarrow> (case key of (caller, target, meth) \<Rightarrow>
     (\<exists>(u, e) \<in> force. \<exists>r \<in> ran (eng_rules e). applicable caller target meth (UnixMilli u) r \<and> rule_Decision r = DecisionAllow))"

lemma from_engines_allowed:
  assumes "race_ok s" and "from_engines s key r" and "res_Decision r \<noteq> DecisionDeny"
  shows "rule_allowed (rc_force s) key"
proof -
  obtain caller target meth where key: "key = (caller, target, meth)" by (cases key)
  obtain u e where e: "(u, e) \<in> rc_force s" "r = Engine_Decide e caller target meth u"
    using assms(2) by (auto simp: from_engines_def decide_key_def key)
  have "engine_ok e" using assms(1) e(1) by (auto simp: race_ok_def)
  from engine_ok_decide [OF this, of caller target meth u]
  have "decide_spec (ran (eng_rules e)) caller target meth u r" using e(2) by simp
  moreover have "res_Decision r = DecisionAllow" using assms(3) by (cases "res_Decision r") auto
  ultimately show ?thesis using decide_spec_allow e(1) by (fastforce simp: rule_allowed_def key)
qed

section \<open>A change settles\<close>

text \<open>Steps that leave the engine as it is.\<close>

definition quiet_step :: "pb_enums \<Rightarrow> rule_ord \<Rightarrow> (Cache \<Rightarrow> cacheKey list) \<Rightarrow> race_sys \<Rightarrow> race_sys \<Rightarrow> bool" where
  "quiet_step k ord cord s t \<longleftrightarrow> race_step k ord cord s t \<and> w_engine (rc_watcher t) = w_engine (rc_watcher s)"

definition no_decision_in_flight :: "race_sys \<Rightarrow> bool" where
  "no_decision_in_flight s \<longleftrightarrow> (\<forall>i key r. rc_flight s i \<noteq> Some (Decided key r))"

text \<open>Since the time \<open>t0\<close> at which \<open>e\<close> was in force and no decision in flight, every new decision is one of \<open>e\<close>.\<close>

definition taken_since :: "gotime \<Rightarrow> Engine \<Rightarrow> race_sys \<Rightarrow> cacheKey \<Rightarrow> Result \<Rightarrow> bool" where
  "taken_since t0 e s key r \<longleftrightarrow> (\<exists>u. t0 \<le> u \<and> u \<le> rc_now s \<and> r = decide_key e key u)"

definition settling :: "gotime \<Rightarrow> gotime \<Rightarrow> Engine \<Rightarrow> race_sys \<Rightarrow> bool" where
  "settling t0 t1 e s \<longleftrightarrow> t0 \<le> rc_now s \<and> w_engine (rc_watcher s) = e \<and>
     (\<forall>i key r. rc_flight s i = Some (Decided key r) \<longrightarrow> taken_since t0 e s key r) \<and>
     (\<forall>key ce. w_cache (rc_watcher s) key = Some ce \<longrightarrow> ce_expires ce \<le> t1 \<or> taken_since t0 e s key (ce_res ce))"

lemma settling_init:
  assumes "race_inv s" and "no_decision_in_flight s"
  shows "settling (rc_now s) (rc_now s + CacheTTL) (w_engine (rc_watcher s)) s"
    and "w_cache (rc_watcher s) = NewCache \<Longrightarrow> settling (rc_now s) (rc_now s) (w_engine (rc_watcher s)) s"
  using assms by (simp_all add: settling_def race_inv_def no_decision_in_flight_def NewCache_def)

lemma settling_step:
  assumes q: "quiet_step k ord cord s t" and inv: "settling t0 t1 e s"
  shows "settling t0 t1 e t"
proof -
  have st: "race_step k ord cord s t" and e: "w_engine (rc_watcher t) = w_engine (rc_watcher s)"
    using q by (simp_all add: quiet_step_def)
  have mono: "taken_since t0 e t key r" if "taken_since t0 e s key r" for key r
  proof -
    from that obtain u where "t0 \<le> u" "u \<le> rc_now s" "r = decide_key e key u" by (auto simp: taken_since_def)
    then show ?thesis unfolding taken_since_def using race_step_now [OF st] by (intro exI [of _ u]) simp
  qed
  have new: "taken_since t0 e s key (decide_key (w_engine (rc_watcher s)) key (rc_now s))" for key
    using inv by (auto simp: settling_def taken_since_def)
  have "taken_since t0 e t key r" if "rc_flight t i = Some (Decided key r)" for i key r
    using race_step_flight [OF st that] inv mono [of key r] new [of key] unfolding settling_def by blast
  moreover have "ce_expires ce \<le> t1 \<or> taken_since t0 e t key (ce_res ce)"
    if "w_cache (rc_watcher t) key = Some ce" for key ce
    using race_step_cache [OF st that] inv mono [of key "ce_res ce"] new [of key] unfolding settling_def by metis
  ultimately show ?thesis using inv e race_step_now [OF st] unfolding settling_def by simp
qed

lemma settling_steps: "(quiet_step k ord cord)\<^sup>*\<^sup>* s t \<Longrightarrow> settling t0 t1 e s \<Longrightarrow> settling t0 t1 e t"
  by (induction rule: rtranclp_induct) (auto intro: settling_step)

lemma settled_evaluate:
  assumes "settling t0 t1 e s" and "t1 \<le> rc_now s"
  shows "taken_since t0 e s (caller, target, meth)
    (fst (evaluate cord (rc_now s) (w_engine (rc_watcher s)) caller target meth (Some (w_cache (rc_watcher s)), n)))"
proof (cases "fst (Cache_Get (rc_now s) (caller, target, meth) (w_cache (rc_watcher s)))")
  case None
  then show ?thesis
    using assms(1) by (auto simp: sections_evaluate taken_since_def settling_def split: prod.splits option.splits)
next
  case (Some r)
  then obtain ce where "w_cache (rc_watcher s) (caller, target, meth) = Some ce" "rc_now s < ce_expires ce" "r = ce_res ce"
    by (auto simp: Cache_Get_def split: option.splits if_splits)
  then have "taken_since t0 e s (caller, target, meth) r" using assms unfolding settling_def by fastforce
  then show ?thesis using Some by (auto simp: sections_evaluate split: prod.splits option.splits)
qed

text \<open>C7: a change of the policy settles, however the watcher and the sections of concurrent evaluations
  interleave. From a state with no decision under way, if the engine then stays as it is, every evaluation
  made \<open>CacheTTL\<close> later or after that answers with a decision of this engine, taken since that
  state; and so does every evaluation at once if the cache is empty in that state, as it is right after the watcher's flush.\<close>

theorem policy_change_settles:
  assumes "race_reach k ord cord s" and "no_decision_in_flight s" and "(quiet_step k ord cord)\<^sup>*\<^sup>* s t"
    and "w_cache (rc_watcher s) = NewCache \<or> rc_now s + CacheTTL \<le> rc_now t"
  shows "\<exists>u. rc_now s \<le> u \<and> u \<le> rc_now t \<and>
    fst (evaluate cord (rc_now t) (w_engine (rc_watcher t)) caller target meth (Some (w_cache (rc_watcher t)), n)) =
      Engine_Decide (w_engine (rc_watcher s)) caller target meth u"
proof -
  note init = settling_init [OF race_system.reach_inv [OF assms(1)] assms(2)]
  have "\<exists>t1 \<le> rc_now t. settling (rc_now s) t1 (w_engine (rc_watcher s)) t"
    using assms(4)
  proof
    assume "w_cache (rc_watcher s) = NewCache"
    from settling_steps [OF assms(3) init(2) [OF this]] show ?thesis by (auto simp: settling_def)
  next
    assume "rc_now s + CacheTTL \<le> rc_now t"
    then show ?thesis using settling_steps [OF assms(3) init(1)] by blast
  qed
  then show ?thesis using settled_evaluate by (fastforce simp: taken_since_def decide_key_def)
qed

section \<open>Not at once\<close>

text \<open>An evaluation that misses, decides, and is overtaken by an event of the watcher before it inserts.\<close>

definition after_event :: "pb_enums \<Rightarrow> rule_ord \<Rightarrow> PolicyEvent \<Rightarrow> race_sys \<Rightarrow> race_sys" where
  "after_event k ord ev s = s\<lparr>rc_watcher := watch_event k ord ev (rc_watcher s),
     rc_force := insert (rc_now s, w_engine (watch_event k ord ev (rc_watcher s))) (rc_force s)\<rparr>"

lemma race_reach_event: "race_reach k ord cord s \<Longrightarrow> race_reach k ord cord (after_event k ord ev s)"
proof -
  assume "race_reach k ord cord s"
  from reach_step [where step = "race_step k ord cord", OF this rc_apply [of k ord cord s ev]]
  have r: "race_reach k ord cord (s\<lparr>rc_watcher := watch_apply k ord ev (rc_watcher s),
      rc_force := insert (rc_now s, w_engine (watch_event k ord ev (rc_watcher s))) (rc_force s)\<rparr>)" by simp
  from watch_event_halves [of k ord ev "rc_watcher s"] show "race_reach k ord cord (after_event k ord ev s)"
  proof
    assume "watch_event k ord ev (rc_watcher s) = watch_apply k ord ev (rc_watcher s)"
    with r show ?thesis by (simp only: after_event_def)
  next
    assume h: "watch_event k ord ev (rc_watcher s) = watch_flush (watch_apply k ord ev (rc_watcher s))"
    from reach_step [where step = "race_step k ord cord", OF r rc_flush]
    have "race_reach k ord cord (s\<lparr>rc_force := insert (rc_now s, w_engine (watch_event k ord ev (rc_watcher s))) (rc_force s),
        rc_watcher := watch_event k ord ev (rc_watcher s)\<rparr>)" by (simp flip: h)
    moreover have "s\<lparr>rc_force := x, rc_watcher := y\<rparr> = s\<lparr>rc_watcher := y, rc_force := x\<rparr>" for x y by simp
    ultimately show ?thesis by (simp only: after_event_def)
  qed
qed

lemma after_event_simps [simp]:
  "rc_watcher (after_event k ord ev s) = watch_event k ord ev (rc_watcher s)" "rc_flight (after_event k ord ev s) = rc_flight s"
  "rc_now (after_event k ord ev s) = rc_now s"
  by (simp_all add: after_event_def)

definition after_tick :: "gotime \<Rightarrow> race_sys \<Rightarrow> race_sys" where
  "after_tick t s = s\<lparr>rc_now := t, rc_force := rc_force s \<union> {rc_now s..t} \<times> {w_engine (rc_watcher s)}\<rparr>"

lemma after_tick_simps [simp]:
  "rc_watcher (after_tick t s) = rc_watcher s" "rc_flight (after_tick t s) = rc_flight s" "rc_now (after_tick t s) = t"
  by (simp_all add: after_tick_def)

lemma race_step_tick: "rc_now s \<le> t \<Longrightarrow> race_step k ord cord s (after_tick t s)"
  unfolding after_tick_def by (rule rc_tick)

lemma overtaken:
  assumes "race_reach k ord cord s" and "rc_flight s i = None" and "fst (Cache_Get (rc_now s) key (w_cache (rc_watcher s))) = None"
  shows "\<exists>t. race_reach k ord cord t \<and> rc_now t = rc_now s \<and> rc_flight t = rc_flight s \<and>
    w_engine (rc_watcher t) = w_engine (watch_event k ord ev (rc_watcher s)) \<and>
    w_cache (rc_watcher t) key = Some \<lparr>ce_res = decide_key (w_engine (rc_watcher s)) key (rc_now s), ce_expires = rc_now s + CacheTTL\<rparr>"
proof -
  let ?w = "(rc_watcher s)\<lparr>w_cache := snd (Cache_Get (rc_now s) key (w_cache (rc_watcher s)))\<rparr>"
  let ?r = "decide_key (w_engine (rc_watcher s)) key (rc_now s)"
  let ?s1 = "s\<lparr>rc_watcher := ?w, rc_flight := (rc_flight s)(i \<mapsto> Missed key)\<rparr>"
  let ?s2 = "?s1\<lparr>rc_flight := (rc_flight ?s1)(i \<mapsto> Decided key (decide_key (w_engine (rc_watcher ?s1)) key (rc_now ?s1)))\<rparr>"
  let ?s3 = "(after_event k ord ev ?s2)"
  let ?s4 = "?s3\<lparr>rc_watcher := (rc_watcher ?s3)\<lparr>w_cache := Cache_Put cord (rc_now ?s3) key ?r (w_cache (rc_watcher ?s3))\<rparr>,
      rc_flight := (rc_flight ?s3)(i := None)\<rparr>"
  have "race_step k ord cord s ?s1" using assms(2,3) by (intro rc_miss) (simp_all add: prod_eq_iff)
  with assms(1) have "race_reach k ord cord ?s1" by (rule reach_step)
  moreover have "race_step k ord cord ?s1 ?s2" by (rule rc_decide) simp
  ultimately have "race_reach k ord cord ?s2" by (rule reach_step)
  then have "race_reach k ord cord ?s3" by (rule race_reach_event)
  moreover have "race_step k ord cord ?s3 ?s4" by (rule rc_put) simp
  ultimately have "race_reach k ord cord ?s4" by (rule reach_step)
  moreover have "w_engine (watch_event k ord ev ?w) = w_engine (watch_event k ord ev (rc_watcher s))"
    by (cases "(k, ord, ev, rc_watcher s)" rule: watch_event.cases) auto
  ultimately show ?thesis by (intro exI [of _ ?s4]) (simp add: Cache_Put_same fun_upd_idem assms(2))
qed

text \<open>The bound is needed: if the watcher applies an event, the flush of
  the cache included, while an evaluation sits between its decision and its insertion, then for up
  to the cache's time to live afterwards evaluations of that request answer with the decision of the
  old engine, whatever the new one says.\<close>

lemma flush_overtaken:
  assumes "race_reach k ord cord s" and "rc_flight s i = None"
    and "fst (Cache_Get (rc_now s) (caller, target, meth) (w_cache (rc_watcher s))) = None"
    and "0 \<le> d" and "d < CacheTTL"
  shows "\<exists>t. race_reach k ord cord t \<and> rc_now t = rc_now s + d \<and>
    w_engine (rc_watcher t) = w_engine (watch_event k ord ev (rc_watcher s)) \<and>
    fst (evaluate cord (rc_now t) (w_engine (rc_watcher t)) caller target meth (Some (w_cache (rc_watcher t)), n)) =
      Engine_Decide (w_engine (rc_watcher s)) caller target meth (rc_now s)"
proof -
  obtain t where t: "race_reach k ord cord t" "rc_now t = rc_now s"
    "w_engine (rc_watcher t) = w_engine (watch_event k ord ev (rc_watcher s))"
    "w_cache (rc_watcher t) (caller, target, meth) =
      Some \<lparr>ce_res = decide_key (w_engine (rc_watcher s)) (caller, target, meth) (rc_now s), ce_expires = rc_now s + CacheTTL\<rparr>"
    using overtaken [OF assms(1-3), of ev] by blast
  have "race_step k ord cord t (after_tick (rc_now s + d) t)" using assms(4) t(2) by (intro race_step_tick) simp
  with t(1) have "race_reach k ord cord (after_tick (rc_now s + d) t)" by (rule reach_step)
  then show ?thesis
    using t(2-4) assms(5) by (intro exI [of _ "after_tick (rc_now s + d) t"]) (simp add: sections_evaluate Cache_Get_def decide_key_def)
qed

definition race_rule :: PolicyRule where
  "race_rule = \<lparr>pb_Id = ''r'', pb_CallerPattern = ''*'', pb_TargetPattern = ''*'', pb_MethodPattern = [], pb_Decision = 1,
     pb_ExpiresUnixMs = 0, pb_P2PMode = 0, pb_RelayMode = 0\<rparr>"

definition race0 :: race_sys where
  "race0 = \<lparr>rc_now = 0, rc_watcher = \<lparr>w_engine = NewEngine, w_cache = NewCache, w_pending = [], w_inSnapshot = True\<rparr>,
     rc_flight = Map.empty, rc_force = {(0, NewEngine)}\<rparr>"

text \<open>The rule is the whole snapshot.\<close>

definition race1 :: race_sys where
  "race1 = after_event wire0 key_order POLICY_KIND_SNAPSHOT_END (after_event wire0 key_order (POLICY_KIND_ADDED (Some race_rule)) race0)"

lemma race1_reach: "race_reach wire0 key_order key_order race1"
  unfolding race1_def by (intro race_reach_event reach_init) (simp add: race_init_def race0_def)

lemma race1_engine:
  "w_engine (rc_watcher race1) = \<lparr>eng_cur = Some (BuildSnapshot [FromPB wire0 race_rule]), eng_rules = [''r'' \<mapsto> FromPB wire0 race_rule]\<rparr>"
  by (simp add: race1_def race0_def Engine_Set_def Engine_Apply_def Let_def insert_rule_def key_order_def range_values_def FromPB_def race_rule_def)

lemma race1_allows: "Engine_Decide (w_engine (rc_watcher race1)) ''a'' ''svc'' ''m'' now = rule_result (FromPB wire0 race_rule)"
proof -
  have "matchGlob ''*'' ''a''" "matchGlob ''*'' ''svc''" by code_simp+
  then show ?thesis
    by (simp add: race1_engine Engine_Decide_def Snapshot_Decide_def BuildSnapshot_def snapshot_insert_def FromPB_def race_rule_def)
qed

lemma race1_removed_denies:
  "Engine_Decide (w_engine (watch_event wire0 key_order (POLICY_KIND_REMOVED ''r'') (rc_watcher race1))) ''a'' ''svc'' ''m'' now =
     deny ''no matching rule''"
  by (simp add: race1_engine Engine_Decide_def Engine_Remove_def Engine_Apply_def Let_def key_order_def range_values_def
      BuildSnapshot_def Snapshot_Decide_def)

text \<open>The rule is removed, the engine denies, and almost \<open>CacheTTL\<close> later the request is still allowed.\<close>

lemma removed_rule_allows:
  "\<exists>t. race_reach wire0 key_order key_order t \<and> rc_now t = CacheTTL - 1 \<and>
     res_Decision (Engine_Decide (w_engine (rc_watcher t)) ''a'' ''svc'' ''m'' (rc_now t)) = DecisionDeny \<and>
     res_Decision (fst (evaluate key_order (rc_now t) (w_engine (rc_watcher t)) ''a'' ''svc'' ''m''
       (Some (w_cache (rc_watcher t)), \<lparr>policyCacheHits = 0, policyCacheMisses = 0\<rparr>))) = DecisionAllow"
proof -
  have c: "rc_flight race1 0 = None" "fst (Cache_Get (rc_now race1) (''a'', ''svc'', ''m'') (w_cache (rc_watcher race1))) = None"
    "rc_now race1 = 0"
    by (simp_all add: race1_def race0_def NewCache_def Cache_Flush_def Cache_Get_def)
  have d: "0 \<le> CacheTTL - 1" "CacheTTL - 1 < CacheTTL" using CacheTTL_pos by simp_all
  have "rule_Decision (FromPB wire0 race_rule) = DecisionAllow" by code_simp
  moreover from flush_overtaken [OF race1_reach c(1,2) d, of "POLICY_KIND_REMOVED ''r''" "\<lparr>policyCacheHits = 0, policyCacheMisses = 0\<rparr>"]
  obtain t where "race_reach wire0 key_order key_order t" "rc_now t = rc_now race1 + (CacheTTL - 1)"
    "w_engine (rc_watcher t) = w_engine (watch_event wire0 key_order (POLICY_KIND_REMOVED ''r'') (rc_watcher race1))"
    "fst (evaluate key_order (rc_now t) (w_engine (rc_watcher t)) ''a'' ''svc'' ''m''
      (Some (w_cache (rc_watcher t)), \<lparr>policyCacheHits = 0, policyCacheMisses = 0\<rparr>)) = rule_result (FromPB wire0 race_rule)"
    unfolding race1_allows by blast
  ultimately show ?thesis
    using c(3) race1_removed_denies by (intro exI [of _ t]) (simp add: deny_def rule_result_def)
qed

text \<open>A state with an entry of the removed rule, and one \<open>CacheTTL\<close> later.\<close>

theorem policy_change_settles_witness:
  "\<exists>s t. race_reach wire0 key_order key_order s \<and> (quiet_step wire0 key_order key_order)\<^sup>*\<^sup>* s t \<and>
     w_cache (rc_watcher t) (''a'', ''svc'', ''m'') = Some \<lparr>ce_res = rule_result (FromPB wire0 race_rule), ce_expires = CacheTTL\<rparr> \<and>
     fst (evaluate key_order (rc_now t) (w_engine (rc_watcher t)) ''a'' ''svc'' ''m''
       (Some (w_cache (rc_watcher t)), \<lparr>policyCacheHits = 0, policyCacheMisses = 0\<rparr>)) = deny ''no matching rule''"
proof -
  have c: "rc_flight race1 = Map.empty" "fst (Cache_Get (rc_now race1) (''a'', ''svc'', ''m'') (w_cache (rc_watcher race1))) = None"
    "rc_now race1 = 0"
    by (simp_all add: race1_def race0_def NewCache_def Cache_Flush_def Cache_Get_def)
  obtain s where s: "race_reach wire0 key_order key_order s" "rc_now s = 0" "rc_flight s = Map.empty"
    "w_engine (rc_watcher s) = w_engine (watch_event wire0 key_order (POLICY_KIND_REMOVED ''r'') (rc_watcher race1))"
    "w_cache (rc_watcher s) (''a'', ''svc'', ''m'') = Some \<lparr>ce_res = rule_result (FromPB wire0 race_rule), ce_expires = CacheTTL\<rparr>"
    using overtaken [OF race1_reach _ c(2), of 0 "POLICY_KIND_REMOVED ''r''"] c(1,3) by (auto simp: decide_key_def race1_allows)
  let ?t = "after_tick CacheTTL s"
  have q: "(quiet_step wire0 key_order key_order)\<^sup>*\<^sup>* s ?t"
    using race_step_tick [of s CacheTTL wire0 key_order key_order] s(2) CacheTTL_pos by (intro r_into_rtranclp) (simp add: quiet_step_def)
  have "no_decision_in_flight s" "w_cache (rc_watcher s) = NewCache \<or> rc_now s + CacheTTL \<le> rc_now ?t" using s(2,3) by (simp_all add: no_decision_in_flight_def)
  from policy_change_settles [OF s(1) this(1) q this(2), of "''a''" "''svc''" "''m''" "\<lparr>policyCacheHits = 0, policyCacheMisses = 0\<rparr>"]
  have "fst (evaluate key_order (rc_now ?t) (w_engine (rc_watcher ?t)) ''a'' ''svc'' ''m''
       (Some (w_cache (rc_watcher ?t)), \<lparr>policyCacheHits = 0, policyCacheMisses = 0\<rparr>)) = deny ''no matching rule''"
    unfolding s(4) race1_removed_denies by (auto simp: s(4))
  then show ?thesis using s(1,5) q by (intro exI [of _ s] exI [of _ ?t]) simp
qed

section \<open>Every answer\<close>

text \<open>C6: every answer of the policy is justified. In every state the policy plane can reach, with the sections of
  concurrent evaluations and of the watcher interleaved in any way, an evaluation answers, from the cache or not, with a
  decision that some engine took while it was in force, and that decision is what the rules of that engine
  say about the request at that moment.\<close>

theorem evaluate_justified:
  assumes "race_reach k ord cord s" and "valid_ord ord" and "valid_ord cord"
    and "evaluate cord (rc_now s) (w_engine (rc_watcher s)) caller target meth (Some (w_cache (rc_watcher s)), n) = (r, c, n')"
  shows "\<exists>u e. (u, e) \<in> rc_force s \<and> u \<le> rc_now s \<and> r = Engine_Decide e caller target meth u \<and>
    decide_spec (ran (eng_rules e)) caller target meth u r"
proof -
  note inv = race_system.reach_inv [OF assms(1)]
  from evaluate_from_engines [OF inv assms(4)] obtain u e where e: "(u, e) \<in> rc_force s" "r = Engine_Decide e caller target meth u"
    by (auto simp: from_engines_def decide_key_def)
  moreover have "u \<le> rc_now s" "engine_ok e"
    using e(1) inv race_reach_ok [OF assms(1-3)] by (auto simp: race_inv_def race_ok_def)
  ultimately show ?thesis using engine_ok_decide by blast
qed

theorem evaluate_justified_witness:
  "\<exists>u e. (u, e) \<in> rc_force race1 \<and> u \<le> 0 \<and> rule_result (FromPB wire0 race_rule) = Engine_Decide e ''a'' ''svc'' ''m'' u \<and>
    decide_spec (ran (eng_rules e)) ''a'' ''svc'' ''m'' u (rule_result (FromPB wire0 race_rule))"
proof -
  have c: "w_cache (rc_watcher race1) = Map.empty" "rc_now race1 = 0"
    by (simp_all add: race1_def race0_def NewCache_def Cache_Flush_def)
  obtain m n' where "evaluate key_order (rc_now race1) (w_engine (rc_watcher race1)) ''a'' ''svc'' ''m''
      (Some (w_cache (rc_watcher race1)), \<lparr>policyCacheHits = 0, policyCacheMisses = 0\<rparr>) = (rule_result (FromPB wire0 race_rule), m, n')"
    by (simp add: sections_evaluate c Cache_Get_def decide_key_def race1_allows)
  from evaluate_justified [OF race1_reach valid_key_order valid_key_order this] show ?thesis by (simp add: c)
qed

end
