(* ===== verification/RelaySys.thy ===== *)
theory RelaySys
  imports EdgeConn EdgeResume EdgeCtrlProps PlaneSys PolicyRace
begin

text \<open>
  The relay as one transition system: every goroutine of the process acts on the one \<open>Server\<close>, in any
  order, in the atomic pieces the component theories give. The forwarding plane with its socket and
  collector, the policy watcher, the connections with their control loops, and the phases of the
  stream handlers are all here; the system is the one \<open>main\<close> starts when it is given a tenant
  (policy, cache, audit) and a forwarding address. The ghost fields remember the certificate each
  served connection presented, the armed nonces and punches, and the policy engines that were in force.
  An evaluation of the policy may be interrupted between its locked sections, and an event of the
  watcher between the change of the engine and the flush of the cache.
\<close>

section \<open>The system\<close>

record relay =
  rl_now :: gotime
  rl_srv :: Server
  rl_pending :: "Rule list"
  rl_inSnapshot :: bool
  rl_served :: "(AgentConn \<times> tls_certs) set"
  rl_hist :: "auth_event list"
  rl_flight :: "nat \<rightharpoonup> flight"
  rl_force :: "(gotime \<times> Engine) set"

abbreviation rl_plane :: "relay \<Rightarrow> Plane" where
  "rl_plane s \<equiv> the (sv_forward (rl_srv s))"

definition relay_init :: "relay \<Rightarrow> bool" where
  "relay_init s \<longleftrightarrow> (\<exists>relayID region aud pool d d' obs eps. aud \<in> {None, Some NewEmitter} \<and>
     rl_srv s = SetSuccessors eps (edge_New (Registry_New relayID region) (Some NewEngine) (Some NewCache) aud pool
       (Some (SetIdleTTL d (SetPendingTTL d' NewPlane))) obs)) \<and> rl_served s = {} \<and> rl_hist s = [] \<and>
     rl_flight s = Map.empty \<and> rl_force s = {(rl_now s, NewEngine)}"

text \<open>The watcher's view of the server, and its view back.\<close>

definition watcher_of :: "relay \<Rightarrow> Watcher" where
  "watcher_of s = \<lparr>w_engine = the (sv_policy (rl_srv s)), w_cache = the (sv_cache (rl_srv s)),
     w_pending = rl_pending s, w_inSnapshot = rl_inSnapshot s\<rparr>"

definition set_watcher :: "Watcher \<Rightarrow> relay \<Rightarrow> relay" where
  "set_watcher w s = s\<lparr>rl_srv := (rl_srv s)\<lparr>sv_policy := Some (w_engine w), sv_cache := Some (w_cache w)\<rparr>,
     rl_pending := w_pending w, rl_inSnapshot := w_inSnapshot w\<rparr>"

text \<open>The event a control frame adds to the history: a successful FORWARD_REGISTER.\<close>

definition armed_by :: "gotime \<Rightarrow> AgentConn \<Rightarrow> frame \<Rightarrow> Server \<Rightarrow> auth_event list" where
  "armed_by now ac f s = (case (f_Type f, f_Msg f, sv_forward s) of
     (FrameTypeForwardRegister, Some (M_ForwardRegister i n), Some p) \<Rightarrow>
       if length n = PunchNonceSize \<and> fst (ArmPending now i (ac_uri ac) n p) = None
       then [Armed now i (ac_uri ac) n] else []
   | _ \<Rightarrow> [])"

text \<open>Two more ids before the counter of the plane wraps, enough for any handler.\<close>

definition ids_left :: "Server \<Rightarrow> bool" where
  "ids_left s \<longleftrightarrow> (\<forall>p. sv_forward s = Some p \<longrightarrow> nextID p \<noteq> - 1 \<and> nextID p \<noteq> - 2)"

text \<open>
  The goroutines that act on the server alone: the phases of the stream handlers, the resume and
  migrate handlers, the drivers of FORWARD_RESUME, the heartbeat, the enforcement of required P2P and
  the audit sender. The phases \<open>cs_first\<close> and \<open>cs_resolve\<close> evaluate the policy without interruption; after an
  interrupted evaluation the handler goes on with \<open>hd_caller_checked\<close> or \<open>hd_callee_checked\<close>. The matchers' own goroutines (\<open>hd_matchers\<close>) and the peer connections
  (\<open>hd_peers\<close>) may do anything to their part of the server here; their theories say what they do.
\<close>

inductive handler_step :: "edge_env \<Rightarrow> gotime \<Rightarrow> Server \<Rightarrow> Server \<Rightarrow> bool"
  for env :: edge_env and now :: gotime where
  hd_begin: "handler_step env now s (cs_begin s)"
| hd_first: "cs_first env now ac fr s = (s', es, ph) \<Longrightarrow> handler_step env now s s'"
| hd_resolve: "cs_resolve env now ac os p2p rm s = (s', es, ph) \<Longrightarrow> handler_step env now s s'"
| hd_caller_checked: "cs_caller_checked env now ac os dec s = (s', es, ph) \<Longrightarrow> handler_step env now s s'"
| hd_callee_checked: "cs_callee_checked env now ac os p2p rm prov dec s = (s', es, ph) \<Longrightarrow> handler_step env now s s'"
| hd_incoming: "cs_incoming ac l res s = (s', es, ph) \<Longrightarrow> handler_step env now s s'"
| hd_ack: "ids_left s \<Longrightarrow> cs_ack env now ac l ack okC okP s = Some (s', es, ph) \<Longrightarrow> handler_step env now s s'"
| hd_spliced: "cs_spliced l n s = (s', es, ph) \<Longrightarrow> handler_step env now s s'"
| hd_forwarded: "cs_forwarded l a b s = (s', es, ph) \<Longrightarrow> handler_step env now s s'"
| hd_resume_submit: "handleResumeHalf_submit now r u f s = (s', es, ph) \<Longrightarrow> handler_step env now s s'"
| hd_resume_matched: "handleResumeHalf_matched r matched s = (s', es, ph) \<Longrightarrow> handler_step env now s s'"
| hd_migrate_submit: "handleMigrateToRelay_submit now now r u f s = (s', es, ph, prior) \<Longrightarrow> handler_step env now s s'"
| hd_migrate_matched: "handleMigrateToRelay_matched r prior matched s = (s', es, ph) \<Longrightarrow> handler_step env now s s'"
| hd_splice_end: "splicePair_end r r' n s = Some (s', es, ph) \<Longrightarrow> handler_step env now s s'"
| hd_drive: "ids_left s \<Longrightarrow> driveForwardResume_end env now now r peer s = Some (s', es) \<Longrightarrow> handler_step env now s s'"
| hd_matchers: "handler_step env now s (s\<lparr>sv_resumer := m, sv_forwardResumer := m'\<rparr>)"
| hd_peers: "handler_step env now s (bump f (s\<lparr>sv_pool := pool\<rparr>))"
| hd_successors: "handler_step env now s (SetSuccessors eps s)"
| hd_enforce: "handler_step env now s (s\<lparr>sv_migrated := snd (migrated_Lookup now i (sv_migrated s))\<rparr>)"
| hd_audit: "sv_audit s = Some em \<Longrightarrow> emitter_Run_step em = Some (ev, em') \<Longrightarrow> handler_step env now s (s\<lparr>sv_audit := Some em'\<rparr>)"

text \<open>The relay: those, and the parts that have state beyond the server.\<close>

inductive relay_step :: "pb_enums \<Rightarrow> rule_ord \<Rightarrow> edge_env \<Rightarrow> relay \<Rightarrow> relay \<Rightarrow> bool"
  for k :: pb_enums and ord :: rule_ord and env :: edge_env where
  rl_tick: "rl_now s \<le> t \<Longrightarrow> relay_step k ord env s (s\<lparr>rl_now := t,
    rl_force := rl_force s \<union> {rl_now s..t} \<times> {the (sv_policy (rl_srv s))}\<rparr>)"
| rl_handler: "handler_step env (rl_now s) (rl_srv s) srv \<Longrightarrow> relay_step k ord env s (s\<lparr>rl_srv := srv\<rparr>)"
| rl_accept: "serveConn_accept env n io (rl_srv s) = (srv, es, ph) \<Longrightarrow>
    relay_step k ord env s (s\<lparr>rl_srv := srv, rl_served := (case ph of
      SC_serving ac \<Rightarrow> insert (ac, sc_certs io) (rl_served s) | _ \<Rightarrow> rl_served s)\<rparr>)"
| rl_exit: "(\<And>S. byURI (rl_plane s) (ac_uri ac) = Some S \<Longrightarrow> distinct ids \<and> set ids = S) \<Longrightarrow>
    serveConn_exit env ids ac (rl_srv s) = (srv, es) \<Longrightarrow> relay_step k ord env s (s\<lparr>rl_srv := srv\<rparr>)"
| rl_ctrl: "(ac, certs) \<in> rl_served s \<Longrightarrow>
    controlLoop_frame env (rl_now s) (rl_now s) ac f (rl_srv s) = (srv, es) \<Longrightarrow>
    relay_step k ord env s (s\<lparr>rl_srv := srv, rl_hist := armed_by (rl_now s) ac f (rl_srv s) @ rl_hist s\<rparr>)"
| rl_apply: "relay_step k ord env s (set_watcher (watch_apply k ord ev (watcher_of s))
    (s\<lparr>rl_force := insert (rl_now s, w_engine (watch_apply k ord ev (watcher_of s))) (rl_force s)\<rparr>))"
| rl_flush: "relay_step k ord env s (set_watcher (watch_flush (watcher_of s)) s)"
| rl_session: "relay_step k ord env s (s\<lparr>rl_pending := [], rl_inSnapshot := True\<rparr>)"
| rl_miss: "server_lookup (rl_now s) key (rl_srv s) = (None, srv) \<Longrightarrow> rl_flight s i = None \<Longrightarrow>
    relay_step k ord env s (s\<lparr>rl_srv := srv, rl_flight := (rl_flight s)(i \<mapsto> Missed key)\<rparr>)"
| rl_decide: "rl_flight s i = Some (Missed key) \<Longrightarrow> relay_step k ord env s
    (s\<lparr>rl_flight := (rl_flight s)(i \<mapsto> Decided key (decide_key (the (sv_policy (rl_srv s))) key (rl_now s)))\<rparr>)"
| rl_put: "rl_flight s i = Some (Decided key r) \<Longrightarrow>
    relay_step k ord env s (s\<lparr>rl_srv := server_put env (rl_now s) key r (rl_srv s), rl_flight := (rl_flight s)(i := None)\<rparr>)"
| rl_packet: "IsValid src \<Longrightarrow> handle_packet (rl_now s) src buf (rl_plane s) = (q, out) \<Longrightarrow>
    relay_step k ord env s (s\<lparr>rl_srv := (rl_srv s)\<lparr>sv_forward := Some q\<rparr>,
      rl_hist := (case punch_of buf of None \<Rightarrow> rl_hist s | Some (i, n) \<Rightarrow> Punched (rl_now s) i src n # rl_hist s)\<rparr>)"
| rl_gc: "range_order (byAlloc (rl_plane s)) ids \<Longrightarrow>
    relay_step k ord env s (s\<lparr>rl_srv := (rl_srv s)\<lparr>sv_forward := Some (gcOnce (rl_now s) ids (rl_plane s))\<rparr>\<rparr>)"

abbreviation relay_reach :: "pb_enums \<Rightarrow> rule_ord \<Rightarrow> edge_env \<Rightarrow> relay \<Rightarrow> bool" where
  "relay_reach k ord env \<equiv> reach relay_init (relay_step k ord env)"

section \<open>The two planes inside the relay\<close>

definition plane_of :: "relay \<Rightarrow> plane_sys" where
  "plane_of s = \<lparr>sy_now = rl_now s, sy_plane = rl_plane s, sy_hist = rl_hist s\<rparr>"

definition race_of :: "relay \<Rightarrow> race_sys" where
  "race_of s = \<lparr>rc_now = rl_now s, rc_watcher = watcher_of s, rc_flight = rl_flight s, rc_force = rl_force s\<rparr>"

section \<open>What the handlers touch\<close>

text \<open>The policy part stays, up to one evaluation.\<close>

definition evaluates :: "edge_env \<Rightarrow> gotime \<Rightarrow> Server \<Rightarrow> Server \<Rightarrow> bool" where
  "evaluates env now s s' \<longleftrightarrow> sv_policy s' = sv_policy s \<and> (sv_cache s' = sv_cache s \<or>
     (\<exists>e m caller target meth r m'. sv_policy s = Some e \<and> sv_cache s = Some m \<and> sv_cache s' = Some m' \<and>
        (\<forall>n. \<exists>n'. evaluate (en_cord env) now e caller target meth (Some m, n) = (r, Some m', n'))))"

lemma evaluate_counters:
  assumes "evaluate cord now e caller target meth (Some m, n) = (r, c, n1)"
  shows "\<exists>m'. c = Some m' \<and> (\<forall>n. \<exists>n'. evaluate cord now e caller target meth (Some m, n) = (r, Some m', n'))"
  using assms by (auto simp: evaluate_def Let_def split: prod.splits option.splits)

lemma recordAudit_frame [simp]:
  "sv_reg (recordAudit env now c t m r s) = sv_reg s" "sv_agents (recordAudit env now c t m r s) = sv_agents s"
  "sv_cache (recordAudit env now c t m r s) = sv_cache s" "sv_forward (recordAudit env now c t m r s) = sv_forward s"
  "sv_migrated (recordAudit env now c t m r s) = sv_migrated s" "sv_pairs (recordAudit env now c t m r s) = sv_pairs s"
  by (simp_all add: recordAudit_def split: option.split)

lemma server_evaluate_frame:
  assumes "server_evaluate env now e c t m s = (r, s')"
  shows "sv_reg s' = sv_reg s" "sv_agents s' = sv_agents s" "sv_forward s' = sv_forward s" "sv_migrated s' = sv_migrated s"
    "sv_pairs s' = sv_pairs s" "sv_audit s' = sv_audit s" "sv_policy s' = sv_policy s"
  using assms by (auto simp: server_evaluate_def split: prod.splits)

lemma server_evaluate_evaluates:
  assumes "server_evaluate env now e c t m s = (r, s')" and "sv_policy s = Some e"
  shows "evaluates env now s s'"
proof (cases "sv_cache s")
  case None
  then show ?thesis using assms by (auto simp: evaluates_def server_evaluate_def evaluate_def split: option.splits)
next
  case (Some mm)
  obtain n ca n1 where ev: "evaluate (en_cord env) now e c t m (Some mm, n) = (r, ca, n1)" "sv_cache s' = ca"
    using assms(1) Some by (auto simp: server_evaluate_def split: prod.splits)
  from evaluate_counters [OF ev(1)] ev(2) Some assms server_evaluate_frame(7) [OF assms(1)]
  show ?thesis unfolding evaluates_def by blast
qed

text \<open>The audit queue after at most one event.\<close>

definition audits :: "Server \<Rightarrow> Server \<Rightarrow> bool" where
  "audits s s' \<longleftrightarrow> sv_audit s' = sv_audit s \<or>
     (\<exists>em ev. sv_audit s = Some em \<and> sv_audit s' = Some (fst (Emit ev em)))"

lemma audits_recordAudit: "sv_audit s = sv_audit s0 \<Longrightarrow> audits s0 (recordAudit env now c t m r s)"
  by (auto simp: audits_def recordAudit_def split: option.split)

text \<open>The two checks of a consumer stream touch the cache and the audit queue only.\<close>

definition check_frame :: "edge_env \<Rightarrow> gotime \<Rightarrow> Server \<Rightarrow> Server \<Rightarrow> bool" where
  "check_frame env now s s' \<longleftrightarrow> evaluates env now s s' \<and> audits s s' \<and> sv_reg s' = sv_reg s \<and> sv_agents s' = sv_agents s \<and>
     sv_forward s' = sv_forward s \<and> sv_migrated s' = sv_migrated s \<and> sv_pairs s' = sv_pairs s"

lemma check_frame_bump [simp]:
  "check_frame env now s (bump f s') = check_frame env now s s'" "check_frame env now (bump f s) s' = check_frame env now s s'"
  by (simp_all add: check_frame_def evaluates_def audits_def)

lemma check_frame_refl [simp]: "check_frame env now s s"
  by (simp add: check_frame_def evaluates_def audits_def)

lemma check_frame_eval:
  assumes "server_evaluate env now e c t m s = (r, s')" and "sv_policy s = Some e"
  shows "check_frame env now s (recordAudit env now c' t' m' r' s')"
  using server_evaluate_evaluates [OF assms] server_evaluate_frame [OF assms(1)] sv_policy_frame(1) [of env now c' t' m' r' s']
    audits_recordAudit [of s' s env now c' t' m' r']
  by (simp add: check_frame_def evaluates_def)

lemma check_frame_audit [simp]: "check_frame env now s (recordAudit env now' c t m r s)"
  using audits_recordAudit [of s s env now' c t m r] sv_policy_frame(1) [of env now' c t m r s]
  by (simp add: check_frame_def evaluates_def)

lemma checked_check:
  "cs_caller_checked env now ac os dec s = (s', es, ph) \<Longrightarrow> check_frame env now s s'"
  "cs_callee_checked env now ac os p2p rm prov dec s = (s', es, ph) \<Longrightarrow> check_frame env now s s'"
  by (auto simp: cs_caller_checked_def cs_callee_checked_def cs_return_def rejectConsumer_eq Let_def split: if_splits)

lemma cs_openstream_check: "cs_openstream env now ac os s = (s', es, ph) \<Longrightarrow> check_frame env now s s'"
  using check_frame_eval [of env now _ _ _ _ "bump (\<lambda>m. m\<lparr>streamOpens := streamOpens m + 1\<rparr>) s"]
  by (auto simp: cs_openstream_def cs_caller_checked_def cs_return_def rejectConsumer_eq Let_def split: option.splits if_splits prod.splits)

lemma cs_first_check: "cs_first env now ac fr s = (s', es, ph) \<Longrightarrow> check_frame env now s s'"
  by (auto simp: cs_first_def cs_return_def split: sum.splits if_splits option.splits message.splits intro: cs_openstream_check)

lemma cs_callee_check: "cs_callee env now ac os p2p rm prov s = (s', es, ph) \<Longrightarrow> check_frame env now s s'"
  using check_frame_eval [of env now _ _ _ _ s]
  by (auto simp: cs_callee_def cs_callee_checked_def cs_return_def rejectConsumer_eq Let_def split: option.splits if_splits prod.splits)

lemma cs_resolve_check: "cs_resolve env now ac os p2p rm s = (s', es, ph) \<Longrightarrow> check_frame env now s s'"
  by (auto simp: cs_resolve_def cs_return_def rejectConsumer_eq split: prod.splits option.splits if_splits
      intro: cs_callee_check)

end
