(* ===== verification/RelayInv.thy ===== *)
theory RelayInv
  imports RelaySys
begin

text \<open>
  The relay keeps its state in order. Every step of the relay is, seen from the forwarding plane, a
  run of the plane's own system, and seen from the policy engine and its cache a run of theirs; so
  what was proved of those systems holds of the relay. The rest of the server has an invariant of
  its own.
\<close>

section \<open>The server's own invariant\<close>

text \<open>Registered agents are registered under their own URI and tracked, rows of migrated streams are
  under their own id, id 0 is never recorded, and the audit queue is within its depth.\<close>

definition srv_ok :: "Server \<Rightarrow> bool" where
  "srv_ok s \<longleftrightarrow> (\<forall>u ac. LookupAgent u (sv_reg s) = Some ac \<longrightarrow> ac_uri ac = u \<and> ac \<in> sv_agents s) \<and>
     migrated_ok (sv_migrated s) \<and> sv_pairs s 0 = None \<and>
     (\<forall>em. sv_audit s = Some em \<longrightarrow> length (em_queue em) \<le> QueueDepth) \<and>
     sv_policy s \<noteq> None \<and> sv_cache s \<noteq> None \<and> sv_forward s \<noteq> None"

lemma srv_ok_check:
  assumes "check_frame env now s s'" and "srv_ok s"
  shows "srv_ok s'"
  using assms
  by (auto simp: srv_ok_def check_frame_def evaluates_def audits_def Emit_def split: if_splits)

text \<open>Handlers that write the pairs, never under id 0, and nothing else of the invariant.\<close>

definition pairs_frame :: "Server \<Rightarrow> Server \<Rightarrow> bool" where
  "pairs_frame s s' \<longleftrightarrow> sv_pairs s' 0 = sv_pairs s 0 \<and> sv_policy s' = sv_policy s \<and> sv_cache s' = sv_cache s \<and>
     sv_reg s' = sv_reg s \<and> sv_agents s' = sv_agents s \<and> sv_migrated s' = sv_migrated s \<and> sv_audit s' = sv_audit s"

lemma pairs_frame_ops [simp]:
  "pairs_frame s (bump f s') = pairs_frame s s'" "pairs_frame s (s'\<lparr>sv_forward := p\<rparr>) = pairs_frame s s'"
  "pairs_frame s (s'\<lparr>sv_resumer := m\<rparr>) = pairs_frame s s'" "pairs_frame s s"
  by (simp_all add: pairs_frame_def)

lemma pairs_frame_pairs:
  "pairs_frame s s' \<Longrightarrow> sv_pairs s 0 = None \<Longrightarrow> pairs_frame s (forgetPair i s')"
  "pairs_frame s s' \<Longrightarrow> pairs_frame s (replacePair i p s')"
  "pairs_frame s s' \<Longrightarrow> pairs_frame s (snd (recordPair i p s'))"
  by (auto simp: pairs_frame_def forgetPair_def replacePair_def recordPair_def split: option.splits)

lemma srv_ok_pairs: "pairs_frame s s' \<Longrightarrow> srv_ok s \<Longrightarrow> sv_forward s' \<noteq> None \<Longrightarrow> srv_ok s'"
  by (auto simp: srv_ok_def pairs_frame_def)

lemma srv_okD: "srv_ok s \<Longrightarrow> sv_pairs s 0 = None"
  by (simp add: srv_ok_def)

lemma cs_teardown_eq:
  "fst (cs_teardown l allocs s) = forgetPair (os_StreamId (cl_open l)) (case allocs of None \<Rightarrow> s
     | Some (a, b) \<Rightarrow> s\<lparr>sv_forward := map_option (Forget a \<circ> Forget b) (sv_forward s)\<rparr>)"
  by (simp add: cs_teardown_def Let_def)

lemma forgetPair_forward [simp]: "sv_forward (forgetPair i s) = sv_forward s" "sv_forward (replacePair i p s) = sv_forward s"
  "sv_forward (snd (recordPair i p s)) = sv_forward s"
  by (auto simp: forgetPair_def replacePair_def recordPair_def split: option.splits)

lemma cs_leave_frame:
  assumes "cs_leave l allocs se = (s', es, ph)" and "pairs_frame s (fst se)" and "sv_pairs s 0 = None"
  shows "pairs_frame s s' \<and> sv_forward s' = (case allocs of None \<Rightarrow> sv_forward (fst se)
    | Some (a, b) \<Rightarrow> map_option (Forget a \<circ> Forget b) (sv_forward (fst se)))"
  using assms by (auto simp: cs_leave_eq cs_teardown_eq intro!: pairs_frame_pairs split: option.splits)

lemma cs_incoming_frame:
  assumes "cs_incoming ac l res s = (s', es, ph)" and "sv_pairs s 0 = None"
  shows "pairs_frame s s' \<and> sv_forward s' = sv_forward s"
proof -
  obtain ok s1 where r: "recordPair (os_StreamId (cl_open l)) (pair_of ac l) s = (ok, s1)" by fastforce
  have "pairs_frame s s1" "sv_forward s1 = sv_forward s"
    using pairs_frame_pairs(3) [of s s "os_StreamId (cl_open l)" "pair_of ac l"]
      forgetPair_forward(3) [of "os_StreamId (cl_open l)" "pair_of ac l" s] r by simp_all
  then show ?thesis
    using assms(1) r
    by (auto simp: cs_incoming_def OpenIncoming_def cs_return_def rejectConsumer_eq Let_def
        split: open_result.splits if_splits bool.splits)
qed

text \<open>The forwarding plane under the handlers that allocate.\<close>

definition allocates2 :: "gotime \<Rightarrow> Plane \<Rightarrow> u32 \<Rightarrow> u32 \<Rightarrow> Plane \<Rightarrow> bool" where
  "allocates2 now p a b q \<longleftrightarrow> (\<exists>u v p1. Allocate now u p = Some (a, p1) \<and> Allocate now v p1 = Some (b, q))"

definition plane_forgets :: "Plane option \<Rightarrow> Plane option \<Rightarrow> bool" where
  "plane_forgets p p' \<longleftrightarrow> p' = p \<or> (\<exists>a b. p' = map_option (Forget a \<circ> Forget b) p)"

definition plane_effect :: "gotime \<Rightarrow> Plane option \<Rightarrow> Plane option \<Rightarrow> bool" where
  "plane_effect now p p' \<longleftrightarrow> plane_forgets p p' \<or>
     (\<exists>p0 a b q. p = Some p0 \<and> allocates2 now p0 a b q \<and> (p' = Some q \<or> p' = Some (Forget a (Forget b q))))"

lemma plane_effectI:
  "plane_effect now p p" "plane_effect now p (map_option (Forget a \<circ> Forget b) p)"
  "allocates2 now p0 a b q \<Longrightarrow> plane_effect now (Some p0) (Some q)"
  "allocates2 now p0 a b q \<Longrightarrow> plane_effect now (Some p0) (Some (Forget a (Forget b q)))"
  unfolding plane_effect_def plane_forgets_def by blast+

lemma cs_forward_frame:
  assumes "cs_forward env now ac l okC okP p s = Some (s', es, ph)" and "sv_forward s = Some p" and "sv_pairs s 0 = None"
  shows "pairs_frame s s' \<and> plane_effect now (sv_forward s) (sv_forward s')"
proof (cases "LookupAgent (ac_uri (cl_prov l)) (sv_reg s)")
  case None
  then have "cs_leave l None (rejectConsumer (Some ac) ConsumerStream (os_StreamId (cl_open l)) 502
      ''forward: provider control channel unavailable'' s) = (s', es, ph)" using assms(1) by (simp add: cs_forward_def Let_def)
  from cs_leave_frame [OF this _ assms(3)] show ?thesis by (simp add: rejectConsumer_eq plane_effectI)
next
  case (Some provAC)
  then obtain a p1 b q where al: "Allocate now (ac_uri ac) p = Some (a, p1)" "Allocate now (ac_uri provAC) p1 = Some (b, q)"
    using assms(1) by (auto simp: cs_forward_def Let_def split: option.splits)
  then have "allocates2 now p a b q" by (auto simp: allocates2_def)
  let ?s1 = "bump (\<lambda>m. m\<lparr>streamForwardAssigned := streamForwardAssigned m + 1\<rparr>) (s\<lparr>sv_forward := Some q\<rparr>)"
  have "s' = ?s1 \<or> (\<exists>ws. cs_leave l (Some (a, b)) (?s1, ws) = (s', es, ph))"
    using assms(1) Some al by (auto simp: cs_forward_def Let_def split: if_splits)
  then show ?thesis
    using cs_leave_frame [of l "Some (a, b)" _ s' es ph s] assms(2,3) plane_effectI(3,4) [OF \<open>allocates2 now p a b q\<close>]
    by auto
qed

lemma cs_ack_frame:
  assumes "cs_ack env now ac l ack okC okP s = Some (s', es, ph)" and "sv_pairs s 0 = None"
  shows "pairs_frame s s' \<and> plane_effect now (sv_forward s) (sv_forward s')"
proof -
  have leave: "pairs_frame s s' \<and> plane_effect now (sv_forward s) (sv_forward s')"
    if "cs_leave l None se = (s', es, ph)" "pairs_frame s (fst se)" "sv_forward (fst se) = sv_forward s" for se
    using cs_leave_frame [OF that(1,2) assms(2)] that(3) by (simp add: plane_effectI)
  have fwd: "pairs_frame s s' \<and> plane_effect now (sv_forward s) (sv_forward s')"
    if "cs_forward env now ac l okC okP p s = Some (s', es, ph)" "sv_forward s = Some p" for p
    by (rule cs_forward_frame [OF that assms(2)])
  show ?thesis
    using assms(1) leave fwd
    by (auto simp: cs_ack_def rejectConsumer_eq Let_def intro: plane_effectI split: sum.splits if_splits option.splits RelayMode.splits)
qed

lemma cs_end_frame:
  assumes "sv_pairs s 0 = None"
  shows "cs_spliced l n s = (s', es, ph) \<Longrightarrow> pairs_frame s s' \<and> plane_forgets (sv_forward s) (sv_forward s')"
    and "cs_forwarded l a b s = (s', es, ph) \<Longrightarrow> pairs_frame s s' \<and> plane_forgets (sv_forward s) (sv_forward s')"
  using cs_leave_frame [OF _ _ assms]
  by (auto simp: cs_spliced_def cs_forwarded_def plane_forgets_def)

lemma resume_frame:
  assumes "sv_pairs s 0 = None"
  shows "handleResumeHalf_submit now r u f s = (s', es, ph) \<Longrightarrow> pairs_frame s s' \<and> sv_forward s' = sv_forward s"
    and "handleResumeHalf_matched r matched s = (s', es, ph) \<Longrightarrow> pairs_frame s s' \<and> sv_forward s' = sv_forward s"
    and "splicePair_end r r' n s = Some (s', es, ph) \<Longrightarrow> pairs_frame s s' \<and> sv_forward s' = sv_forward s"
proof -
  show "handleResumeHalf_submit now r u f s = (s', es, ph) \<Longrightarrow> pairs_frame s s' \<and> sv_forward s' = sv_forward s"
    by (auto simp: handleResumeHalf_submit_def split: option.splits message.splits)
  show "handleResumeHalf_matched r matched s = (s', es, ph) \<Longrightarrow> pairs_frame s s' \<and> sv_forward s' = sv_forward s"
    by (auto simp: handleResumeHalf_matched_def splicePair_begin_def Let_def intro!: pairs_frame_pairs split: option.splits if_splits)
  show "splicePair_end r r' n s = Some (s', es, ph) \<Longrightarrow> pairs_frame s s' \<and> sv_forward s' = sv_forward s"
    using assms by (auto simp: splicePair_end_def close_done_def Let_def intro!: pairs_frame_pairs split: if_splits)
qed

lemma driveForwardResume_frame:
  assumes "driveForwardResume_end env now now r peer s = Some (s', es)"
  shows "pairs_frame s s' \<and> plane_effect now (sv_forward s) (sv_forward s')"
proof -
  have al: "plane_effect now (Some p) (Some q)" if "Allocate now u p = Some (a, p1)" "Allocate now v p1 = Some (b, q)" for p u a p1 v b q
  proof (rule plane_effectI(3))
    show "allocates2 now p a b q" using that by (auto simp: allocates2_def)
  qed
  show ?thesis
    using assms by (auto simp: driveForwardResume_end_def Let_def split: option.splits prod.splits if_splits
        intro: plane_effectI al)
qed

lemma migrate_frame:
  assumes "srv_ok s"
  shows "handleMigrateToRelay_submit now now' r u f s = (s', es, ph, prior) \<Longrightarrow> srv_ok s' \<and>
      sv_forward s' = sv_forward s \<and> sv_policy s' = sv_policy s \<and> sv_cache s' = sv_cache s \<and> sv_reg s' = sv_reg s"
    and "handleMigrateToRelay_matched r prior matched s = (s', es, ph) \<Longrightarrow> srv_ok s' \<and>
      sv_forward s' = sv_forward s \<and> sv_policy s' = sv_policy s \<and> sv_cache s' = sv_cache s \<and> sv_reg s' = sv_reg s"
proof -
  have m: "migrated_ok (sv_migrated s)" using assms by (simp add: srv_ok_def)
  show "handleMigrateToRelay_submit now now' r u f s = (s', es, ph, prior) \<Longrightarrow> srv_ok s' \<and>
      sv_forward s' = sv_forward s \<and> sv_policy s' = sv_policy s \<and> sv_cache s' = sv_cache s \<and> sv_reg s' = sv_reg s"
    using assms migrated_ok_ops(2) [OF m]
    by (auto simp: handleMigrateToRelay_submit_def srv_ok_def Let_def split: option.splits message.splits prod.splits)
      (metis snd_conv)+
  show "handleMigrateToRelay_matched r prior matched s = (s', es, ph) \<Longrightarrow> srv_ok s' \<and>
      sv_forward s' = sv_forward s \<and> sv_policy s' = sv_policy s \<and> sv_cache s' = sv_cache s \<and> sv_reg s' = sv_reg s"
    using assms migrated_ok_ops(3) [OF m]
    by (auto simp: handleMigrateToRelay_matched_def splicePair_begin_def replacePair_def srv_ok_def Let_def
        split: option.splits if_splits)
qed

lemma ctrl_srv_ok:
  assumes "controlLoop_frame env now now' ac f s = (s', es)" and "srv_ok s"
  shows "srv_ok s'"
proof -
  have "migrated_ok (sv_migrated s')"
    using assms migrated_ok_ops(1)
    by (auto simp: controlLoop_frame_def srv_ok_def handleRegister_def handleObservedAddrQuery_def forwardCandidate_def
        forwardCheckpoint_def handleMigrateToP2P_def handleForwardResume_def handleForwardRegister_def Let_def
        split: FrameType.splits option.splits message.splits sum.splits prod.splits planeErr.splits if_splits)
  moreover have "sv_forward s' \<noteq> None"
    using controlLoop_frame_kept(8) [OF assms(1)] assms(2) by (auto simp: srv_ok_def option_rel_Some1)
  ultimately show ?thesis using controlLoop_frame_kept [OF assms(1)] assms(2) by (simp add: srv_ok_def)
qed

lemma accept_srv_ok:
  assumes "serveConn_accept env n io s = (s', es, ph)" and "srv_ok s"
  shows "srv_ok s' \<and> sv_forward s' = sv_forward s \<and> sv_policy s' = sv_policy s \<and> sv_cache s' = sv_cache s"
proof (cases "\<exists>ac. ph = SC_serving ac")
  case True
  then obtain ac where "ph = SC_serving ac" by blast
  with assms(1) obtain name where "s' = trackAgent ac (s\<lparr>sv_reg := RegisterAgent (ac_uri ac) ac (sv_reg s)\<rparr>)"
    by (auto elim: serveConn_accept_serving)
  then show ?thesis using assms(2) by (auto simp: srv_ok_def trackAgent_def LookupAgent_RegisterAgent split: if_splits)
next
  case False
  then show ?thesis using serveConn_accept_quiet [OF assms(1)] assms(2) by simp
qed

lemma exit_srv_ok:
  assumes "serveConn_exit env ids ac s = (s', es)" and "srv_ok s"
  shows "srv_ok s' \<and> sv_forward s' = map_option (\<lambda>p. snd (ForgetAgent ids (ac_uri ac) p)) (sv_forward s) \<and>
    sv_policy s' = sv_policy s \<and> sv_cache s' = sv_cache s"
  using assms
  by (auto simp: serveConn_exit_def untrackAgent_def UnregisterAgent_def LookupAgent_def srv_ok_def Let_def
      split: prod.splits if_splits)

section \<open>Every step keeps the server in order\<close>

lemma plane_forgets_Some: "plane_forgets p p' \<Longrightarrow> p \<noteq> None \<Longrightarrow> p' \<noteq> None"
  by (auto simp: plane_forgets_def)

lemma plane_effect_Some: "plane_effect now p p' \<Longrightarrow> p \<noteq> None \<Longrightarrow> p' \<noteq> None"
  unfolding plane_effect_def using plane_forgets_Some by blast

lemma srv_ok_forward: "srv_ok s \<Longrightarrow> sv_forward s \<noteq> None"
  by (simp add: srv_ok_def)

lemma srv_ok_kept:
  assumes "srv_ok s"
  shows "pairs_frame s s' \<and> sv_forward s' = sv_forward s \<Longrightarrow> srv_ok s'"
    and "pairs_frame s s' \<and> plane_forgets (sv_forward s) (sv_forward s') \<Longrightarrow> srv_ok s'"
    and "pairs_frame s s' \<and> plane_effect now (sv_forward s) (sv_forward s') \<Longrightarrow> srv_ok s'"
proof -
  note f = srv_ok_forward [OF assms]
  show "pairs_frame s s' \<and> sv_forward s' = sv_forward s \<Longrightarrow> srv_ok s'"
    using f by (auto intro: srv_ok_pairs [OF _ assms])
  show "pairs_frame s s' \<and> plane_forgets (sv_forward s) (sv_forward s') \<Longrightarrow> srv_ok s'"
    using plane_forgets_Some [OF _ f] by (auto intro: srv_ok_pairs [OF _ assms])
  show "pairs_frame s s' \<and> plane_effect now (sv_forward s) (sv_forward s') \<Longrightarrow> srv_ok s'"
    using plane_effect_Some [OF _ f] by (auto intro: srv_ok_pairs [OF _ assms])
qed

text \<open>What a handler does, for the parts of the relay: the server stays in order, the registry as it is, the
  policy part changes by at most one evaluation, and the plane as above.\<close>

definition handled :: "edge_env \<Rightarrow> gotime \<Rightarrow> Server \<Rightarrow> Server \<Rightarrow> bool" where
  "handled env now s s' \<longleftrightarrow> srv_ok s' \<and> evaluates env now s s' \<and> sv_reg s' = sv_reg s \<and>
     (plane_forgets (sv_forward s) (sv_forward s') \<or> ids_left s \<and> plane_effect now (sv_forward s) (sv_forward s'))"

lemma pairs_evaluates: "pairs_frame s s' \<Longrightarrow> evaluates env now s s'"
  by (simp add: pairs_frame_def evaluates_def)

lemma handledI:
  assumes "srv_ok s"
  shows "check_frame env now s s' \<Longrightarrow> handled env now s s'"
    and "pairs_frame s s' \<and> sv_forward s' = sv_forward s \<Longrightarrow> handled env now s s'"
    and "pairs_frame s s' \<and> plane_forgets (sv_forward s) (sv_forward s') \<Longrightarrow> handled env now s s'"
    and "pairs_frame s s' \<and> plane_effect now (sv_forward s) (sv_forward s') \<Longrightarrow> ids_left s \<Longrightarrow> handled env now s s'"
    and "srv_ok s' \<and> sv_forward s' = sv_forward s \<and> sv_policy s' = sv_policy s \<and> sv_cache s' = sv_cache s \<and>
      sv_reg s' = sv_reg s \<Longrightarrow> handled env now s s'"
proof -
  show "check_frame env now s s' \<Longrightarrow> handled env now s s'"
    using srv_ok_check [OF _ assms] by (auto simp: handled_def check_frame_def plane_forgets_def)
  show "pairs_frame s s' \<and> sv_forward s' = sv_forward s \<Longrightarrow> handled env now s s'"
    using srv_ok_kept(1) [OF assms] by (auto simp: handled_def plane_forgets_def pairs_frame_def intro: pairs_evaluates [unfolded pairs_frame_def])
  show "pairs_frame s s' \<and> plane_forgets (sv_forward s) (sv_forward s') \<Longrightarrow> handled env now s s'"
    using srv_ok_kept(2) [OF assms] by (auto simp: handled_def pairs_frame_def intro: pairs_evaluates [unfolded pairs_frame_def])
  show "pairs_frame s s' \<and> plane_effect now (sv_forward s) (sv_forward s') \<Longrightarrow> ids_left s \<Longrightarrow> handled env now s s'"
    using srv_ok_kept(3) [OF assms] by (auto simp: handled_def pairs_frame_def intro: pairs_evaluates [unfolded pairs_frame_def])
  show "srv_ok s' \<and> sv_forward s' = sv_forward s \<and> sv_policy s' = sv_policy s \<and> sv_cache s' = sv_cache s \<and>
      sv_reg s' = sv_reg s \<Longrightarrow> handled env now s s'"
    by (simp add: handled_def evaluates_def plane_forgets_def)
qed

lemma handler_step_handled:
  assumes "handler_step env now s s'" and "srv_ok s"
  shows "handled env now s s'"
proof -
  note i = handledI [OF assms(2)] and z = srv_okD [OF assms(2)]
  from assms(1) show ?thesis
  proof cases
    case (hd_first ac fr es ph)
    show ?thesis by (rule i(1) [OF cs_first_check [OF hd_first]])
  next
    case (hd_resolve ac os p2p rm es ph)
    show ?thesis by (rule i(1) [OF cs_resolve_check [OF hd_resolve]])
  next
    case (hd_caller_checked ac os dec es ph)
    show ?thesis by (rule i(1) [OF checked_check(1) [OF hd_caller_checked]])
  next
    case (hd_callee_checked ac os p2p rm prov dec es ph)
    show ?thesis by (rule i(1) [OF checked_check(2) [OF hd_callee_checked]])
  next
    case (hd_incoming ac l res es ph)
    show ?thesis by (rule i(2) [OF cs_incoming_frame [OF hd_incoming z]])
  next
    case (hd_ack ac l ack okC okP es ph)
    show ?thesis by (rule i(4) [OF cs_ack_frame [OF hd_ack(2) z] hd_ack(1)])
  next
    case (hd_spliced l n es ph)
    show ?thesis by (rule i(3) [OF cs_end_frame(1) [OF z hd_spliced]])
  next
    case (hd_forwarded l a b es ph)
    show ?thesis by (rule i(3) [OF cs_end_frame(2) [OF z hd_forwarded]])
  next
    case (hd_resume_submit r u f es ph)
    show ?thesis by (rule i(2) [OF resume_frame(1) [OF z hd_resume_submit]])
  next
    case (hd_resume_matched r matched es ph)
    show ?thesis by (rule i(2) [OF resume_frame(2) [OF z hd_resume_matched]])
  next
    case (hd_migrate_submit r u f es ph prior)
    show ?thesis by (rule i(5) [OF migrate_frame(1) [OF assms(2) hd_migrate_submit]])
  next
    case (hd_migrate_matched r prior matched es ph)
    show ?thesis by (rule i(5) [OF migrate_frame(2) [OF assms(2) hd_migrate_matched]])
  next
    case (hd_splice_end r r' n es ph)
    show ?thesis by (rule i(2) [OF resume_frame(3) [OF z hd_splice_end]])
  next
    case (hd_drive r peer es)
    show ?thesis by (rule i(4) [OF driveForwardResume_frame [OF hd_drive(2)] hd_drive(1)])
  next
    case (hd_audit em ev em')
    then show ?thesis using assms(2) by (intro i(5)) (auto simp: srv_ok_def emitter_Run_step_def split: list.splits)
  next
    case (hd_enforce j)
    then show ?thesis using assms(2) migrated_ok_ops(2) by (intro i(5)) (simp add: srv_ok_def)
  qed (use assms(2) in \<open>auto intro!: i(5) simp: srv_ok_def cs_begin_def SetSuccessors_def\<close>)
qed

lemma relay_step_srv_ok:
  assumes "relay_step k ord env s t" and "srv_ok (rl_srv s)"
  shows "srv_ok (rl_srv t)"
  using assms
proof (induction rule: relay_step.induct)
  case (rl_handler s srv)
  then show ?case using handler_step_handled by (simp add: handled_def)
next
  case (rl_accept n io s srv es ph)
  show ?case using accept_srv_ok [OF rl_accept] by simp
next
  case (rl_exit s ac ids srv es)
  show ?case using exit_srv_ok [OF rl_exit(2,3)] by simp
next
  case (rl_ctrl ac certs s f srv es)
  show ?case using ctrl_srv_ok [OF rl_ctrl(2,3)] by simp
next
  case (rl_miss s key srv i)
  then show ?case by (auto simp: srv_ok_def server_lookup_def split: option.splits prod.splits)
qed (simp_all add: srv_ok_def set_watcher_def server_put_def)

section \<open>Every step is a run of the plane\<close>

lemma reach_Forget1: "plane_reach x \<Longrightarrow> plane_reach (x\<lparr>sy_plane := Forget a (sy_plane x)\<rparr>)"
  using pl_forget [of x a] by (rule reach_step [rotated])

lemma reach_Forget: "plane_reach x \<Longrightarrow> plane_reach (x\<lparr>sy_plane := Forget a (Forget b (sy_plane x))\<rparr>)"
  using reach_Forget1 [of "x\<lparr>sy_plane := Forget b (sy_plane x)\<rparr>" a] reach_Forget1 [of x b] by simp

lemma reach_Allocate:
  assumes "plane_reach x" and "Allocate (sy_now x) u (sy_plane x) = Some (a, q)" and "nextID (sy_plane x) \<noteq> - 1"
  shows "plane_reach (x\<lparr>sy_plane := q\<rparr>)"
  using assms(1) pl_allocate [OF assms(2,3)] by (rule reach_step)

lemma reach_Allocate2:
  assumes "plane_reach x" and "allocates2 (sy_now x) (sy_plane x) a b q"
    and "nextID (sy_plane x) \<noteq> - 1" and "nextID (sy_plane x) \<noteq> - 2"
  shows "plane_reach (x\<lparr>sy_plane := q\<rparr>)"
proof -
  obtain u v p1 where al: "Allocate (sy_now x) u (sy_plane x) = Some (a, p1)" "Allocate (sy_now x) v p1 = Some (b, q)"
    using assms(2) by (auto simp: allocates2_def)
  have "plane_reach (x\<lparr>sy_plane := p1\<rparr>)" by (rule reach_Allocate [OF assms(1) al(1) assms(3)])
  moreover have "nextID p1 = nextID (sy_plane x) + 1"
    using al(1) next_alloc_eq [OF assms(3)] by (auto simp: Allocate_def Let_def split: if_splits)
  then have "nextID p1 \<noteq> - 1" using assms(4) by (simp add: eq_diff_eq [symmetric])
  ultimately show ?thesis using reach_Allocate [of "x\<lparr>sy_plane := p1\<rparr>" v b q] al(2) by simp
qed

lemma plane_of_upd: "plane_of (s\<lparr>rl_srv := srv\<rparr>) = (plane_of s)\<lparr>sy_plane := the (sv_forward srv)\<rparr>"
  by (simp add: plane_of_def)

lemma plane_of_same: "sv_forward srv = sv_forward (rl_srv s) \<Longrightarrow> plane_of (s\<lparr>rl_srv := srv\<rparr>) = plane_of s"
  by (simp add: plane_of_def)

lemma reach_forgets:
  assumes "plane_reach (plane_of s)" and "plane_forgets (sv_forward (rl_srv s)) (sv_forward srv)"
    and "sv_forward (rl_srv s) \<noteq> None"
  shows "plane_reach (plane_of (s\<lparr>rl_srv := srv\<rparr>))"
proof (cases "sv_forward srv = sv_forward (rl_srv s)")
  case True
  then show ?thesis using assms(1) by (simp add: plane_of_same)
next
  case False
  then obtain a b where "sv_forward srv = map_option (Forget a \<circ> Forget b) (sv_forward (rl_srv s))"
    using assms(2) by (auto simp: plane_forgets_def)
  then show ?thesis using reach_Forget [OF assms(1), of a b] assms(3) by (auto simp: plane_of_def)
qed

lemma reach_effect:
  assumes "plane_reach (plane_of s)" and "plane_effect (rl_now s) (sv_forward (rl_srv s)) (sv_forward srv)"
    and "sv_forward (rl_srv s) \<noteq> None" and "ids_left (rl_srv s)"
  shows "plane_reach (plane_of (s\<lparr>rl_srv := srv\<rparr>))"
proof (cases "plane_forgets (sv_forward (rl_srv s)) (sv_forward srv)")
  case True
  then show ?thesis by (rule reach_forgets [OF assms(1) _ assms(3)])
next
  case False
  then obtain p a b q where p: "sv_forward (rl_srv s) = Some p" "allocates2 (rl_now s) p a b q"
    "sv_forward srv = Some q \<or> sv_forward srv = Some (Forget a (Forget b q))"
    using assms(2) by (auto simp: plane_effect_def)
  have "plane_reach ((plane_of s)\<lparr>sy_plane := q\<rparr>)"
    using assms(1,4) p by (intro reach_Allocate2 [of _ a b]) (auto simp: plane_of_def ids_left_def)
  from this reach_Forget [OF this, of a b] p(3) show ?thesis by (auto simp: plane_of_upd)
qed

text \<open>A control frame arms an allocation, and is logged, or leaves the plane alone.\<close>

lemma ArmPending_fail: "ArmPending now i u n p = (Some err, q) \<Longrightarrow> q = p"
  by (auto simp: ArmPending_def Let_def split: if_splits option.splits)

lemma ctrl_plane:
  assumes "controlLoop_frame env now now' ac f s = (s', es)" and "sv_forward s = Some p"
  shows "sv_forward s' = Some p \<and> armed_by now ac f s = [] \<or>
    (\<exists>i n q. ArmPending now i (ac_uri ac) n p = (None, q) \<and> sv_forward s' = Some q \<and>
       armed_by now ac f s = [Armed now i (ac_uri ac) n])"
proof (cases "f_Type f = FrameTypeForwardRegister")
  case True
  then have h: "handleForwardRegister now ac f s = (s', es)" using assms(1) by (simp add: controlLoop_frame_def)
  show ?thesis
  proof (cases "\<exists>i n. f_Msg f = Some (M_ForwardRegister i n) \<and> length n = PunchNonceSize")
    case True
    then obtain i n where m: "f_Msg f = Some (M_ForwardRegister i n)" "length n = PunchNonceSize" by blast
    obtain err q where "ArmPending now i (ac_uri ac) n p = (err, q)" by fastforce
    then show ?thesis
      using h m assms(2) \<open>f_Type f = FrameTypeForwardRegister\<close> ArmPending_fail [of now i "ac_uri ac" n p _ q]
      by (auto simp: handleForwardRegister_def armed_by_def split: option.splits planeErr.splits)
  next
    case False
    then show ?thesis
      using h assms(2) \<open>f_Type f = FrameTypeForwardRegister\<close>
      by (auto simp: handleForwardRegister_def armed_by_def split: option.splits message.splits)
  qed
next
  case False
  then have "armed_by now ac f s = []" by (auto simp: armed_by_def split: FrameType.splits)
  moreover have "sv_forward s' = Some p"
    using assms False
    by (auto simp: controlLoop_frame_def handleRegister_def handleObservedAddrQuery_def forwardCandidate_def
        forwardCheckpoint_def handleMigrateToP2P_def handleForwardResume_def Let_def
        split: FrameType.splits option.splits message.splits sum.splits prod.splits)
  ultimately show ?thesis by simp
qed

lemma reach_arm:
  assumes "plane_reach x" and "ArmPending (sy_now x) i u n (sy_plane x) = (None, q)"
  shows "plane_reach (x\<lparr>sy_hist := Armed (sy_now x) i u n # sy_hist x, sy_plane := q\<rparr>)"
  using assms(1) pl_arm [OF assms(2)] by (auto intro: reach_step)

lemma reach_ctrl:
  assumes "plane_reach (plane_of s)" and "controlLoop_frame env (rl_now s) (rl_now s) ac f (rl_srv s) = (srv, es)"
    and "sv_forward (rl_srv s) \<noteq> None"
  shows "plane_reach (plane_of (s\<lparr>rl_srv := srv, rl_hist := armed_by (rl_now s) ac f (rl_srv s) @ rl_hist s\<rparr>))"
proof -
  obtain p where p: "sv_forward (rl_srv s) = Some p" using assms(3) by blast
  then have po: "sy_plane (plane_of s) = p" "sy_now (plane_of s) = rl_now s" "sy_hist (plane_of s) = rl_hist s"
    by (simp_all add: plane_of_def)
  from ctrl_plane [OF assms(2) p] show ?thesis
  proof (elim disjE exE conjE)
    assume "sv_forward srv = Some p" "armed_by (rl_now s) ac f (rl_srv s) = []"
    then show ?thesis using assms(1) p by (simp add: plane_of_def)
  next
    fix i n q
    assume a: "ArmPending (rl_now s) i (ac_uri ac) n p = (None, q)" and q: "sv_forward srv = Some q"
      and l: "armed_by (rl_now s) ac f (rl_srv s) = [Armed (rl_now s) i (ac_uri ac) n]"
    from reach_arm [OF assms(1), of i "ac_uri ac" n q] a q l show ?thesis by (simp add: po) (simp add: plane_of_def)
  qed
qed

lemma relay_step_plane:
  assumes "relay_step k ord env s t" and "srv_ok (rl_srv s)" and "plane_reach (plane_of s)"
  shows "plane_reach (plane_of t)"
  using assms
proof (induction rule: relay_step.induct)
  case (rl_tick s t)
  from reach_step [OF rl_tick(3) pl_tick, of t] rl_tick(1) show ?case by (simp add: plane_of_def)
next
  case (rl_handler s srv)
  from handler_step_handled [OF rl_handler(1,2)] show ?case
    using reach_forgets [OF rl_handler(3) _ srv_ok_forward [OF rl_handler(2)]]
      reach_effect [OF rl_handler(3) _ srv_ok_forward [OF rl_handler(2)]] by (auto simp: handled_def)
next
  case (rl_accept n io s srv es ph)
  then show ?case using accept_srv_ok [OF rl_accept(1,2)] by (simp add: plane_of_def)
next
  case (rl_exit s ac ids srv es)
  have "plane_step (plane_of s) ((plane_of s)\<lparr>sy_plane := snd (ForgetAgent ids (ac_uri ac) (sy_plane (plane_of s)))\<rparr>)"
    using rl_exit(1) by (intro pl_forget_agent) (simp add: plane_of_def)
  from reach_step [OF rl_exit(4) this] exit_srv_ok [OF rl_exit(2,3)] srv_ok_forward [OF rl_exit(3)]
  show ?case by (auto simp: plane_of_def)
next
  case (rl_ctrl ac certs s f srv es)
  show ?case by (rule reach_ctrl [OF rl_ctrl(4,2) srv_ok_forward [OF rl_ctrl(3)]])
next
  case (rl_packet src s buf q out)
  have "plane_step (plane_of s) ((plane_of s)\<lparr>sy_hist := (case punch_of buf of None \<Rightarrow> sy_hist (plane_of s)
      | Some (i, n) \<Rightarrow> Punched (sy_now (plane_of s)) i src n # sy_hist (plane_of s)), sy_plane := q\<rparr>)"
    using rl_packet(1,2) by (intro pl_packet [where out = out]) (simp_all add: plane_of_def)
  from reach_step [OF rl_packet(4) this] show ?case by (cases "punch_of buf") (auto simp: plane_of_def)
next
  case (rl_gc s ids)
  have "plane_step (plane_of s) ((plane_of s)\<lparr>sy_plane := gcOnce (sy_now (plane_of s)) ids (sy_plane (plane_of s))\<rparr>)"
    using rl_gc(1) by (intro pl_gc) (simp add: plane_of_def)
  from reach_step [OF rl_gc(3) this] show ?case by (simp add: plane_of_def)
next
  case (rl_miss s key srv i)
  then have "sv_forward srv = sv_forward (rl_srv s)" by (auto simp: server_lookup_def split: option.splits prod.splits)
  then show ?case using rl_miss(4) by (simp add: plane_of_def)
qed (simp_all add: plane_of_def set_watcher_def server_put_def)

section \<open>Every step is a run of the policy plane\<close>

abbreviation race_ran :: "pb_enums \<Rightarrow> rule_ord \<Rightarrow> edge_env \<Rightarrow> relay \<Rightarrow> bool" where
  "race_ran k ord env s \<equiv> race_reach k ord (en_cord env) (race_of s)"

lemma race_of_same:
  "rl_now t = rl_now s \<Longrightarrow> watcher_of t = watcher_of s \<Longrightarrow> rl_flight t = rl_flight s \<Longrightarrow> rl_force t = rl_force s \<Longrightarrow> race_of t = race_of s"
  by (simp add: race_of_def)

lemma race_ran_evaluates:
  assumes "race_ran k ord env s" and "evaluates env (rl_now s) (rl_srv s) srv"
  shows "race_ran k ord env (s\<lparr>rl_srv := srv\<rparr>)"
proof (cases "sv_cache srv = sv_cache (rl_srv s)")
  case True
  then have "race_of (s\<lparr>rl_srv := srv\<rparr>) = race_of s"
    using assms(2) by (intro race_of_same) (simp_all add: watcher_of_def evaluates_def)
  then show ?thesis using assms(1) by simp
next
  case False
  then obtain e m caller target meth r m' where ev: "sv_policy (rl_srv s) = Some e" "sv_cache (rl_srv s) = Some m"
    "sv_policy srv = Some e" "sv_cache srv = Some m'"
    "\<forall>n. \<exists>n'. evaluate (en_cord env) (rl_now s) e caller target meth (Some m, n) = (r, Some m', n')"
    using assms(2) unfolding evaluates_def by auto
  obtain n n' where "evaluate (en_cord env) (rl_now s) e caller target meth (Some m, n) = (r, Some m', n')" using ev(5) by blast
  then have "race_step k ord (en_cord env) (race_of s) ((race_of s)\<lparr>rc_watcher := (rc_watcher (race_of s))\<lparr>w_cache := m'\<rparr>\<rparr>)"
    using ev by (intro rc_eval) (simp add: race_of_def watcher_of_def)
  moreover have "(race_of s)\<lparr>rc_watcher := (rc_watcher (race_of s))\<lparr>w_cache := m'\<rparr>\<rparr> = race_of (s\<lparr>rl_srv := srv\<rparr>)"
    using ev by (simp add: race_of_def watcher_of_def)
  ultimately show ?thesis using reach_step [OF assms(1)] by simp
qed

text \<open>The steps of the watcher, the clock and the interrupted evaluations are steps of that system.\<close>

lemma watcher_of_set [simp]: "watcher_of (set_watcher w s) = w"
  by (simp add: watcher_of_def set_watcher_def)

lemma race_steps:
  "rl_now s \<le> t \<Longrightarrow> race_step k ord cord (race_of s)
     (race_of (s\<lparr>rl_now := t, rl_force := rl_force s \<union> {rl_now s..t} \<times> {the (sv_policy (rl_srv s))}\<rparr>))"
  "race_step k ord cord (race_of s) (race_of (set_watcher (watch_apply k ord ev (watcher_of s))
     (s\<lparr>rl_force := insert (rl_now s, w_engine (watch_apply k ord ev (watcher_of s))) (rl_force s)\<rparr>)))"
  "race_step k ord cord (race_of s) (race_of (set_watcher (watch_flush (watcher_of s)) s))"
  "race_step k ord cord (race_of s) (race_of (s\<lparr>rl_pending := [], rl_inSnapshot := True\<rparr>))"
  "rl_flight s i = Some (Missed key) \<Longrightarrow> race_step k ord cord (race_of s)
     (race_of (s\<lparr>rl_flight := (rl_flight s)(i \<mapsto> Decided key (decide_key (the (sv_policy (rl_srv s))) key (rl_now s)))\<rparr>))"
  using rc_tick [of "race_of s" t k ord cord] rc_apply [of k ord cord "race_of s" ev] rc_flush [of k ord cord "race_of s"]
    rc_session [of k ord cord "race_of s"] rc_decide [of "race_of s" i key k ord cord]
  by (simp_all add: race_of_def) (simp_all add: watcher_of_def set_watcher_def)

lemma race_step_miss:
  assumes "server_lookup (rl_now s) key (rl_srv s) = (None, srv)" and "rl_flight s i = None" and "srv_ok (rl_srv s)"
  shows "race_step k ord cord (race_of s) (race_of (s\<lparr>rl_srv := srv, rl_flight := (rl_flight s)(i \<mapsto> Missed key)\<rparr>))"
proof -
  obtain m where m: "sv_cache (rl_srv s) = Some m" using assms(3) by (auto simp: srv_ok_def)
  obtain m' where "Cache_Get (rl_now s) key m = (None, m')" "sv_cache srv = Some m'" "sv_policy srv = sv_policy (rl_srv s)"
    using assms(1) m by (auto simp: server_lookup_def split: prod.splits)
  with rc_miss [of "race_of s" key m' i k ord cord] m assms(2) show ?thesis by (simp add: race_of_def watcher_of_def)
qed

lemma race_step_put:
  assumes "rl_flight s i = Some (Decided key r)" and "srv_ok (rl_srv s)"
  shows "race_step k ord (en_cord env) (race_of s)
    (race_of (s\<lparr>rl_srv := server_put env (rl_now s) key r (rl_srv s), rl_flight := (rl_flight s)(i := None)\<rparr>))"
proof -
  obtain m where "sv_cache (rl_srv s) = Some m" using assms(2) by (auto simp: srv_ok_def)
  with rc_put [of "race_of s" i key r k ord "en_cord env"] assms(1) show ?thesis
    by (simp add: race_of_def watcher_of_def server_put_def)
qed

lemma relay_step_policy:
  assumes "relay_step k ord env s t" and "srv_ok (rl_srv s)" and r: "race_ran k ord env s"
  shows "race_ran k ord env t"
  using assms
proof (induction rule: relay_step.induct)
  case (rl_handler s srv)
  show ?case using handler_step_handled [OF rl_handler(1,2)] by (intro race_ran_evaluates rl_handler(3)) (simp add: handled_def)
next
  case (rl_accept n io s srv es ph)
  then show ?case using accept_srv_ok [OF rl_accept(1,2)] by (simp add: race_of_def watcher_of_def)
next
  case (rl_exit s ac ids srv es)
  then show ?case using exit_srv_ok [OF rl_exit(2,3)] by (simp add: race_of_def watcher_of_def)
next
  case (rl_ctrl ac certs s f srv es)
  then show ?case using controlLoop_frame_kept [OF rl_ctrl(2)] by (simp add: race_of_def watcher_of_def)
next
  case (rl_miss s key srv i)
  show ?case by (rule reach_step [OF rl_miss(4) race_step_miss [OF rl_miss(1-3)]])
next
  case (rl_put s i key r)
  show ?case by (rule reach_step [OF rl_put(3) race_step_put [OF rl_put(1,2)]])
next
  case (rl_packet src s buf q out)
  then show ?case by (simp add: race_of_def watcher_of_def)
next
  case (rl_gc s ids)
  then show ?case by (simp add: race_of_def watcher_of_def)
qed (blast intro: reach_step race_steps)+

section \<open>Who armed what\<close>

text \<open>Every served connection presented a certificate with its URI, every registered agent is one, and every
  armed nonce came over one.\<close>

definition armed_uris :: "auth_event list \<Rightarrow> uri set" where
  "armed_uris h = {u. \<exists>t i n. Armed t i u n \<in> set h}"

definition served_ok :: "relay \<Rightarrow> bool" where
  "served_ok s \<longleftrightarrow> (\<forall>x \<in> rl_served s. uriFromConn (snd x) = Some (ac_uri (fst x))) \<and>
     (\<forall>u ac. LookupAgent u (sv_reg (rl_srv s)) = Some ac \<longrightarrow> ac \<in> fst ` rl_served s) \<and>
     armed_uris (rl_hist s) \<subseteq> (\<lambda>x. ac_uri (fst x)) ` rl_served s"

lemma armed_uris_simps [simp]:
  "armed_uris [] = {}" "armed_uris (h @ h') = armed_uris h \<union> armed_uris h'" "armed_uris (Punched t i a n # h) = armed_uris h"
  by (auto simp: armed_uris_def)

lemma armed_uris_armed_by: "armed_uris (armed_by now ac f s) \<subseteq> {ac_uri ac}"
  by (auto simp: armed_uris_def armed_by_def split: FrameType.splits option.splits message.splits if_splits)

lemma UnregisterAgent_sub: "LookupAgent u (fst (UnregisterAgent Parse v r)) = Some ac \<Longrightarrow> LookupAgent u r = Some ac"
  by (auto simp: UnregisterAgent_def LookupAgent_def Let_def split: if_splits)

lemma relay_step_served:
  assumes "relay_step k ord env s t" and "srv_ok (rl_srv s)" and "served_ok s"
  shows "served_ok t"
  using assms
proof (induction rule: relay_step.induct)
  case (rl_handler s srv)
  then show ?case using handler_step_handled [OF rl_handler(1,2)] by (simp add: served_ok_def handled_def)
next
  case (rl_accept n io s srv es ph)
  show ?case
  proof (cases ph)
    case (SC_serving ac)
    with rl_accept(1) have "uriFromConn (sc_certs io) = Some (ac_uri ac)" by (auto elim: serveConn_accept_serving)
    moreover from SC_serving rl_accept(1) have "srv = trackAgent ac ((rl_srv s)\<lparr>sv_reg := RegisterAgent (ac_uri ac) ac (sv_reg (rl_srv s))\<rparr>)"
      by (auto elim: serveConn_accept_serving)
    ultimately show ?thesis
      using rl_accept(3) SC_serving by (auto simp: served_ok_def trackAgent_def LookupAgent_RegisterAgent split: if_splits)
  qed (use rl_accept(3) serveConn_accept_quiet [OF rl_accept(1)] in \<open>simp_all add: served_ok_def\<close>)
next
  case (rl_exit s ac ids srv es)
  have "LookupAgent u (sv_reg srv) = Some a \<Longrightarrow> LookupAgent u (sv_reg (rl_srv s)) = Some a" for u a
    using rl_exit(2) UnregisterAgent_sub [of u "en_Parse env" "ac_uri ac" "sv_reg (rl_srv s)" a]
    by (auto simp: serveConn_exit_def untrackAgent_def Let_def split: prod.splits if_splits option.splits)
  then show ?case using rl_exit(4) unfolding served_ok_def by (simp del: split_paired_All) blast
next
  case (rl_ctrl ac certs s f srv es)
  then have "ac_uri ac \<in> (\<lambda>x. ac_uri (fst x)) ` rl_served s" by force
  then show ?case
    using rl_ctrl(4) armed_uris_armed_by [of "rl_now s" ac f "rl_srv s"] controlLoop_frame_kept(1) [OF rl_ctrl(2)]
    by (auto simp: served_ok_def)
next
  case (rl_packet src s buf q out)
  then show ?case by (cases "punch_of buf") (auto simp: served_ok_def)
next
  case (rl_miss s key srv i)
  then have "sv_reg srv = sv_reg (rl_srv s)" by (auto simp: server_lookup_def split: option.splits prod.splits)
  then show ?case using rl_miss(4) by (simp add: served_ok_def)
qed (simp_all add: served_ok_def set_watcher_def server_put_def)

section \<open>Every reachable relay\<close>

definition relay_inv :: "pb_enums \<Rightarrow> rule_ord \<Rightarrow> edge_env \<Rightarrow> relay \<Rightarrow> bool" where
  "relay_inv k ord env s \<longleftrightarrow> srv_ok (rl_srv s) \<and> plane_reach (plane_of s) \<and> race_ran k ord env s \<and> served_ok s"

interpretation relay_system: inductive_invariant relay_init "relay_step k ord env" "relay_inv k ord env" for k ord env
proof unfold_locales
  fix s assume i: "relay_init s"
  then obtain relayID region aud pool d d' obs eps where a: "aud = None \<or> aud = Some NewEmitter"
    and srv: "rl_srv s = SetSuccessors eps (edge_New (Registry_New relayID region) (Some NewEngine) (Some NewCache) aud pool
       (Some (SetIdleTTL d (SetPendingTTL d' NewPlane))) obs)" and h: "rl_served s = {}" "rl_hist s = []"
      "rl_flight s = Map.empty" "rl_force s = {(rl_now s, NewEngine)}"
    unfolding relay_init_def by blast
  have "srv_ok (rl_srv s)"
    using a by (auto simp: srv SetSuccessors_def edge_New_def srv_ok_def LookupAgent_def Registry_New_def newMigratedLRU_def
        migrated_ok_def NewEmitter_def)
  moreover have "plane_reach (plane_of s)"
    by (rule reach_init) (auto simp: plane_sys_init_def plane_of_def srv SetSuccessors_def edge_New_def h)
  moreover have "race_ran k ord env s"
    by (rule reach_init) (simp add: race_init_def race_of_def watcher_of_def srv h SetSuccessors_def edge_New_def)
  moreover have "served_ok s"
    by (simp add: served_ok_def h srv SetSuccessors_def edge_New_def LookupAgent_def Registry_New_def)
  ultimately show "relay_inv k ord env s" by (simp add: relay_inv_def)
next
  fix s t assume "relay_step k ord env s t" "relay_inv k ord env s"
  then show "relay_inv k ord env t"
    unfolding relay_inv_def using relay_step_srv_ok relay_step_plane relay_step_policy relay_step_served by blast
qed

lemmas relay_reach_inv = relay_system.reach_inv [unfolded relay_inv_def]

end
