(* ===== verification/RelayStreams.thy ===== *)
theory RelayStreams
  imports RelayInv
begin

text \<open>
  The relay with its stream handlers as goroutines of their own. In the system of the whole relay any
  phase of \<open>handleConsumerStream\<close> may run at any time; here each handler has a program counter, goes through its
  phases in the order of the code, and may be interrupted between the locked sections of its two policy
  checks. The relay underneath only makes steps of its own system, so its theorems hold
  here too; what is new is that every stream the relay opens to a provider leads back to two
  certificates and two rules.
\<close>

section \<open>The system\<close>

text \<open>The two policy checks of a handler, and the request each asks the policy about.\<close>

datatype check = CallerCheck OpenStream | CalleeCheck OpenStream P2PMode RelayMode AgentConn

definition check_key :: "AgentConn \<Rightarrow> check \<Rightarrow> cacheKey" where
  "check_key caller chk = (case chk of
     CallerCheck open \<Rightarrow> (ac_uri caller, os_TargetService open, os_Method open)
   | CalleeCheck open p2p relay prov \<Rightarrow> (ac_uri prov, ac_uri caller, os_Method open))"

definition cs_checked :: "edge_env \<Rightarrow> gotime \<Rightarrow> AgentConn \<Rightarrow> check \<Rightarrow> Result \<Rightarrow> Server \<Rightarrow> cs_result" where
  "cs_checked env now caller chk dec s = (case chk of
     CallerCheck open \<Rightarrow> cs_caller_checked env now caller open dec s
   | CalleeCheck open p2p relay prov \<Rightarrow> cs_callee_checked env now caller open p2p relay prov dec s)"

text \<open>Where a handler is: before its first frame, inside an interrupted evaluation, behind it, or between two phases.\<close>

datatype handler_pc = H_read | H_missed check | H_decided check Result | H_checked check Result | H_at cs_phase

text \<open>\<open>ss_sent\<close> is what the handlers did to the outside.\<close>

record stream_sys =
  ss_relay :: relay
  ss_handlers :: "nat \<rightharpoonup> AgentConn \<times> handler_pc"
  ss_sent :: "effect list"

definition stream_init :: "stream_sys \<Rightarrow> bool" where
  "stream_init s \<longleftrightarrow> relay_init (ss_relay s) \<and> ss_handlers s = Map.empty \<and> ss_sent s = []"

text \<open>Handler \<open>i\<close> acts: the server, the effects and its next place.\<close>

definition handler_acts :: "nat \<Rightarrow> AgentConn \<Rightarrow> Server \<Rightarrow> effect list \<Rightarrow> handler_pc \<Rightarrow> stream_sys \<Rightarrow> stream_sys" where
  "handler_acts i ac srv es pc s = s\<lparr>ss_relay := (ss_relay s)\<lparr>rl_srv := srv\<rparr>,
     ss_handlers := (ss_handlers s)(i \<mapsto> (ac, pc)), ss_sent := ss_sent s @ es\<rparr>"

text \<open>Handler \<open>i\<close> moves its evaluation on: the server, the evaluation in flight and its next place.\<close>

definition handler_flies :: "nat \<Rightarrow> AgentConn \<Rightarrow> Server \<Rightarrow> flight option \<Rightarrow> handler_pc \<Rightarrow> stream_sys \<Rightarrow> stream_sys" where
  "handler_flies i ac srv fl pc s = s\<lparr>ss_relay := (ss_relay s)\<lparr>rl_srv := srv, rl_flight := (rl_flight (ss_relay s))(i := fl)\<rparr>,
     ss_handlers := (ss_handlers s)(i \<mapsto> (ac, pc))\<rparr>"

abbreviation ss_srv :: "stream_sys \<Rightarrow> Server" where
  "ss_srv s \<equiv> rl_srv (ss_relay s)"

abbreviation ss_now :: "stream_sys \<Rightarrow> gotime" where
  "ss_now s \<equiv> rl_now (ss_relay s)"

text \<open>A handler that is done with its stream, or hands it over to the function for another kind of frame or for a peer relay.\<close>

definition handed_over :: "cs_phase \<Rightarrow> bool" where
  "handed_over ph \<longleftrightarrow> (case ph of CS_exit \<Rightarrow> True | CS_resume f \<Rightarrow> True | CS_migrate f \<Rightarrow> True | CS_peer open r \<Rightarrow> True | _ \<Rightarrow> False)"

inductive stream_step :: "pb_enums \<Rightarrow> rule_ord \<Rightarrow> edge_env \<Rightarrow> stream_sys \<Rightarrow> stream_sys \<Rightarrow> bool"
  for k :: pb_enums and ord :: rule_ord and env :: edge_env where
  ss_other: "relay_step k ord env (ss_relay s) r \<Longrightarrow> rl_flight r = rl_flight (ss_relay s) \<Longrightarrow>
    stream_step k ord env s (s\<lparr>ss_relay := r\<rparr>)"
| ss_begin: "(ac, certs) \<in> rl_served (ss_relay s) \<Longrightarrow> ss_handlers s i = None \<Longrightarrow>
    stream_step k ord env s (handler_acts i ac (cs_begin (ss_srv s)) [] H_read s)"
| ss_first: "ss_handlers s i = Some (ac, H_read) \<Longrightarrow> cs_first env (ss_now s) ac fr (ss_srv s) = (srv, es, ph) \<Longrightarrow>
    stream_step k ord env s (handler_acts i ac srv es (H_at ph) s)"
| ss_open: "ss_handlers s i = Some (ac, H_read) \<Longrightarrow>
    server_lookup (ss_now s) (check_key ac (CallerCheck open)) (bump (\<lambda>m. m\<lparr>streamOpens := streamOpens m + 1\<rparr>) (ss_srv s)) = (None, srv) \<Longrightarrow>
    stream_step k ord env s (handler_flies i ac srv (Some (Missed (check_key ac (CallerCheck open)))) (H_missed (CallerCheck open)) s)"
| ss_resolve: "ss_handlers s i = Some (ac, H_at (CS_resolving open p2p relay)) \<Longrightarrow>
    cs_resolve env (ss_now s) ac open p2p relay (ss_srv s) = (srv, es, ph) \<Longrightarrow>
    stream_step k ord env s (handler_acts i ac srv es (H_at ph) s)"
| ss_callee: "ss_handlers s i = Some (ac, H_at (CS_resolving open p2p relay)) \<Longrightarrow>
    Resolve (en_Parse env) (en_ctrl env) (ac_uri ac) (os_TargetService open) (sv_reg (ss_srv s)) = (Some prov, None, None) \<Longrightarrow>
    chk = CalleeCheck open p2p relay prov \<Longrightarrow> server_lookup (ss_now s) (check_key ac chk) (ss_srv s) = (None, srv) \<Longrightarrow>
    stream_step k ord env s (handler_flies i ac srv (Some (Missed (check_key ac chk))) (H_missed chk) s)"
| ss_decide: "ss_handlers s i = Some (ac, H_missed chk) \<Longrightarrow>
    d = decide_key (the (sv_policy (ss_srv s))) (check_key ac chk) (ss_now s) \<Longrightarrow>
    stream_step k ord env s (handler_flies i ac (ss_srv s) (Some (Decided (check_key ac chk) d)) (H_decided chk d) s)"
| ss_put: "ss_handlers s i = Some (ac, H_decided chk d) \<Longrightarrow>
    stream_step k ord env s (handler_flies i ac (server_put env (ss_now s) (check_key ac chk) d (ss_srv s)) None (H_checked chk d) s)"
| ss_checked: "ss_handlers s i = Some (ac, H_checked chk d) \<Longrightarrow> cs_checked env (ss_now s) ac chk d (ss_srv s) = (srv, es, ph) \<Longrightarrow>
    stream_step k ord env s (handler_acts i ac srv es (H_at ph) s)"
| ss_incoming: "ss_handlers s i = Some (ac, H_at (CS_opening l)) \<Longrightarrow> cs_incoming ac l res (ss_srv s) = (srv, es, ph) \<Longrightarrow>
    stream_step k ord env s (handler_acts i ac srv es (H_at ph) s)"
| ss_ack: "ss_handlers s i = Some (ac, H_at (CS_waitAck l)) \<Longrightarrow> ids_left (ss_srv s) \<Longrightarrow>
    cs_ack env (ss_now s) ac l ack okC okP (ss_srv s) = Some (srv, es, ph) \<Longrightarrow>
    stream_step k ord env s (handler_acts i ac srv es (H_at ph) s)"
| ss_spliced: "ss_handlers s i = Some (ac, H_at (CS_splicing l)) \<Longrightarrow> cs_spliced l n (ss_srv s) = (srv, es, ph) \<Longrightarrow>
    stream_step k ord env s (handler_acts i ac srv es (H_at ph) s)"
| ss_forwarded: "ss_handlers s i = Some (ac, H_at (CS_forwarding l a b)) \<Longrightarrow> cs_forwarded l a b (ss_srv s) = (srv, es, ph) \<Longrightarrow>
    stream_step k ord env s (handler_acts i ac srv es (H_at ph) s)"
| ss_leave: "ss_handlers s i = Some (ac, H_at ph) \<Longrightarrow> handed_over ph \<Longrightarrow>
    stream_step k ord env s (s\<lparr>ss_handlers := (ss_handlers s)(i := None)\<rparr>)"

abbreviation stream_reach :: "pb_enums \<Rightarrow> rule_ord \<Rightarrow> edge_env \<Rightarrow> stream_sys \<Rightarrow> bool" where
  "stream_reach k ord env \<equiv> reach stream_init (stream_step k ord env)"

section \<open>The relay underneath\<close>

text \<open>The evaluations in flight are those of the handlers.\<close>

definition flight_of :: "(AgentConn \<times> handler_pc) option \<Rightarrow> flight option" where
  "flight_of h = (case h of
     Some (ac, H_missed chk) \<Rightarrow> Some (Missed (check_key ac chk))
   | Some (ac, H_decided chk d) \<Rightarrow> Some (Decided (check_key ac chk) d)
   | _ \<Rightarrow> None)"

definition flights_ok :: "stream_sys \<Rightarrow> bool" where
  "flights_ok s \<longleftrightarrow> (\<forall>i. rl_flight (ss_relay s) i = flight_of (ss_handlers s i))"

lemma flight_of_simps [simp]:
  "flight_of None = None" "flight_of (Some (ac, H_read)) = None" "flight_of (Some (ac, H_at ph)) = None"
  "flight_of (Some (ac, H_checked chk d)) = None" "flight_of (Some (ac, H_missed chk)) = Some (Missed (check_key ac chk))"
  "flight_of (Some (ac, H_decided chk d)) = Some (Decided (check_key ac chk) d)"
  by (simp_all add: flight_of_def)

lemma handler_moves_simps [simp]:
  "ss_relay (handler_acts i ac srv es pc s) = (ss_relay s)\<lparr>rl_srv := srv\<rparr>"
  "ss_handlers (handler_acts i ac srv es pc s) = (ss_handlers s)(i \<mapsto> (ac, pc))"
  "ss_sent (handler_acts i ac srv es pc s) = ss_sent s @ es"
  "ss_relay (handler_flies i ac srv fl pc s) = (ss_relay s)\<lparr>rl_srv := srv, rl_flight := (rl_flight (ss_relay s))(i := fl)\<rparr>"
  "ss_handlers (handler_flies i ac srv fl pc s) = (ss_handlers s)(i \<mapsto> (ac, pc))"
  "ss_sent (handler_flies i ac srv fl pc s) = ss_sent s"
  by (simp_all add: handler_acts_def handler_flies_def)

lemma stream_step_flights: "stream_step k ord env s t \<Longrightarrow> flights_ok s \<Longrightarrow> flights_ok t"
  by (induction rule: stream_step.induct) (auto simp: flights_ok_def)

lemma relay_handler: "handler_step env (rl_now r) (rl_srv r) srv \<Longrightarrow> (relay_step k ord env)\<^sup>*\<^sup>* r (r\<lparr>rl_srv := srv\<rparr>)"
  by (intro r_into_rtranclp rl_handler)

lemma cs_checked_step: "cs_checked env now ac chk d s = (s', es, ph) \<Longrightarrow> handler_step env now s s'"
  by (cases chk) (auto simp: cs_checked_def intro: hd_caller_checked hd_callee_checked)

lemma stream_step_relay:
  assumes "stream_step k ord env s t" and "flights_ok s"
  shows "(relay_step k ord env)\<^sup>*\<^sup>* (ss_relay s) (ss_relay t)"
  using assms
proof (induction rule: stream_step.induct)
  case (ss_open s i ac os srv)
  let ?r = "(ss_relay s)\<lparr>rl_srv := bump (\<lambda>m. m\<lparr>streamOpens := streamOpens m + 1\<rparr>) (ss_srv s)\<rparr>"
  have "handler_step env (ss_now s) (ss_srv s) (bump (\<lambda>m. m\<lparr>streamOpens := streamOpens m + 1\<rparr>) (ss_srv s))"
    using hd_peers [of env "ss_now s" "ss_srv s" "\<lambda>m. m\<lparr>streamOpens := streamOpens m + 1\<rparr>" "sv_pool (ss_srv s)"] by simp
  then have "relay_step k ord env (ss_relay s) ?r" by (rule rl_handler)
  moreover have "rl_flight ?r i = None" using ss_open(1,3) by (simp add: flights_ok_def)
  with ss_open(2) have "relay_step k ord env ?r (?r\<lparr>rl_srv := srv, rl_flight := (rl_flight ?r)(i \<mapsto> Missed (check_key ac (CallerCheck os)))\<rparr>)"
    by (intro rl_miss) simp_all
  ultimately show ?case by simp
next
  case (ss_callee s i ac os p2p relay prov chk srv)
  then have "rl_flight (ss_relay s) i = None" by (simp add: flights_ok_def)
  with ss_callee(4) show ?case by (auto intro!: r_into_rtranclp rl_miss)
next
  case (ss_decide s i ac chk d)
  then have "rl_flight (ss_relay s) i = Some (Missed (check_key ac chk))" by (simp add: flights_ok_def)
  from rl_decide [where k = k and ord = ord and env = env, OF this] ss_decide(2) show ?case by auto
next
  case (ss_put s i ac chk d)
  then have "rl_flight (ss_relay s) i = Some (Decided (check_key ac chk) d)" by (simp add: flights_ok_def)
  from rl_put [where k = k and ord = ord and env = env, OF this] show ?case by auto
qed (auto intro: relay_handler hd_begin hd_first hd_resolve hd_incoming hd_ack hd_spliced hd_forwarded cs_checked_step)

section \<open>What a handler may rely on\<close>

text \<open>An engine let the request pass while it was in force.\<close>

definition let_pass :: "relay \<Rightarrow> cacheKey \<Rightarrow> bool" where
  "let_pass r key \<longleftrightarrow> (\<exists>d. from_engines (race_of r) key d \<and> res_Decision d \<noteq> DecisionDeny)"

definition agent_of :: "relay \<Rightarrow> AgentConn \<Rightarrow> bool" where
  "agent_of r ac \<longleftrightarrow> ac \<in> fst ` rl_served r"

text \<open>The streams of a handler past both checks.\<close>

definition stream_ok :: "relay \<Rightarrow> AgentConn \<Rightarrow> cs_locals \<Rightarrow> bool" where
  "stream_ok r ac l \<longleftrightarrow> let_pass r (ac_uri ac, os_TargetService (cl_open l), os_Method (cl_open l)) \<and>
     let_pass r (ac_uri (cl_prov l), ac_uri ac, os_Method (cl_open l)) \<and> agent_of r (cl_prov l)"

fun phase_ok :: "relay \<Rightarrow> AgentConn \<Rightarrow> cs_phase \<Rightarrow> bool" where
  "phase_ok r ac (CS_resolving os p2p rm) = let_pass r (check_key ac (CallerCheck os))"
| "phase_ok r ac (CS_peer os rem) = let_pass r (check_key ac (CallerCheck os))"
| "phase_ok r ac (CS_opening l) = stream_ok r ac l"
| "phase_ok r ac (CS_waitAck l) = stream_ok r ac l"
| "phase_ok r ac (CS_forwarding l a b) = stream_ok r ac l"
| "phase_ok r ac (CS_splicing l) = stream_ok r ac l"
| "phase_ok r ac ph = True"

fun check_ok :: "relay \<Rightarrow> AgentConn \<Rightarrow> check \<Rightarrow> bool" where
  "check_ok r ac (CallerCheck os) = True"
| "check_ok r ac (CalleeCheck os p2p rm prov) = (let_pass r (check_key ac (CallerCheck os)) \<and> agent_of r prov)"

fun pc_ok :: "relay \<Rightarrow> AgentConn \<Rightarrow> handler_pc \<Rightarrow> bool" where
  "pc_ok r ac H_read = True"
| "pc_ok r ac (H_missed chk) = check_ok r ac chk"
| "pc_ok r ac (H_decided chk d) = (check_ok r ac chk \<and> from_engines (race_of r) (check_key ac chk) d)"
| "pc_ok r ac (H_checked chk d) = (check_ok r ac chk \<and> from_engines (race_of r) (check_key ac chk) d)"
| "pc_ok r ac (H_at ph) = phase_ok r ac ph"

text \<open>A stream opened to a provider.\<close>

fun sent_ok :: "relay \<Rightarrow> effect \<Rightarrow> bool" where
  "sent_ok r (OpenIncomingStream a (M_IncomingStream m)) = (\<exists>ac. agent_of r ac \<and> agent_of r a \<and> is_SourceAgentUri m = ac_uri ac \<and>
     let_pass r (ac_uri ac, is_TargetService m, is_Method m) \<and> let_pass r (ac_uri a, ac_uri ac, is_Method m))"
| "sent_ok r (OpenIncomingStream a _) = False"
| "sent_ok r _ = True"

section \<open>What was established stays\<close>

definition grows :: "relay \<Rightarrow> relay \<Rightarrow> bool" where
  "grows r r' \<longleftrightarrow> rl_force r \<subseteq> rl_force r' \<and> rl_served r \<subseteq> rl_served r'"

lemma relay_step_grows: "relay_step k ord env r r' \<Longrightarrow> grows r r'"
  by (induction rule: relay_step.induct) (auto simp: grows_def set_watcher_def split: sc_phase.splits)

lemma grows_refl: "grows r r"
  by (simp add: grows_def)

lemma grows_trans: "grows r r' \<Longrightarrow> grows r' r'' \<Longrightarrow> grows r r''"
  unfolding grows_def by blast

lemma relay_steps_grow: "(relay_step k ord env)\<^sup>*\<^sup>* r r' \<Longrightarrow> grows r r'"
  by (induction rule: rtranclp_induct) (blast intro: grows_refl grows_trans relay_step_grows)+

lemma from_engines_grows: "grows r r' \<Longrightarrow> from_engines (race_of r) key d \<Longrightarrow> from_engines (race_of r') key d"
  by (auto simp: grows_def from_engines_def race_of_def)

lemma let_pass_grows: "grows r r' \<Longrightarrow> let_pass r key \<Longrightarrow> let_pass r' key"
  unfolding let_pass_def using from_engines_grows by blast

lemma agent_of_grows: "grows r r' \<Longrightarrow> agent_of r ac \<Longrightarrow> agent_of r' ac"
  by (auto simp: grows_def agent_of_def)

lemma stream_ok_grows: "grows r r' \<Longrightarrow> stream_ok r ac l \<Longrightarrow> stream_ok r' ac l"
  unfolding stream_ok_def using let_pass_grows agent_of_grows by blast

lemma pc_ok_grows:
  assumes "grows r r'"
  shows "phase_ok r ac ph \<Longrightarrow> phase_ok r' ac ph" and "check_ok r ac chk \<Longrightarrow> check_ok r' ac chk" and "pc_ok r ac pc \<Longrightarrow> pc_ok r' ac pc"
proof -
  show p: "phase_ok r ac ph \<Longrightarrow> phase_ok r' ac ph" for ph
    by (cases ph) (auto intro: let_pass_grows [OF assms] stream_ok_grows [OF assms])
  show c: "check_ok r ac chk \<Longrightarrow> check_ok r' ac chk" for chk
    by (cases chk) (auto intro: let_pass_grows [OF assms] agent_of_grows [OF assms])
  show "pc_ok r ac pc \<Longrightarrow> pc_ok r' ac pc"
    by (cases pc) (auto intro: p c from_engines_grows [OF assms])
qed

lemma sent_ok_grows:
  assumes "grows r r'" and "sent_ok r e"
  shows "sent_ok r' e"
proof (cases "(r, e)" rule: sent_ok.cases)
  case (1 r a m)
  with assms(2) show ?thesis using let_pass_grows [OF assms(1)] agent_of_grows [OF assms(1)] by simp blast
qed (use assms(2) in simp_all)

section \<open>What a phase establishes\<close>

lemma server_evaluate_from_engines:
  assumes "server_evaluate env (rl_now r) e caller target meth srv = (d, srv')" and "sv_policy srv = Some e"
    and "sv_policy (rl_srv r) = sv_policy srv" and "sv_cache (rl_srv r) = sv_cache srv" and "sv_cache srv \<noteq> None" and "race_inv (race_of r)"
  shows "from_engines (race_of r) (caller, target, meth) d"
proof -
  obtain m where m: "sv_cache srv = Some m" using assms(5) by auto
  then obtain n c n' where "evaluate (en_cord env) (rl_now r) e caller target meth (Some m, n) = (d, c, n')"
    using assms(1) by (auto simp: server_evaluate_def split: prod.splits)
  then show ?thesis
    using evaluate_from_engines [OF assms(6), of "en_cord env" caller target meth n d c n'] assms(2-4) m
    by (simp add: race_of_def watcher_of_def)
qed

lemma checked_phase_ok:
  assumes "from_engines (race_of r) (check_key ac chk) d" and "check_ok r ac chk" and "cs_checked env now ac chk d s = (s', es, ph)"
  shows "phase_ok r ac ph"
  using assms
  by (cases chk) (auto simp: cs_checked_def cs_caller_checked_def cs_callee_checked_def cs_return_def check_key_def let_pass_def stream_ok_def
      Let_def split: if_splits)

lemma cs_first_ok:
  assumes "cs_first env (rl_now r) ac fr (rl_srv r) = (s', es, ph)" and "srv_ok (rl_srv r)" and "race_inv (race_of r)"
  shows "phase_ok r ac ph"
proof (cases "\<exists>os p2p rm. ph = CS_resolving os p2p rm")
  case True
  then obtain os p2p rm where ph: "ph = CS_resolving os p2p rm" by blast
  with cs_first_phase [OF assms(1)] have c: "cs_openstream env (rl_now r) ac os (rl_srv r) = (s', es, ph)" by auto
  let ?b = "bump (\<lambda>m. m\<lparr>streamOpens := streamOpens m + 1\<rparr>) (rl_srv r)"
  obtain e where e: "sv_policy (rl_srv r) = Some e" using assms(2) by (auto simp: srv_ok_def)
  obtain d s2 where d: "server_evaluate env (rl_now r) e (ac_uri ac) (os_TargetService os) (os_Method os) ?b = (d, s2)" by fastforce
  have "from_engines (race_of r) (check_key ac (CallerCheck os)) d"
    using server_evaluate_from_engines [OF d] assms(2,3) e by (simp add: check_key_def srv_ok_def)
  moreover have "cs_checked env (rl_now r) ac (CallerCheck os) d s2 = (s', es, ph)"
    using c d e by (simp add: cs_openstream_def cs_checked_def Let_def)
  ultimately show ?thesis using checked_phase_ok [of r ac "CallerCheck os" d] by simp
next
  case False
  with cs_first_phase [OF assms(1)] show ?thesis by auto
qed

lemma resolved_agent:
  assumes "Resolve Parse ctrl u name (sv_reg (rl_srv r)) = (Some prov, None, None)" and "served_ok r"
  shows "agent_of r prov"
proof -
  from assms(1) obtain v where "LookupAgent v (sv_reg (rl_srv r)) = Some prov" by (auto simp: Resolve_local)
  with assms(2) show ?thesis by (auto simp: served_ok_def agent_of_def)
qed

lemma cs_resolve_ok:
  assumes "cs_resolve env (rl_now r) ac os p2p rm (rl_srv r) = (s', es, ph)" and "let_pass r (check_key ac (CallerCheck os))"
    and "srv_ok (rl_srv r)" and "race_inv (race_of r)" and "served_ok r"
  shows "phase_ok r ac ph"
proof (cases rule: Resolve_cases [of "en_Parse env" "en_ctrl env" "ac_uri ac" "os_TargetService os" "sv_reg (rl_srv r)"])
  case (local prov)
  obtain e where e: "sv_policy (rl_srv r) = Some e" using assms(3) by (auto simp: srv_ok_def)
  obtain d s2 where d: "server_evaluate env (rl_now r) e (ac_uri prov) (ac_uri ac) (os_Method os) (rl_srv r) = (d, s2)" by fastforce
  let ?chk = "CalleeCheck os p2p rm prov"
  have "from_engines (race_of r) (check_key ac ?chk) d"
    using server_evaluate_from_engines [OF d e] assms(3,4) by (simp add: check_key_def srv_ok_def)
  moreover have "cs_checked env (rl_now r) ac ?chk d s2 = (s', es, ph)"
    using assms(1) local d e by (simp add: cs_resolve_def cs_callee_def cs_checked_def)
  ultimately show ?thesis using checked_phase_ok [of r ac ?chk d] assms(2) resolved_agent [OF local assms(5)] by simp
next
  case (remote rem)
  then show ?thesis using assms(1,2) by (auto simp: cs_resolve_def cs_return_def split: if_splits)
next
  case (failed e)
  then show ?thesis using assms(1) by (simp add: cs_resolve_def cs_return_def)
qed

text \<open>Only \<open>cs_incoming\<close> opens a stream.\<close>

definition opens_none :: "effect list \<Rightarrow> bool" where
  "opens_none es \<longleftrightarrow> (\<forall>a m. OpenIncomingStream a m \<notin> set es)"

lemma opens_none_ok: "opens_none es \<Longrightarrow> e \<in> set es \<Longrightarrow> sent_ok r e"
  by (cases "(r, e)" rule: sent_ok.cases) (auto simp: opens_none_def)

lemma opens_none_simps [simp]:
  "opens_none []" "opens_none (es @ es') \<longleftrightarrow> opens_none es \<and> opens_none es'" "opens_none (CloseStream r # es) = opens_none es"
  "opens_none (WriteCtrl a t m # es) = opens_none es"
  by (auto simp: opens_none_def)

lemma rejectConsumer_opens_none [simp]: "opens_none (snd (rejectConsumer c r i code reason s))"
  by (auto simp: opens_none_def rejectConsumer_def writeStreamReject_def Let_def split: option.splits prod.splits)

lemma cs_return_effects: "fst (snd (cs_return se)) = snd se @ [CloseStream ConsumerStream]"
  by (simp add: cs_return_def)

lemma cs_checked_opens_none: "opens_none (fst (snd (cs_checked env now ac chk d s)))"
  by (cases chk) (auto simp: cs_checked_def cs_caller_checked_def cs_callee_checked_def cs_return_effects Let_def)

lemma cs_callee_opens_none: "opens_none (fst (snd (cs_callee env now ac os p2p rm prov s)))"
  using cs_checked_opens_none [of env now ac "CalleeCheck os p2p rm prov"]
  by (auto simp: cs_callee_def cs_checked_def split: option.split prod.split)

lemma cs_resolve_opens_none: "opens_none (fst (snd (cs_resolve env now ac os p2p rm s)))"
  by (auto simp: cs_resolve_def cs_return_effects cs_callee_opens_none split: prod.split option.split)

lemma cs_first_opens_none: "opens_none (fst (snd (cs_first env now ac fr s)))"
  using cs_checked_opens_none [of env now ac "CallerCheck _"]
  by (auto simp: cs_first_def cs_openstream_def cs_checked_def cs_return_effects Let_def split: sum.split option.split message.split prod.split)

lemma cs_leave_opens_none: "opens_none (snd se) \<Longrightarrow> opens_none (fst (snd (cs_leave l allocs se)))"
  by (simp add: cs_leave_eq)

lemma cs_end_opens_none:
  "opens_none (fst (snd (cs_spliced l n s)))" "opens_none (fst (snd (cs_forwarded l a b s)))"
  by (simp_all add: cs_spliced_def cs_forwarded_def cs_leave_opens_none)

lemma cs_ack_opens_none: "cs_ack env now ac l ack okC okP s = Some (s', es, ph) \<Longrightarrow> opens_none es"
  by (auto simp: cs_ack_def cs_forward_def cs_leave_eq Let_def split: sum.splits option.splits if_splits prod.splits RelayMode.splits)

lemma phase_opens_none:
  "cs_first env now ac fr s = (s', es, ph) \<Longrightarrow> opens_none es"
  "cs_resolve env now ac os p2p rm s = (s', es, ph) \<Longrightarrow> opens_none es"
  "cs_checked env now ac chk d s = (s', es, ph) \<Longrightarrow> opens_none es"
  "cs_spliced l n s = (s', es, ph) \<Longrightarrow> opens_none es"
  "cs_forwarded l a b s = (s', es, ph) \<Longrightarrow> opens_none es"
  using cs_first_opens_none [of env now ac fr s] cs_resolve_opens_none [of env now ac os p2p rm s] cs_checked_opens_none [of env now ac chk d s]
    cs_end_opens_none(1) [of l n s] cs_end_opens_none(2) [of l a b s] by simp_all

lemma cs_incoming_sent:
  assumes "cs_incoming ac l res s = (s', es, ph)" and "stream_ok r ac l" and "agent_of r ac" and "e \<in> set es"
  shows "sent_ok r e"
proof -
  let ?m = "\<lparr>is_TargetService = os_TargetService (cl_open l), is_Method = os_Method (cl_open l), is_SourceAgentUri = ac_uri ac,
    is_StreamId = os_StreamId (cl_open l), is_ResumeRelays = sv_successors s\<rparr>"
  have "e = OpenIncomingStream (cl_prov l) (M_IncomingStream ?m) \<or> (\<forall>a m. e \<noteq> OpenIncomingStream a m)"
    using assms(1,4)
    by (auto simp: cs_incoming_def OpenIncoming_def cs_return_def rejectConsumer_def writeStreamReject_def Let_def
        split: open_result.splits prod.splits if_splits bool.splits option.splits)
  then show ?thesis
  proof
    assume "e = OpenIncomingStream (cl_prov l) (M_IncomingStream ?m)"
    then show ?thesis using assms(2,3) by (auto simp: stream_ok_def)
  next
    assume "\<forall>a m. e \<noteq> OpenIncomingStream a m"
    then show ?thesis by (cases "(r, e)" rule: sent_ok.cases) auto
  qed
qed

section \<open>Every reachable state\<close>

definition stream_inv :: "pb_enums \<Rightarrow> rule_ord \<Rightarrow> edge_env \<Rightarrow> stream_sys \<Rightarrow> bool" where
  "stream_inv k ord env s \<longleftrightarrow> relay_reach k ord env (ss_relay s) \<and> flights_ok s \<and>
     (\<forall>i ac pc. ss_handlers s i = Some (ac, pc) \<longrightarrow> agent_of (ss_relay s) ac \<and> pc_ok (ss_relay s) ac pc) \<and>
     (\<forall>e \<in> set (ss_sent s). sent_ok (ss_relay s) e)"

text \<open>A step that moves handler \<open>i\<close> and sends \<open>es\<close>, both justified in the state before it.\<close>

lemma stream_inv_move:
  assumes st: "stream_step k ord env s t" and inv: "stream_inv k ord env s"
    and h: "ss_handlers t = (ss_handlers s)(i := x)" and sent: "ss_sent t = ss_sent s @ es"
    and pc: "\<And>ac pc. x = Some (ac, pc) \<Longrightarrow> agent_of (ss_relay s) ac \<and> pc_ok (ss_relay s) ac pc"
    and ok: "\<And>e. e \<in> set es \<Longrightarrow> sent_ok (ss_relay s) e"
  shows "stream_inv k ord env t"
proof -
  have f: "flights_ok s" and rr: "relay_reach k ord env (ss_relay s)" using inv by (simp_all add: stream_inv_def)
  note rs = stream_step_relay [OF st f] and fl = stream_step_flights [OF st f]
  note g = relay_steps_grow [OF rs]
  have "agent_of (ss_relay t) ac \<and> pc_ok (ss_relay t) ac p" if "ss_handlers t j = Some (ac, p)" for j ac p
  proof -
    have "agent_of (ss_relay s) ac \<and> pc_ok (ss_relay s) ac p"
      using that inv pc by (cases "j = i") (auto simp: h stream_inv_def)
    then show ?thesis using agent_of_grows [OF g] pc_ok_grows(3) [OF g] by blast
  qed
  moreover have "sent_ok (ss_relay t) e" if "e \<in> set (ss_sent t)" for e
    using that inv ok sent_ok_grows [OF g, of e] by (auto simp: sent stream_inv_def)
  ultimately show ?thesis using reach_steps [OF rs rr] fl unfolding stream_inv_def by blast
qed

text \<open>What the invariant of the relay says in a state of this system.\<close>

lemma stream_inv_relay:
  assumes "stream_inv k ord env s"
  shows "srv_ok (ss_srv s)" "race_inv (race_of (ss_relay s))" "served_ok (ss_relay s)"
proof -
  have r: "relay_reach k ord env (ss_relay s)" using assms by (simp add: stream_inv_def)
  show "srv_ok (ss_srv s)" "served_ok (ss_relay s)" using relay_reach_inv [OF r] by blast+
  have "race_ran k ord env (ss_relay s)" using relay_reach_inv [OF r] by blast
  then show "race_inv (race_of (ss_relay s))" by (rule race_system.reach_inv)
qed

lemma stream_inv_handler:
  assumes "stream_inv k ord env s" and "ss_handlers s i = Some (ac, pc)"
  shows "agent_of (ss_relay s) ac" "pc_ok (ss_relay s) ac pc"
  using assms by (auto simp: stream_inv_def)

lemma decide_from_engines:
  assumes "stream_inv k ord env s"
  shows "from_engines (race_of (ss_relay s)) key (decide_key (the (sv_policy (ss_srv s))) key (ss_now s))"
  using stream_inv_relay(2) [OF assms] by (auto simp: from_engines_def race_inv_def race_of_def watcher_of_def)

text \<open>The two ways a handler goes on.\<close>

lemma stream_inv_acts:
  assumes "stream_step k ord env s t" and "stream_inv k ord env s" and "t = handler_acts i ac srv es (H_at ph) s"
    and "ss_handlers s i = Some (ac, pc)" and "phase_ok (ss_relay s) ac ph" and "opens_none es \<or> (\<forall>e \<in> set es. sent_ok (ss_relay s) e)"
  shows "stream_inv k ord env t"
  by (rule stream_inv_move [OF assms(1,2), where i = i and es = es])
    (use assms(3-6) stream_inv_handler(1) [OF assms(2,4)] in \<open>auto intro: opens_none_ok\<close>)

lemma stream_inv_flies:
  assumes "stream_step k ord env s t" and "stream_inv k ord env s" and "t = handler_flies i ac srv fl pc' s"
    and "ss_handlers s i = Some (ac, pc)" and "pc_ok (ss_relay s) ac pc'"
  shows "stream_inv k ord env t"
  by (rule stream_inv_move [OF assms(1,2), where i = i and es = "[]"])
    (use assms(3-5) stream_inv_handler(1) [OF assms(2,4)] in auto)

lemma stream_step_inv:
  assumes st: "stream_step k ord env s t" and inv: "stream_inv k ord env s"
  shows "stream_inv k ord env t"
proof -
  note R = stream_inv_relay [OF inv] and H = stream_inv_handler(2) [OF inv]
    and acts = stream_inv_acts [OF st inv] and flies = stream_inv_flies [OF st inv]
  from st show ?thesis
  proof cases
    case (ss_other r)
    show ?thesis
      by (rule stream_inv_move [OF st inv, where i = i and x = "ss_handlers s i" and es = "[]" for i]) (use inv in \<open>auto simp: ss_other stream_inv_def\<close>)
  next
    case (ss_begin ac certs i)
    show ?thesis by (rule stream_inv_move [OF st inv, where i = i and es = "[]"]) (use ss_begin in \<open>auto simp: agent_of_def rev_image_eqI\<close>)
  next
    case (ss_first i ac fr srv es ph)
    show ?thesis by (rule acts [OF ss_first(1,2) cs_first_ok [OF ss_first(3) R(1,2)] disjI1 [OF phase_opens_none(1) [OF ss_first(3)]]])
  next
    case (ss_open i ac os srv)
    show ?thesis by (rule flies [OF ss_open(1,2)]) simp
  next
    case (ss_resolve i ac os p2p rm srv es ph)
    show ?thesis
      by (rule acts [OF ss_resolve(1,2) cs_resolve_ok [OF ss_resolve(3) _ R] disjI1 [OF phase_opens_none(2) [OF ss_resolve(3)]]])
        (use H [OF ss_resolve(2)] in simp)
  next
    case (ss_callee i ac os p2p rm prov chk srv)
    show ?thesis by (rule flies [OF ss_callee(1,2)]) (use ss_callee H [OF ss_callee(2)] resolved_agent [OF ss_callee(3) R(3)] in simp)
  next
    case (ss_decide i ac chk d)
    show ?thesis by (rule flies [OF ss_decide(1,2)]) (use ss_decide H [OF ss_decide(2)] decide_from_engines [OF inv] in simp)
  next
    case (ss_put i ac chk d)
    show ?thesis by (rule flies [OF ss_put(1,2)]) (use H [OF ss_put(2)] in simp)
  next
    case (ss_checked i ac chk d srv es ph)
    show ?thesis
      by (rule acts [OF ss_checked(1,2) checked_phase_ok [OF _ _ ss_checked(3)] disjI1 [OF phase_opens_none(3) [OF ss_checked(3)]]])
        (use H [OF ss_checked(2)] in simp_all)
  next
    case (ss_incoming i ac l res srv es ph)
    have "stream_ok (ss_relay s) ac l" using H [OF ss_incoming(2)] by simp
    then show ?thesis
      using cs_incoming_phase [OF ss_incoming(3)] cs_incoming_sent [OF ss_incoming(3)] stream_inv_handler(1) [OF inv ss_incoming(2)]
      by (intro acts [OF ss_incoming(1,2)]) auto
  next
    case (ss_ack i ac l ack okC okP srv es ph)
    show ?thesis
      by (rule acts [OF ss_ack(1,2) _ disjI1 [OF cs_ack_opens_none [OF ss_ack(4)]]]) (use H [OF ss_ack(2)] cs_ack_phase [OF ss_ack(4)] in auto)
  next
    case (ss_spliced i ac l n srv es ph)
    show ?thesis
      by (rule acts [OF ss_spliced(1,2) _ disjI1 [OF phase_opens_none(4) [OF ss_spliced(3)]]]) (use cs_data_exit(1) [of l n "ss_srv s"] ss_spliced(3) in simp)
  next
    case (ss_forwarded i ac l a b srv es ph)
    show ?thesis
      by (rule acts [OF ss_forwarded(1,2) _ disjI1 [OF phase_opens_none(5) [OF ss_forwarded(3)]]])
        (use cs_data_exit(2) [of l a b "ss_srv s"] ss_forwarded(3) in simp)
  next
    case (ss_leave i ac ph)
    show ?thesis by (rule stream_inv_move [OF st inv, where i = i and es = "[]"]) (use ss_leave in auto)
  qed
qed

interpretation stream_system: inductive_invariant stream_init "stream_step k ord env" "stream_inv k ord env" for k ord env
proof unfold_locales
  show "stream_init s \<Longrightarrow> stream_inv k ord env s" for s
    using reach_init [of relay_init "ss_relay s" "relay_step k ord env"]
    by (auto simp: stream_init_def stream_inv_def flights_ok_def) (simp add: relay_init_def)
qed (rule stream_step_inv)

section \<open>A stream that is allowed is opened\<close>

text \<open>The phases of one handler, one after the other.\<close>

lemma stream_run_opens:
  assumes "stream_reach k ord env s" and "(ac, certs) \<in> rl_served (ss_relay s)" and "ss_handlers s i = None"
    and "cs_first env (ss_now s) ac fr (cs_begin (ss_srv s)) = (x1, es1, CS_resolving os p2p rm)"
    and "cs_resolve env (ss_now s) ac os p2p rm x1 = (x2, es2, CS_opening l)"
    and "cs_incoming ac l res x2 = (x3, es3, ph)"
  shows "\<exists>t. stream_reach k ord env t \<and> ss_sent t = ss_sent s @ es1 @ es2 @ es3 \<and> ss_relay t = (ss_relay s)\<lparr>rl_srv := x3\<rparr>"
proof -
  let ?s1 = "handler_acts i ac (cs_begin (ss_srv s)) [] H_read s"
  let ?s2 = "handler_acts i ac x1 es1 (H_at (CS_resolving os p2p rm)) ?s1"
  let ?s3 = "handler_acts i ac x2 es2 (H_at (CS_opening l)) ?s2"
  let ?s4 = "handler_acts i ac x3 es3 (H_at ph) ?s3"
  have "stream_reach k ord env ?s1" by (rule reach_step [OF assms(1) ss_begin [OF assms(2,3)]])
  moreover have "stream_step k ord env ?s1 ?s2" by (rule ss_first) (use assms(4) in simp_all)
  ultimately have "stream_reach k ord env ?s2" by (rule reach_step)
  moreover have "stream_step k ord env ?s2 ?s3" by (rule ss_resolve) (use assms(5) in simp_all)
  ultimately have "stream_reach k ord env ?s3" by (rule reach_step)
  moreover have "stream_step k ord env ?s3 ?s4" by (rule ss_incoming) (use assms(6) in simp_all)
  ultimately have "stream_reach k ord env ?s4" by (rule reach_step)
  then show ?thesis by (intro exI [of _ ?s4]) simp
qed

lemma server_evaluate_fresh:
  assumes "sv_cache s = Some m" and "m (caller, target, meth) = None"
  shows "\<exists>s'. server_evaluate env now e caller target meth s = (Engine_Decide e caller target meth now, s') \<and>
    sv_cache s' = Some (Cache_Put (en_cord env) now (caller, target, meth) (Engine_Decide e caller target meth now) m) \<and>
    sv_policy s' = sv_policy s \<and> sv_reg s' = sv_reg s \<and> sv_pairs s' = sv_pairs s"
  using assms by (auto simp: server_evaluate_def evaluate_def Cache_Get_def Let_def)

lemma cs_first_passes:
  assumes "sv_policy s = Some e" and "sv_cache s = Some m" and "m (check_key ac (CallerCheck os)) = None"
    and "res_Decision (decide_key e (check_key ac (CallerCheck os)) now) \<noteq> DecisionDeny"
  shows "\<exists>x p2p rm. cs_first env now ac (Inr (Frame FrameTypeOpenStream (Some (M_OpenStream os)))) s = (x, [], CS_resolving os p2p rm) \<and>
    sv_cache x = Some (Cache_Put (en_cord env) now (check_key ac (CallerCheck os)) (decide_key e (check_key ac (CallerCheck os)) now) m) \<and>
    sv_policy x = sv_policy s \<and> sv_reg x = sv_reg s \<and> sv_pairs x = sv_pairs s"
proof -
  let ?b = "bump (\<lambda>m. m\<lparr>streamOpens := streamOpens m + 1\<rparr>) s"
  obtain s' where "server_evaluate env now e (ac_uri ac) (os_TargetService os) (os_Method os) ?b =
      (Engine_Decide e (ac_uri ac) (os_TargetService os) (os_Method os) now, s')"
    "sv_cache s' = Some (Cache_Put (en_cord env) now (check_key ac (CallerCheck os)) (decide_key e (check_key ac (CallerCheck os)) now) m)"
    "sv_policy s' = sv_policy s" "sv_reg s' = sv_reg s" "sv_pairs s' = sv_pairs s"
    using server_evaluate_fresh [of ?b m "ac_uri ac" "os_TargetService os" "os_Method os" env now e] assms(2,3)
    by (auto simp: check_key_def decide_key_def)
  then show ?thesis
    using assms(1,4) by (simp add: cs_first_def cs_openstream_def cs_caller_checked_def check_key_def decide_key_def Let_def)
qed

lemma cs_resolve_passes:
  assumes "sv_policy s = Some e" and "sv_cache s = Some m" and "m (check_key ac (CalleeCheck os p2p rm prov)) = None"
    and "res_Decision (decide_key e (check_key ac (CalleeCheck os p2p rm prov)) now) \<noteq> DecisionDeny"
    and "Resolve (en_Parse env) (en_ctrl env) (ac_uri ac) (os_TargetService os) (sv_reg s) = (Some prov, None, None)"
  shows "\<exists>x l. cs_resolve env now ac os p2p rm s = (x, [], CS_opening l) \<and> cl_open l = os \<and> cl_prov l = prov \<and> sv_pairs x = sv_pairs s"
proof -
  obtain s' where "server_evaluate env now e (ac_uri prov) (ac_uri ac) (os_Method os) s =
      (Engine_Decide e (ac_uri prov) (ac_uri ac) (os_Method os) now, s')" "sv_pairs s' = sv_pairs s"
    using server_evaluate_fresh [of s m "ac_uri prov" "ac_uri ac" "os_Method os" env now e] assms(2,3) by (auto simp: check_key_def)
  then show ?thesis
    using assms(1,4,5) by (simp add: cs_resolve_def cs_callee_def cs_callee_checked_def check_key_def decide_key_def Let_def)
qed

lemma cs_incoming_opens:
  assumes "sv_pairs s (os_StreamId (cl_open l)) = None"
  shows "\<exists>x es m. cs_incoming ac l Opened s = (x, OpenIncomingStream (cl_prov l) (M_IncomingStream m) # es, CS_waitAck l) \<and>
    is_SourceAgentUri m = ac_uri ac \<and> is_TargetService m = os_TargetService (cl_open l) \<and> is_Method m = os_Method (cl_open l)"
  using assms by (auto simp: cs_incoming_def OpenIncoming_def recordPair_def Let_def)

text \<open>If the engine in force allows both directions, neither decision is cached, the controller names an agent of this
  relay and the stream id is free, then a handler can open the stream.\<close>

lemma allowed_stream_opens:
  assumes "stream_reach k ord env s" and "(ac, certs) \<in> rl_served (ss_relay s)" and "ss_handlers s i = None"
    and "sv_policy (ss_srv s) = Some e" and "sv_cache (ss_srv s) = Some m"
    and "Resolve (en_Parse env) (en_ctrl env) (ac_uri ac) (os_TargetService os) (sv_reg (ss_srv s)) = (Some prov, None, None)"
    and "\<forall>chk \<in> {CallerCheck os, CalleeCheck os P2PModeAllowed RelayModeSplice prov}. m (check_key ac chk) = None \<and>
      res_Decision (decide_key e (check_key ac chk) (ss_now s)) \<noteq> DecisionDeny"
    and "check_key ac (CallerCheck os) \<noteq> check_key ac (CalleeCheck os P2PModeAllowed RelayModeSplice prov)"
    and "sv_pairs (ss_srv s) (os_StreamId os) = None"
  shows "\<exists>t msg. stream_reach k ord env t \<and> OpenIncomingStream prov (M_IncomingStream msg) \<in> set (ss_sent t) \<and>
    is_SourceAgentUri msg = ac_uri ac \<and> is_TargetService msg = os_TargetService os \<and> is_Method msg = os_Method os \<and>
    rl_force (ss_relay t) = rl_force (ss_relay s)"
proof -
  let ?b = "cs_begin (ss_srv s)"
  have b: "sv_policy ?b = Some e" "sv_cache ?b = Some m" "sv_reg ?b = sv_reg (ss_srv s)" "sv_pairs ?b = sv_pairs (ss_srv s)"
    using assms(4,5) by (simp_all add: cs_begin_def)
  have key: "check_key ac (CalleeCheck os p2p rm prov) = check_key ac (CalleeCheck os P2PModeAllowed RelayModeSplice prov)" for p2p rm
    by (simp add: check_key_def)
  obtain x1 p2p rm where f: "cs_first env (ss_now s) ac (Inr (Frame FrameTypeOpenStream (Some (M_OpenStream os)))) ?b = (x1, [], CS_resolving os p2p rm)"
    and c: "sv_cache x1 = Some (Cache_Put (en_cord env) (ss_now s) (check_key ac (CallerCheck os)) (decide_key e (check_key ac (CallerCheck os)) (ss_now s)) m)"
    and x: "sv_policy x1 = Some e" "sv_reg x1 = sv_reg (ss_srv s)" "sv_pairs x1 = sv_pairs (ss_srv s)"
    using cs_first_passes [OF b(1,2), of ac os "ss_now s" env] assms(7) b by auto
  have "the (sv_cache x1) (check_key ac (CalleeCheck os p2p rm prov)) = None"
  proof (rule ccontr)
    assume "the (sv_cache x1) (check_key ac (CalleeCheck os p2p rm prov)) \<noteq> None"
    then obtain ce where "Cache_Put (en_cord env) (ss_now s) (check_key ac (CallerCheck os)) (decide_key e (check_key ac (CallerCheck os)) (ss_now s)) m
        (check_key ac (CalleeCheck os p2p rm prov)) = Some ce" using c by auto
    then show False using Cache_Put_other assms(7,8) key by (metis insertI1 insertI2 option.distinct(1))
  qed
  then obtain x2 l where r: "cs_resolve env (ss_now s) ac os p2p rm x1 = (x2, [], CS_opening l)" "cl_open l = os" "cl_prov l = prov"
    "sv_pairs x2 = sv_pairs (ss_srv s)"
    using cs_resolve_passes [OF x(1) c, of ac os p2p rm prov "ss_now s" env] c assms(6,7) x key [of p2p rm] by auto
  obtain x3 es msg where o: "cs_incoming ac l Opened x2 = (x3, OpenIncomingStream prov (M_IncomingStream msg) # es, CS_waitAck l)"
    "is_SourceAgentUri msg = ac_uri ac" "is_TargetService msg = os_TargetService os" "is_Method msg = os_Method os"
    using cs_incoming_opens [of x2 l ac] r assms(9) by auto
  from stream_run_opens [OF assms(1-3) f r(1) o(1)] show ?thesis using o by fastforce
qed

end
