(* ===== verification/RelayDemo.thy ===== *)
theory RelayDemo
  imports RelayStreams PlaneProps
begin

text \<open>
  A run of the relay in which an agent binds its UDP source: it connects, a pair of FORWARD_RESUME halves
  gets two allocations, the agent registers a nonce for its own over its control stream, and a
  punch with that nonce arrives. In a second run two agents connect, the watcher adds a rule, and a stream
  between them is opened. The properties of the relay are instantiated on these runs.
\<close>

definition rd_env :: edge_env where
  "rd_env = demo_env\<lparr>en_cord := key_order\<rparr>"

text \<open>The iteration order only matters to a cache that is full; a run never evaluates it.\<close>

lemma key_order_unevaluated [code]: "key_order m = key_order m"
  by (rule refl)

definition rd0 :: relay where
  "rd0 = \<lparr>rl_now = 0, rl_srv = SetSuccessors [''s:1''] (edge_New (Registry_New ''r'' ''us'') (Some NewEngine) (Some NewCache)
      (Some NewEmitter) None (Some (SetIdleTTL 0 (SetPendingTTL 0 NewPlane))) True),
     rl_pending = [], rl_inSnapshot = False, rl_served = {}, rl_hist = [], rl_flight = Map.empty,
     rl_force = set [(0, NewEngine)]\<rparr>"

definition rd1 :: relay where
  "rd1 = rd0\<lparr>rl_srv := fst (serveConn_accept rd_env 1 demo_conn_io (rl_srv rd0)), rl_served := {(demo_c, [[''a'']])}\<rparr>"

definition rd_matcher :: forwardMatcher where
  "rd_matcher = \<lparr>fm_pending = Map.empty,
     fm_half = (\<lambda>r. if r = 0 then new_forward_half 7 ''a'' 1 0 0 else new_forward_half 7 ''b'' 2 0 0)\<rparr>"

definition rd2 :: relay where
  "rd2 = rd1\<lparr>rl_srv := (rl_srv rd1)\<lparr>sv_resumer := newResumeMatcher, sv_forwardResumer := rd_matcher\<rparr>\<rparr>"

definition rd3 :: relay where
  "rd3 = rd2\<lparr>rl_srv := fst (the (driveForwardResume_end rd_env 0 0 0 (Some 1) (rl_srv rd2)))\<rparr>"

definition rd_register :: frame where
  "rd_register = Frame FrameTypeForwardRegister (Some (M_ForwardRegister 1 demo_nonce))"

definition rd4 :: relay where
  "rd4 = rd3\<lparr>rl_srv := fst (controlLoop_frame rd_env 0 0 demo_c rd_register (rl_srv rd3)),
     rl_hist := [Armed 0 1 ''a'' demo_nonce]\<rparr>"

definition rd5 :: relay where
  "rd5 = rd4\<lparr>rl_srv := (rl_srv rd4)\<lparr>sv_forward := Some (fst (handle_packet 0 demo_src demo_punch (rl_plane rd4)))\<rparr>,
     rl_hist := [Punched 0 1 demo_src demo_nonce, Armed 0 1 ''a'' demo_nonce]\<rparr>"

abbreviation rd_reach :: "relay \<Rightarrow> bool" where
  "rd_reach \<equiv> relay_reach wire0 key_order rd_env"

lemma rd0_reach: "rd_reach rd0"
  by (rule reach_init) (simp add: relay_init_def rd0_def, blast)

lemma rd_simps:
  "rl_now rd1 = 0" "rl_now rd2 = 0" "rl_now rd3 = 0" "rl_now rd4 = 0" "rl_hist rd3 = []"
  "rl_served rd3 = {(demo_c, [[''a'']])}"
  by (simp_all add: rd0_def rd1_def rd2_def rd3_def rd4_def)

lemma rd1_step: "relay_step wire0 key_order rd_env rd0 rd1"
proof -
  have "snd (snd (serveConn_accept rd_env 1 demo_conn_io (rl_srv rd0))) = SC_serving demo_c"
    by (simp add: serveConn_accept_def demo_conn_io_def uriFromConn_def rd_env_def demo_env_def demo_c_def Let_def)
  then obtain es where "serveConn_accept rd_env 1 demo_conn_io (rl_srv rd0) =
      (fst (serveConn_accept rd_env 1 demo_conn_io (rl_srv rd0)), es, SC_serving demo_c)" by (metis prod.collapse)
  from rl_accept [where s = rd0, OF this] show ?thesis by (simp add: rd1_def demo_conn_io_def rd0_def)
qed

lemma rd1_reach: "rd_reach rd1"
  by (rule reach_step [OF rd0_reach rd1_step])

lemma rd2_reach: "rd_reach rd2"
proof (rule reach_step [OF rd1_reach])
  show "relay_step wire0 key_order rd_env rd1 rd2" unfolding rd2_def by (rule rl_handler) (rule hd_matchers)
qed

lemma rd2_ids: "ids_left (rl_srv rd2)"
proof -
  have "map_option nextID (sv_forward (rl_srv rd2)) = Some 0" by code_simp
  then show ?thesis by (auto simp: ids_left_def)
qed

lemma rd3_reach: "rd_reach rd3"
proof (rule reach_step [OF rd2_reach])
  have "driveForwardResume_end rd_env 0 0 0 (Some 1) (rl_srv rd2) \<noteq> None"
  proof -
    have "Option.is_none (driveForwardResume_end rd_env 0 0 0 (Some 1) (rl_srv rd2)) = False" by code_simp
    then show ?thesis by (auto simp: Option.is_none_def)
  qed
  then obtain srv es where d: "driveForwardResume_end rd_env (rl_now rd2) (rl_now rd2) 0 (Some 1) (rl_srv rd2) = Some (srv, es)"
    by (auto simp: rd_simps)
  show "relay_step wire0 key_order rd_env rd2 rd3"
    unfolding rd3_def using hd_drive [OF rd2_ids d] d by (intro rl_handler) (simp add: rd_simps)
qed

lemma rd4_reach: "rd_reach rd4"
proof (rule reach_step [OF rd3_reach])
  obtain es where c: "controlLoop_frame rd_env 0 0 demo_c rd_register (rl_srv rd3) =
      (fst (controlLoop_frame rd_env 0 0 demo_c rd_register (rl_srv rd3)), es)" by (metis prod.collapse)
  have "armed_by 0 demo_c rd_register (rl_srv rd3) = [Armed 0 1 ''a'' demo_nonce]" by code_simp
  then show "relay_step wire0 key_order rd_env rd3 rd4"
    using rl_ctrl [of demo_c "[[''a'']]" rd3 rd_env rd_register _ es wire0 key_order] c
    by (simp add: rd_simps rd4_def)
qed

lemma rd5_reach: "rd_reach rd5"
proof (rule reach_step [OF rd4_reach])
  have v: "IsValid demo_src" by (simp add: IsValid_def demo_src_def)
  have p: "punch_of demo_punch = Some (1, demo_nonce)" by code_simp
  have "handle_packet (rl_now rd4) demo_src demo_punch (rl_plane rd4) =
      (fst (handle_packet 0 demo_src demo_punch (rl_plane rd4)), None)"
    by (simp add: handle_packet_register [OF p] rd_simps)
  from rl_packet [OF v this] show "relay_step wire0 key_order rd_env rd4 rd5"
    by (simp add: rd5_def p rd_simps) (simp add: rd4_def rd_simps)
qed

lemma rd5_entry: "byAlloc (rl_plane rd5) 1 = Some \<lparr>ae_uri = ''a'', ae_src = demo_src, ae_lastSeen = 0\<rparr>"
  by code_simp

section \<open>A stream\<close>

definition rs_conn_io :: conn_io where
  "rs_conn_io = \<lparr>sc_certs = [[''b'']], sc_ctrl = True, sc_hello = Inr (Frame FrameTypeHello (Some (M_Hello ''b''))), sc_ackOk = True\<rparr>"

definition rs2 :: relay where
  "rs2 = rd1\<lparr>rl_srv := fst (serveConn_accept rd_env 2 rs_conn_io (rl_srv rd1)), rl_served := insert (demo_p, [[''b'']]) (rl_served rd1)\<rparr>"

definition rs3 :: relay where
  "rs3 = set_watcher (watch_apply wire0 key_order (POLICY_KIND_ADDED (Some race_rule)) (watcher_of rs2))
     (rs2\<lparr>rl_force := insert (rl_now rs2, w_engine (watch_apply wire0 key_order (POLICY_KIND_ADDED (Some race_rule)) (watcher_of rs2))) (rl_force rs2)\<rparr>)"

definition rs_sys :: "relay \<Rightarrow> stream_sys" where
  "rs_sys r = \<lparr>ss_relay = r, ss_handlers = Map.empty, ss_sent = []\<rparr>"

abbreviation rs_reach :: "stream_sys \<Rightarrow> bool" where
  "rs_reach \<equiv> stream_reach wire0 key_order rd_env"

lemma rs_sys_other:
  assumes "rs_reach (rs_sys r)" and "relay_step wire0 key_order rd_env r r'" and "rl_flight r' = rl_flight r"
  shows "rs_reach (rs_sys r')"
  using reach_step [OF assms(1) ss_other [of wire0 key_order rd_env "rs_sys r" r']] assms(2,3) by (simp add: rs_sys_def)

lemma rs2_step: "relay_step wire0 key_order rd_env rd1 rs2"
proof -
  have "snd (snd (serveConn_accept rd_env 2 rs_conn_io (rl_srv rd1))) = SC_serving demo_p"
    by (simp add: serveConn_accept_def rs_conn_io_def uriFromConn_def rd_env_def demo_env_def demo_p_def Let_def)
  then obtain es where "serveConn_accept rd_env 2 rs_conn_io (rl_srv rd1) =
      (fst (serveConn_accept rd_env 2 rs_conn_io (rl_srv rd1)), es, SC_serving demo_p)" by (metis prod.collapse)
  from rl_accept [where s = rd1, OF this] show ?thesis by (simp add: rs2_def rs_conn_io_def)
qed

lemma rs3_reach: "rs_reach (rs_sys rs3)"
proof -
  have "rs_reach (rs_sys rd0)" by (rule reach_init) (simp add: stream_init_def rs_sys_def relay_init_def rd0_def, blast)
  then have "rs_reach (rs_sys rd1)" by (rule rs_sys_other [OF _ rd1_step]) (simp add: rd1_def)
  then have "rs_reach (rs_sys rs2)" by (rule rs_sys_other [OF _ rs2_step]) (simp add: rs2_def)
  moreover have "relay_step wire0 key_order rd_env rs2 rs3" unfolding rs3_def by (rule rl_apply)
  ultimately show ?thesis by (rule rs_sys_other) (simp add: rs3_def set_watcher_def)
qed

lemma rs2_srv:
  "rl_srv rs2 = trackAgent demo_p (trackAgent demo_c ((rl_srv rd0)\<lparr>sv_reg := RegisterAgent ''b'' demo_p (RegisterAgent ''a'' demo_c (sv_reg (rl_srv rd0)))\<rparr>))"
  by (simp add: rs2_def rd1_def serveConn_accept_def rs_conn_io_def demo_conn_io_def uriFromConn_def rd_env_def demo_env_def demo_p_def demo_c_def
      trackAgent_def Let_def)

definition rs_engine :: Engine where
  "rs_engine = \<lparr>eng_cur = Some (BuildSnapshot [FromPB wire0 race_rule]), eng_rules = [''r'' \<mapsto> FromPB wire0 race_rule]\<rparr>"

lemma rs3_facts:
  "sv_policy (rl_srv rs3) = Some rs_engine" "sv_cache (rl_srv rs3) = Some Map.empty" "sv_pairs (rl_srv rs3) = Map.empty"
  "sv_reg (rl_srv rs3) = RegisterAgent ''b'' demo_p (RegisterAgent ''a'' demo_c (Registry_New ''r'' ''us''))"
  "rl_served rs3 = {(demo_c, [[''a'']]), (demo_p, [[''b'']])}" "rl_now rs3 = 0"
  by (simp_all add: rs3_def set_watcher_def watcher_of_def rs2_srv rs_engine_def trackAgent_def rd0_def SetSuccessors_def edge_New_def NewEngine_def
      Engine_Add_def Engine_Apply_def Let_def insert_rule_def key_order_def range_values_def FromPB_def race_rule_def NewCache_def)
    (auto simp: rs2_def rd1_def rd0_def)

lemma rs_engine_allows:
  "res_Decision (Engine_Decide rs_engine ''a'' ''svc'' m now) \<noteq> DecisionDeny" "res_Decision (Engine_Decide rs_engine ''b'' ''a'' m now) \<noteq> DecisionDeny"
proof -
  have "matchGlob ''*'' ''a''" "matchGlob ''*'' ''b''" "matchGlob ''*'' ''svc''" by code_simp+
  moreover have "rule_Decision (FromPB wire0 race_rule) = DecisionAllow" by code_simp
  ultimately show "res_Decision (Engine_Decide rs_engine ''a'' ''svc'' m now) \<noteq> DecisionDeny" "res_Decision (Engine_Decide rs_engine ''b'' ''a'' m now) \<noteq> DecisionDeny"
    by (simp_all add: rs_engine_def Engine_Decide_def Snapshot_Decide_def BuildSnapshot_def snapshot_insert_def FromPB_def race_rule_def rule_result_def)
qed

lemma rs_opened:
  "\<exists>t msg. rs_reach t \<and> OpenIncomingStream demo_p (M_IncomingStream msg) \<in> set (ss_sent t) \<and>
    is_SourceAgentUri msg = ''a'' \<and> is_TargetService msg = ''svc'' \<and> is_Method msg = ''m'' \<and> rl_force (ss_relay t) = rl_force rs3"
proof -
  have "Resolve (en_Parse rd_env) (en_ctrl rd_env) (ac_uri demo_c) (os_TargetService demo_open) (sv_reg (ss_srv (rs_sys rs3))) = (Some demo_p, None, None)"
    by (simp add: rs_sys_def rs3_facts rd_env_def demo_env_def demo_c_def demo_open_def Resolve_def tenantOf_def RegisterAgent_def Registry_New_def Let_def)
  from allowed_stream_opens [OF rs3_reach _ _ _ _ this, of "[[''a'']]" 0 rs_engine Map.empty] show ?thesis
    by (simp add: rs_sys_def rs3_facts decide_key_def rs_engine_allows check_key_def demo_c_def demo_p_def demo_open_def)
qed

end
