(* ===== verification/Drain.thy ===== *)
theory Drain
  imports EdgeConn GoStrings "HOL-Library.Char_ord" "HOL-Library.List_Lexorder" "HOL-Library.Product_Lexorder"
begin

text \<open>
  Planned relocation (\<open>Server.Drain\<close> of \<open>pkg/edge/edge.go\<close>, \<open>DrainHandler\<close> of \<open>pkg/edge/drain.go\<close> and
  \<open>splitEndpoints\<close> of \<open>cmd/outrelay-relay/main.go\<close>): GOAWAY to every agent, a polling wait and the
  forced close of what remains. \<open>time.ParseDuration\<close>, whose fractions go through floating point, is
  a parameter of the HTTP handler.
\<close>

section \<open>Drain\<close>

text \<open>\<open>time.Duration.Milliseconds\<close> divides towards zero.\<close>

definition Milliseconds :: "duration \<Rightarrow> int" where
  "Milliseconds d = sgn d * (\<bar>d\<bar> div Millisecond)"

definition MaxUint32 :: int where
  "MaxUint32 = 2 ^ 32 - 1"

text \<open>\<open>uint32(min(deadline.Milliseconds(), math.MaxUint32))\<close>: the conversion keeps the low 32 bits.\<close>

definition deadline_ms :: "duration \<Rightarrow> u32" where
  "deadline_ms d = word_of_int (min (Milliseconds d) MaxUint32)"

definition drain_targets :: "endpoint list \<Rightarrow> Server \<Rightarrow> endpoint list" where
  "drain_targets targets s = (if targets = [] then sv_successors s else targets)"

text \<open>The GOAWAY round; \<open>ok ac\<close> is whether the write to \<open>ac\<close> succeeds.\<close>

definition drain_goaway :: "(AgentConn \<Rightarrow> bool) \<Rightarrow> message \<Rightarrow> AgentConn list \<Rightarrow> effect list" where
  "drain_goaway ok msg acs =
     concat (map (\<lambda>ac. WriteCtrl ac FrameTypeGoaway msg # (if ok ac then [] else [CloseConn (ac_id ac)])) acs)"

text \<open>
  The wait. In each round the other goroutines change the server, then the live agents are read, and
  if there are any the select takes one of its three events. No round left means the loop still
  waits (\<open>None\<close>).
\<close>

datatype drain_event = DrCtxDone | DrTimeout | DrPoll

datatype drain_outcome = DrainComplete | DrainCancelled | DrainForced

record drain_round =
  dr_others :: "Server \<Rightarrow> Server"
  dr_event :: drain_event

fun drain_loop :: "(AgentConn set \<Rightarrow> AgentConn list) \<Rightarrow> drain_round list \<Rightarrow> Server \<Rightarrow> (Server \<times> effect list \<times> drain_outcome) option" where
  "drain_loop ord [] s = None"
| "drain_loop ord (r # rs) s =
     (let s1 = dr_others r s; remaining = liveAgents ord s1 in
      if length remaining = 0 then Some (s1, [], DrainComplete)
      else case dr_event r of
        DrCtxDone \<Rightarrow> Some (s1, [], DrainCancelled)
      | DrTimeout \<Rightarrow> Some (s1, map (\<lambda>ac. CloseConn (ac_id ac)) remaining, DrainForced)
      | DrPoll \<Rightarrow> drain_loop ord rs s1)"

definition Drain :: "(AgentConn set \<Rightarrow> AgentConn list) \<Rightarrow> (AgentConn \<Rightarrow> bool) \<Rightarrow> drain_round list \<Rightarrow>
    endpoint list \<Rightarrow> string \<Rightarrow> duration \<Rightarrow> Server \<Rightarrow> (Server \<times> effect list \<times> drain_outcome) option" where
  "Drain ord ok rounds targets reason deadline s =
     (let targets' = drain_targets targets s;
          agents = liveAgents ord s;
          goaway = M_Goaway targets' reason (deadline_ms deadline)
      in map_option (\<lambda>(s', es, out). (s', drain_goaway ok goaway agents @ es, out)) (drain_loop ord rounds s))"

section \<open>The HTTP entry point\<close>

record DrainDefaults =
  dd_Targets :: "endpoint list"
  dd_Reason :: string
  dd_Deadline :: duration

text \<open>\<open>q.Get\<close> gives the empty string for a missing parameter.\<close>

record http_request =
  rq_Method :: string
  rq_Get :: "string \<Rightarrow> string"

definition splitEndpoints :: "string \<Rightarrow> endpoint list" where
  "splitEndpoints raw = filter (\<lambda>ep. ep \<noteq> []) (map strings_TrimSpace (strings_Split CHR '','' raw))"

text \<open>The status code and the call of \<open>drain\<close>, if any.\<close>

definition DrainHandler :: "(string \<Rightarrow> duration option) \<Rightarrow> DrainDefaults \<Rightarrow> http_request \<Rightarrow>
    nat \<times> (endpoint list \<times> string \<times> duration) option" where
  "DrainHandler ParseDuration defaults r =
     (if rq_Method r \<noteq> ''POST'' then (405, None)
      else
        let raw = strings_TrimSpace (rq_Get r ''to'');
            targets = (if raw \<noteq> [] then filter (\<lambda>ep. ep \<noteq> []) (map strings_TrimSpace (strings_Split CHR '','' raw))
                       else dd_Targets defaults);
            reason = (if rq_Get r ''reason'' \<noteq> [] then rq_Get r ''reason'' else dd_Reason defaults);
            v = rq_Get r ''deadline''
        in if v \<noteq> [] then
             (case ParseDuration v of
                None \<Rightarrow> (400, None)
              | Some d \<Rightarrow> if d \<le> 0 then (400, None) else (202, Some (targets, reason, d)))
           else (202, Some (targets, reason, dd_Deadline defaults)))"

section \<open>Lemmas\<close>

lemma drain_goaway_set:
  "WriteCtrl ac FrameTypeGoaway msg \<in> set (drain_goaway ok msg acs) \<longleftrightarrow> ac \<in> set acs"
  "CloseConn i \<in> set (drain_goaway ok msg acs) \<longleftrightarrow> (\<exists>ac \<in> set acs. ac_id ac = i \<and> \<not> ok ac)"
  by (auto simp: drain_goaway_def)

lemma set_liveAgents: "agents_order ord \<Longrightarrow> finite (sv_agents s) \<Longrightarrow> set (liveAgents ord s) = sv_agents s"
  by (simp add: agents_order_def liveAgents_def)

text \<open>Interference that keeps the set of agents finite, as any sequence of connects and disconnects does.\<close>

definition finite_rounds :: "drain_round list \<Rightarrow> bool" where
  "finite_rounds rs \<longleftrightarrow> (\<forall>r \<in> set rs. \<forall>x. finite (sv_agents x) \<longrightarrow> finite (sv_agents (dr_others r x)))"

lemma drain_loop_ends:
  assumes "agents_order ord" and "finite_rounds rs" and "finite (sv_agents s)" and "DrTimeout \<in> dr_event ` set rs"
  shows "\<exists>s' es out. drain_loop ord rs s = Some (s', es, out) \<and>
    (case out of DrainComplete \<Rightarrow> sv_agents s' = {} | DrainCancelled \<Rightarrow> DrCtxDone \<in> dr_event ` set rs
     | DrainForced \<Rightarrow> set es = (\<lambda>ac. CloseConn (ac_id ac)) ` sv_agents s')"
  using assms(2-4)
proof (induction rs arbitrary: s)
  case Nil
  then show ?case by simp
next
  case (Cons r rs)
  let ?s1 = "dr_others r s"
  have f: "finite (sv_agents ?s1)" "finite_rounds rs" using Cons.prems(1,2) by (auto simp: finite_rounds_def)
  note live = set_liveAgents [OF assms(1) f(1)]
  show ?case
  proof (cases "liveAgents ord ?s1 = [] \<or> dr_event r \<noteq> DrPoll")
    case True
    then show ?thesis using live by (cases "dr_event r") (auto simp: Let_def)
  next
    case False
    then have "DrTimeout \<in> dr_event ` set rs" using Cons.prems(3) by auto
    from Cons.IH [OF f(2) f(1) this] False show ?thesis
      by (auto simp: Let_def split: drain_outcome.splits)
  qed
qed

lemma deadline_ms_exact:
  assumes "0 \<le> d"
  shows "unat (deadline_ms d) = nat (min (d div Millisecond) MaxUint32)"
proof -
  have "Milliseconds d = d div Millisecond" using assms by (cases "d = 0") (auto simp: Milliseconds_def)
  moreover have "0 \<le> d div Millisecond" using assms by (simp add: pos_imp_zdiv_nonneg_iff)
  ultimately show ?thesis
    by (simp add: deadline_ms_def MaxUint32_def unat_eq_nat_uint uint_word_of_int min_def)
qed

text \<open>A negative deadline, which the command line accepts, is announced as one of about 49 days, while the
  timer of the wait fires at once.\<close>

lemma deadline_ms_negative: "unat (deadline_ms (- Second)) = 4294966296"
  by (simp add: deadline_ms_def Milliseconds_def MaxUint32_def Second_def Millisecond_def)

text \<open>White space around a list of endpoints does not matter, so trimming it first is redundant.\<close>

lemma is_space_comma [simp]: "\<not> is_space CHR '',''"
  by (simp add: is_space_def)

lemma TrimSpace_Cons: "is_space x \<Longrightarrow> strings_TrimSpace (x # p) = strings_TrimSpace p"
  by (simp add: strings_TrimSpace_def)

lemma TrimSpace_snoc:
  assumes "is_space x"
  shows "strings_TrimSpace (p @ [x]) = strings_TrimSpace p"
proof (cases "\<forall>c \<in> set p. is_space c")
  case True
  then have "dropWhile is_space p = []" "dropWhile is_space (p @ [x]) = []" using assms by simp_all
  then show ?thesis by (simp only: strings_TrimSpace_def)
next
  case False
  then obtain c where "c \<in> set p" "\<not> is_space c" by blast
  then show ?thesis using assms by (simp add: strings_TrimSpace_def dropWhile_append1)
qed

lemma splitEndpoints_Cons: "is_space x \<Longrightarrow> splitEndpoints (x # s) = splitEndpoints s"
  by (cases "strings_Split CHR '','' s") (auto simp: splitEndpoints_def TrimSpace_Cons)

lemma Split_snoc:
  "x \<noteq> c \<Longrightarrow> strings_Split c (s @ [x]) = butlast (strings_Split c s) @ [last (strings_Split c s) @ [x]]"
proof (induction s)
  case Nil
  then show ?case by simp
next
  case (Cons y s)
  then show ?case by (cases "strings_Split c s") (auto split: list.splits)
qed

lemma splitEndpoints_snoc:
  assumes "is_space x"
  shows "splitEndpoints (s @ [x]) = splitEndpoints s"
proof -
  have x: "x \<noteq> CHR '',''" using assms by auto
  obtain ps p where "strings_Split CHR '','' s = ps @ [p]" by (cases "strings_Split CHR '','' s" rule: rev_cases) auto
  then show ?thesis using assms by (simp add: splitEndpoints_def Split_snoc [OF x] TrimSpace_snoc)
qed

lemma splitEndpoints_dropWhile: "splitEndpoints (dropWhile is_space s) = splitEndpoints s"
  by (induction s) (simp_all add: splitEndpoints_Cons)

lemma splitEndpoints_TrimSpace: "splitEndpoints (strings_TrimSpace s) = splitEndpoints s"
proof -
  have "splitEndpoints (rev (dropWhile is_space (rev t))) = splitEndpoints t" for t
    by (induction t rule: rev_induct) (simp_all add: splitEndpoints_snoc)
  then show ?thesis by (simp add: strings_TrimSpace_def splitEndpoints_dropWhile)
qed

lemma Split_Join_Cons: "c \<notin> set w \<Longrightarrow> strings_Split c (w @ c # s) = w # strings_Split c s"
  by (induction w) auto

lemma splitEndpoints_Join:
  assumes "\<forall>ep \<in> set eps. ep \<noteq> [] \<and> CHR '','' \<notin> set ep \<and> strings_TrimSpace ep = ep"
  shows "splitEndpoints (strings_Join CHR '','' eps) = eps"
  using assms
proof (induction eps)
  case Nil
  then show ?case by (simp add: splitEndpoints_def strings_TrimSpace_def)
next
  case (Cons ep eps)
  then show ?case
    by (cases eps) (auto simp: splitEndpoints_def Split_Join_Cons strings_Split_notin)
qed

section \<open>Properties\<close>


definition agents_by_id :: "AgentConn set \<Rightarrow> AgentConn list" where
  "agents_by_id S = map (\<lambda>(i, u). \<lparr>ac_id = i, ac_uri = u\<rparr>) (sorted_list_of_set ((\<lambda>ac. (ac_id ac, ac_uri ac)) ` S))"

lemma agents_by_id_order: "agents_order agents_by_id"
proof -
  have "inj_on (\<lambda>(i, u). \<lparr>ac_id = i, ac_uri = u\<rparr>) A" for A by (auto simp: inj_on_def)
  then have "distinct (agents_by_id S)" if "finite S" for S
    using that by (simp add: agents_by_id_def distinct_map)
  moreover have "set (agents_by_id S) = S" if "finite S" for S
  proof -
    have "(\<lambda>x. \<lparr>ac_id = ac_id x, ac_uri = ac_uri x\<rparr>) ` S = id ` S"
    proof (rule image_cong [OF refl])
      show "\<lparr>ac_id = ac_id x, ac_uri = ac_uri x\<rparr> = id x" for x :: AgentConn by (cases x) simp
    qed
    then show ?thesis using that by (simp only: agents_by_id_def image_id) (simp add: image_image)
  qed
  ultimately show ?thesis by (simp add: agents_order_def)
qed


text \<open>The operator's list of targets reads the same at both entry points. The targets an accepted
  request names in \<open>to\<close> are what the command line would make of the same text, and any list of
  non-empty, trimmed, comma-free endpoints is read back from its comma-separated form.\<close>

lemma drain_targets_agree:
  assumes "DrainHandler ParseDuration defaults r = (202, Some (targets, reason, deadline))"
    and "strings_TrimSpace (rq_Get r ''to'') \<noteq> []"
  shows "targets = splitEndpoints (rq_Get r ''to'') \<and>
    (\<forall>eps. (\<forall>ep \<in> set eps. ep \<noteq> [] \<and> CHR '','' \<notin> set ep \<and> strings_TrimSpace ep = ep) \<longrightarrow>
       rq_Get r ''to'' = strings_Join CHR '','' eps \<longrightarrow> targets = eps)"
proof -
  have "targets = splitEndpoints (strings_TrimSpace (rq_Get r ''to''))"
    using assms by (auto simp: DrainHandler_def splitEndpoints_def Let_def split: if_splits option.splits)
  then show ?thesis by (simp add: splitEndpoints_TrimSpace splitEndpoints_Join)
qed

lemma drain_targets_agree_witness:
  "splitEndpoints ''a:1, b:2'' = [''a:1'', ''b:2''] \<and>
   snd (DrainHandler (\<lambda>_. None) \<lparr>dd_Targets = [], dd_Reason = ''drain'', dd_Deadline = Second\<rparr>
      \<lparr>rq_Method = ''POST'', rq_Get = (\<lambda>k. if k = ''to'' then ''a:1, b:2'' else [])\<rparr>) =
     Some (splitEndpoints ''a:1, b:2'', ''drain'', Second)"
proof -
  let ?d = "\<lparr>dd_Targets = [], dd_Reason = ''drain'', dd_Deadline = Second\<rparr>"
  let ?r = "\<lparr>rq_Method = ''POST'', rq_Get = (\<lambda>k. if k = ''to'' then ''a:1, b:2'' else [])\<rparr>"
  have "DrainHandler (\<lambda>_. None) ?d ?r = (202, Some ([''a:1'', ''b:2''], ''drain'', Second))"
    by (simp add: DrainHandler_def strings_TrimSpace_def is_space_def)
  moreover have "strings_TrimSpace (rq_Get ?r ''to'') \<noteq> []" by (simp add: strings_TrimSpace_def is_space_def)
  ultimately show ?thesis using drain_targets_agree [of "\<lambda>_. None" ?d ?r] by auto
qed

end
