(* ===== verification/Fleet.thy ===== *)
theory Fleet
  imports Prelude "HOL-Library.Char_ord" "HOL-Library.List_Lexorder" "HOL-Library.Multiset"
begin

text \<open>
  The successor list and the heartbeat (\<open>pkg/registry/fleet.go\<close>). Ids are ordered bytewise, as Go
  compares strings. \<open>slices.SortFunc\<close> sorts but is not stable, so it is a parameter \<open>SortFunc\<close> of which
  only \<open>sorts_by_id\<close> is used.
\<close>

section \<open>The code\<close>

record RelayInstance =
  ri_Id :: string
  ri_Region :: string
  ri_Endpoint :: endpoint

type_synonym sort_func = "RelayInstance list \<Rightarrow> RelayInstance list"

definition sorts_by_id :: "sort_func \<Rightarrow> bool" where
  "sorts_by_id f \<longleftrightarrow> (\<forall>xs. mset (f xs) = mset xs \<and> sorted (map ri_Id (f xs)))"

definition DefaultHeartbeatPeriod :: duration where
  "DefaultHeartbeatPeriod = 30 * Second"

definition Successors :: "sort_func \<Rightarrow> string \<Rightarrow> string \<Rightarrow> RelayInstance list \<Rightarrow> endpoint list" where
  "Successors SortFunc selfID region fleet =
     (let kept = [r \<leftarrow> fleet. \<not> (ri_Id r = selfID \<or> ri_Endpoint r = [])];
          same = [r \<leftarrow> kept. ri_Region r = region];
          other = [r \<leftarrow> kept. ri_Region r \<noteq> region]
      in map ri_Endpoint (SortFunc same) @ map ri_Endpoint (SortFunc other))"

text \<open>A subscriber of \<open>OnSuccessors\<close> is a name; \<open>beat\<close> returns the calls it makes.\<close>

record Heartbeat =
  hb_id :: string
  hb_region :: string
  hb_endpoint :: endpoint
  hb_period :: duration
  hb_last :: "endpoint list"
  hb_subs :: "nat list"

definition NewHeartbeat :: "string \<Rightarrow> string \<Rightarrow> endpoint \<Rightarrow> duration \<Rightarrow> Heartbeat" where
  "NewHeartbeat i region ep period = \<lparr>hb_id = i, hb_region = region, hb_endpoint = ep,
     hb_period = (if period \<le> 0 then DefaultHeartbeatPeriod else period), hb_last = [], hb_subs = []\<rparr>"

definition OnSuccessors :: "nat \<Rightarrow> Heartbeat \<Rightarrow> Heartbeat" where
  "OnSuccessors fn h = h\<lparr>hb_subs := hb_subs h @ [fn]\<rparr>"

definition beat :: "sort_func \<Rightarrow> string + RelayInstance list \<Rightarrow> Heartbeat \<Rightarrow> Heartbeat \<times> (nat \<times> endpoint list) list" where
  "beat SortFunc resp h = (case resp of
     Inl err \<Rightarrow> (h, [])
   | Inr relays \<Rightarrow>
       let next = Successors SortFunc (hb_id h) (hb_region h) relays in
       if next = hb_last h then (h, [])
       else (h\<lparr>hb_last := next\<rparr>, map (\<lambda>fn. (fn, next)) (hb_subs h)))"

section \<open>The successor list\<close>

lemma sorts_by_id_sort_key: "sorts_by_id (sort_key ri_Id)"
  by (simp add: sorts_by_id_def)

text \<open>Where ids are distinct every sorting function gives the same list.\<close>

lemma sorted_by_id_unique:
  assumes "mset xs = mset ys" and "distinct (map ri_Id xs)" and "sorted (map ri_Id xs)" and "sorted (map ri_Id ys)"
  shows "xs = ys"
proof -
  have "mset (map ri_Id xs) = mset (map ri_Id ys)" using assms(1) by simp
  then have ids: "map ri_Id xs = map ri_Id ys"
    using assms(3,4) by (metis properties_for_sort sorted_sort_id)
  have "inj_on ri_Id (set xs \<union> set ys)"
    using assms(1,2) by (simp add: distinct_map mset_eq_setD [OF assms(1)])
  with ids show ?thesis by (rule map_inj_on)
qed

lemma SortFunc_unique:
  assumes "sorts_by_id f" and "sorts_by_id g" and "mset xs = mset ys" and "distinct (map ri_Id xs)"
  shows "f xs = g ys"
proof (rule sorted_by_id_unique)
  show "mset (f xs) = mset (g ys)" using assms(1-3) by (simp add: sorts_by_id_def)
  have "mset (f xs) = mset xs" using assms(1) by (simp add: sorts_by_id_def)
  then have "mset (map ri_Id (f xs)) = mset (map ri_Id xs)" by simp
  then show "distinct (map ri_Id (f xs))" using assms(4) mset_eq_imp_distinct_iff by blast
qed (use assms(1,2) in \<open>simp_all add: sorts_by_id_def\<close>)

lemma set_Successors:
  assumes "sorts_by_id f"
  shows "set (Successors f selfID region fleet) =
    ri_Endpoint ` {r \<in> set fleet. ri_Id r \<noteq> selfID \<and> ri_Endpoint r \<noteq> []}"
proof -
  have "set (f xs) = set xs" for xs using assms by (metis sorts_by_id_def mset_eq_setD)
  then show ?thesis by (auto simp: Successors_def Let_def)
qed

text \<open>The successor list is a function of the fleet alone. For the same fleet in any order, with
  distinct relay ids, and whatever sorting routine is used, the list is the same, so both halves of
  a stream are given the same fallback order.\<close>

lemma Successors_deterministic:
  assumes "sorts_by_id f" and "sorts_by_id g" and "mset fleet = mset fleet'" and "distinct (map ri_Id fleet)"
  shows "Successors f selfID region fleet = Successors g selfID region fleet'"
proof -
  have m: "mset (filter P fleet) = mset (filter P fleet')" for P using assms(3) by simp
  have d: "distinct (map ri_Id (filter P fleet))" for P using assms(4) by (rule distinct_map_filter)
  show ?thesis
    unfolding Successors_def Let_def filter_filter
    by (intro arg_cong2 [where f = append] arg_cong [where f = "map ri_Endpoint"]
        SortFunc_unique [OF assms(1,2) m d])
qed

definition fleet3 :: "RelayInstance list" where
  "fleet3 = [\<lparr>ri_Id = ''c'', ri_Region = ''eu'', ri_Endpoint = ''c:1''\<rparr>,
     \<lparr>ri_Id = ''b'', ri_Region = ''us'', ri_Endpoint = ''b:1''\<rparr>, \<lparr>ri_Id = ''a'', ri_Region = ''us'', ri_Endpoint = ''a:1''\<rparr>]"

lemma Successors_deterministic_witness:
  "Successors (sort_key ri_Id) ''z'' ''us'' fleet3 = Successors (sort_key ri_Id) ''z'' ''us'' (rev fleet3) \<and>
    distinct (map ri_Id fleet3)"
proof -
  have d: "distinct (map ri_Id fleet3)" by (simp add: fleet3_def)
  from Successors_deterministic [OF sorts_by_id_sort_key sorts_by_id_sort_key _ this, of "rev fleet3"] d
  show ?thesis by simp
qed

text \<open>The successor list names exactly the other relays that advertise an endpoint, those of the own
  region first and each group in the order of the ids.\<close>

lemma Successors_exact:
  assumes "sorts_by_id f"
  shows "\<exists>same other. Successors f selfID region fleet = map ri_Endpoint (same @ other) \<and>
    set (same @ other) = {r \<in> set fleet. ri_Id r \<noteq> selfID \<and> ri_Endpoint r \<noteq> []} \<and>
    set same = {r \<in> set (same @ other). ri_Region r = region} \<and>
    sorted (map ri_Id same) \<and> sorted (map ri_Id other)"
proof -
  let ?kept = "[r \<leftarrow> fleet. \<not> (ri_Id r = selfID \<or> ri_Endpoint r = [])]"
  let ?s = "f [r \<leftarrow> ?kept. ri_Region r = region]" and ?o = "f [r \<leftarrow> ?kept. ri_Region r \<noteq> region]"
  have st: "set (f xs) = set xs" for xs using assms by (metis sorts_by_id_def mset_eq_setD)
  have "Successors f selfID region fleet = map ri_Endpoint (?s @ ?o)" by (simp add: Successors_def Let_def)
  moreover have "sorted (map ri_Id ?s)" "sorted (map ri_Id ?o)" using assms by (simp_all add: sorts_by_id_def)
  moreover have "set (?s @ ?o) = {r \<in> set fleet. ri_Id r \<noteq> selfID \<and> ri_Endpoint r \<noteq> []}"
    and "set ?s = {r \<in> set (?s @ ?o). ri_Region r = region}" by (auto simp: st)
  ultimately show ?thesis by blast
qed

lemma Successors_exact_witness:
  "\<exists>same other. Successors (sort_key ri_Id) ''c'' ''us'' fleet3 = map ri_Endpoint (same @ other) \<and>
    set (same @ other) = {r \<in> set fleet3. ri_Id r \<noteq> ''c'' \<and> ri_Endpoint r \<noteq> []} \<and>
    set same = {r \<in> set (same @ other). ri_Region r = ''us''} \<and>
    sorted (map ri_Id same) \<and> sorted (map ri_Id other)"
  by (rule Successors_exact [OF sorts_by_id_sort_key])

section \<open>The heartbeat and its subscriber\<close>

text \<open>
  \<open>main\<close> seeds the server's list from the start-up snapshot and subscribes
  \<open>Server.SetSuccessors\<close> (subscriber 0); \<open>Run\<close> beats once and then at every tick. A run is the list
  of the controller's answers.
\<close>

definition SetSuccessors_calls :: "(nat \<times> endpoint list) list \<Rightarrow> endpoint list \<Rightarrow> endpoint list" where
  "SetSuccessors_calls calls cur = fold (\<lambda>(fn, eps) cur. if fn = 0 then eps else cur) calls cur"

definition beat_server :: "sort_func \<Rightarrow> Heartbeat \<times> endpoint list \<Rightarrow> string + RelayInstance list \<Rightarrow> Heartbeat \<times> endpoint list" where
  "beat_server SortFunc hs resp = (case beat SortFunc resp (fst hs) of (h, calls) \<Rightarrow> (h, SetSuccessors_calls calls (snd hs)))"

definition heartbeat_Run :: "sort_func \<Rightarrow> (string + RelayInstance list) list \<Rightarrow> Heartbeat \<times> endpoint list \<Rightarrow> Heartbeat \<times> endpoint list" where
  "heartbeat_Run SortFunc resps hs = foldl (beat_server SortFunc) hs resps"

definition replies :: "(string + RelayInstance list) list \<Rightarrow> RelayInstance list list" where
  "replies resps = concat (map (case_sum (\<lambda>_. []) (\<lambda>fl. [fl])) resps)"

lemma replies_snoc: "replies (resps @ [r]) = replies resps @ (case r of Inl _ \<Rightarrow> [] | Inr fl \<Rightarrow> [fl])"
  by (simp add: replies_def split: sum.split)

lemma heartbeat_Run_snoc: "heartbeat_Run f (resps @ [r]) hs = beat_server f (heartbeat_Run f resps hs) r"
  by (simp add: heartbeat_Run_def)

lemma beat_server_simps:
  "beat_server f (h, cur) (Inl e) = (h, cur)"
  "hb_subs h = [0] \<Longrightarrow> beat_server f (h, cur) (Inr fl) =
     (let next = Successors f (hb_id h) (hb_region h) fl in
      if next = hb_last h then (h, cur) else (h\<lparr>hb_last := next\<rparr>, next))"
  by (simp_all add: beat_server_def beat_def SetSuccessors_calls_def Let_def)

lemma heartbeat_Run_inv:
  assumes "hb_subs h = [0]" and "hb_last h = []"
  shows "case heartbeat_Run f resps (h, seed) of (h', cur) \<Rightarrow>
    hb_subs h' = [0] \<and> hb_id h' = hb_id h \<and> hb_region h' = hb_region h \<and>
    (let ss = map (Successors f (hb_id h) (hb_region h)) (replies resps) in
     if \<exists>x \<in> set ss. x \<noteq> [] then hb_last h' = last ss \<and> cur = last ss else hb_last h' = [] \<and> cur = seed)"
proof (induction resps rule: rev_induct)
  case Nil
  then show ?case by (simp add: heartbeat_Run_def replies_def assms)
next
  case (snoc r resps)
  obtain h' cur where hc: "heartbeat_Run f resps (h, seed) = (h', cur)" by (cases "heartbeat_Run f resps (h, seed)")
  show ?case
  proof (cases r)
    case (Inl e)
    then show ?thesis using snoc.IH by (simp add: heartbeat_Run_snoc replies_snoc hc beat_server_simps)
  next
    case (Inr fl)
    have sub: "hb_subs h' = [0]" "hb_id h' = hb_id h" "hb_region h' = hb_region h" using snoc.IH by (simp_all add: hc)
    let ?ss = "map (Successors f (hb_id h) (hb_region h)) (replies resps)"
    show ?thesis
    proof (cases "\<exists>x \<in> set ?ss. x \<noteq> []")
      case True
      then have "hb_last h' = last ?ss" "cur = last ?ss" using snoc.IH by (simp_all add: hc Let_def)
      moreover have "\<exists>x \<in> set (replies resps). Successors f (hb_id h) (hb_region h) x \<noteq> []" using True by auto
      ultimately show ?thesis
        using sub Inr by (simp add: heartbeat_Run_snoc replies_snoc hc beat_server_simps Let_def)
    next
      case False
      then have "hb_last h' = []" "cur = seed" using snoc.IH by (simp_all add: hc Let_def split: if_splits)
      moreover have "\<forall>x \<in> set (replies resps). Successors f (hb_id h) (hb_region h) x = []" using False by auto
      ultimately show ?thesis
        using sub Inr by (simp add: heartbeat_Run_snoc replies_snoc hc beat_server_simps Let_def)
    qed
  qed
qed

text \<open>After any run of heartbeats, failed ones included, in which some reply offered a successor, the
  list the server hands out is the successor list of the last successful reply.\<close>

lemma heartbeat_tracks_fleet:
  assumes "h = OnSuccessors 0 (NewHeartbeat i region ep period)"
    and "fl \<in> set (replies resps)" and "Successors f i region fl \<noteq> []"
  shows "snd (heartbeat_Run f resps (h, seed)) = Successors f i region (last (replies resps))"
proof -
  have h: "hb_subs h = [0]" "hb_last h = []" "hb_id h = i" "hb_region h = region"
    by (simp_all add: assms(1) OnSuccessors_def NewHeartbeat_def)
  have ne: "replies resps \<noteq> []" using assms(2) by auto
  have "\<exists>x \<in> set (map (Successors f i region) (replies resps)). x \<noteq> []" using assms(2,3) by auto
  with heartbeat_Run_inv [OF h(1,2), of f resps seed] ne show ?thesis
    by (auto simp: h(3,4) Let_def last_map split: prod.splits)
qed

lemma heartbeat_tracks_fleet_witness:
  "snd (heartbeat_Run (sort_key ri_Id) [Inr fleet3, Inl ''down'', Inr []]
     (OnSuccessors 0 (NewHeartbeat ''a'' ''us'' ''a:1'' 0), [''old:1''])) = []"
proof -
  have "fleet3 \<in> set (replies [Inr fleet3, Inl ''down'', Inr []])" by (simp add: replies_def)
  moreover have "Successors (sort_key ri_Id) ''a'' ''us'' fleet3 \<noteq> []" by (simp add: Successors_def fleet3_def)
  ultimately show ?thesis
    by (subst heartbeat_tracks_fleet [OF refl]) (simp_all add: replies_def Successors_def)
qed

text \<open>The heartbeat compares the first reply with an empty list instead of the list the server was
  seeded with: when the fleet shrinks to this relay alone before the first beat, the empty list is
  not announced and the server keeps handing out the seeded relays, however often it beats.\<close>

lemma empty_first_beats_keep_seed:
  "snd (heartbeat_Run (sort_key ri_Id) (replicate n (Inr [\<lparr>ri_Id = i, ri_Region = region, ri_Endpoint = ep\<rparr>]))
     (OnSuccessors 0 (NewHeartbeat i region ep period), seed)) = seed"
proof -
  let ?h = "OnSuccessors 0 (NewHeartbeat i region ep period)"
  have h: "hb_subs ?h = [0]" "hb_last ?h = []" "hb_id ?h = i" "hb_region ?h = region"
    by (simp_all add: OnSuccessors_def NewHeartbeat_def)
  have "replies (replicate n (Inr fl)) = replicate n fl" for fl
    by (induction n) (simp_all add: replies_def)
  moreover have "Successors (sort_key ri_Id) i region [\<lparr>ri_Id = i, ri_Region = region, ri_Endpoint = ep\<rparr>] = []"
    by (simp add: Successors_def)
  ultimately show ?thesis
    using heartbeat_Run_inv [OF h(1,2), of "sort_key ri_Id"
      "replicate n (Inr [\<lparr>ri_Id = i, ri_Region = region, ri_Endpoint = ep\<rparr>])" seed]
    by (auto simp: h(3,4) Let_def split: prod.splits if_splits)
qed

end
