(* ===== verification/PlaneRun.thy ===== *)
theory PlaneRun
  imports PlaneProps
begin

text \<open>
  The goroutines of the forwarding plane (\<open>NewPlane\<close>, \<open>Run\<close>, \<open>gcLoop\<close>, \<open>Close\<close>, \<open>pkg/forward/plane.go\<close>): opening the
  socket, the read loop until a read fails, and the collector's ticker. What the reads return, what the
  other goroutines do to the plane between two reads and when the context is cancelled are inputs. The
  theory also holds what anyone who can reach the socket can do to the handshake table.
\<close>

section \<open>The code\<close>

text \<open>\<open>NewPlane\<close> over the outcomes of resolving and of binding the address.\<close>

definition openPlane :: "string \<Rightarrow> string option \<Rightarrow> string option \<Rightarrow> string + Plane" where
  "openPlane addr resolveErr bindErr = (case resolveErr of
     Some e \<Rightarrow> Inl (''forward: resolve '' @ addr @ '': '' @ e)
   | None \<Rightarrow> (case bindErr of
       Some e \<Rightarrow> Inl (''forward: bind '' @ addr @ '': '' @ e)
     | None \<Rightarrow> Inr NewPlane))"

text \<open>
  What happens to the read loop: a datagram, a failed read, the cancellation of the context (whose
  goroutine closes the socket), or a change of the plane by another goroutine.
\<close>

datatype run_event =
    RunRead gotime AddrPort "byte list"
  | RunReadErr string
  | RunCancel
  | RunOthers "Plane \<Rightarrow> Plane"

text \<open>The result of \<open>Run\<close> is \<open>None\<close> while it reads, \<open>Some None\<close> for a nil error.\<close>

fun plane_Run :: "bool \<Rightarrow> run_event list \<Rightarrow> Plane \<Rightarrow> Plane \<times> (AddrPort \<times> byte list) list \<times> string option option" where
  "plane_Run cancelled [] p = (p, [], None)"
| "plane_Run cancelled (RunRead now src buf # evs) p =
     (case handle_packet now src buf p of (p1, out) \<Rightarrow>
        (case plane_Run cancelled evs p1 of (p2, outs, res) \<Rightarrow> (p2, (case out of None \<Rightarrow> outs | Some d \<Rightarrow> d # outs), res)))"
| "plane_Run cancelled (RunReadErr e # evs) p = (p, [], Some (if cancelled then None else Some (''forward: read: '' @ e)))"
| "plane_Run cancelled (RunCancel # evs) p = plane_Run True evs p"
| "plane_Run cancelled (RunOthers f # evs) p = plane_Run cancelled evs (f p)"

text \<open>The collector: the ticker's \<open>k\<close>-th tick after the start, and the loop over what its select receives.\<close>

definition gc_tick :: "gotime \<Rightarrow> duration \<Rightarrow> nat \<Rightarrow> gotime" where
  "gc_tick start ttl k = start + int k * gc_interval ttl"

datatype gc_event = GcDone | GcTick gotime "u32 list" | GcOthers "Plane \<Rightarrow> Plane"

fun gcLoop :: "gc_event list \<Rightarrow> Plane \<Rightarrow> Plane" where
  "gcLoop [] p = p"
| "gcLoop (GcDone # evs) p = p"
| "gcLoop (GcTick now ids # evs) p = gcLoop evs (gcOnce now ids p)"
| "gcLoop (GcOthers f # evs) p = gcLoop evs (f p)"

section \<open>The read loop\<close>

text \<open>\<open>Run\<close> returns at the first failed read, with nil exactly if the context was cancelled before; what it
  did until then does not depend on anything after.\<close>

lemma plane_Run_append:
  "list_all (\<lambda>ev. \<nexists>e. ev = RunReadErr e) evs \<Longrightarrow>
     plane_Run c (evs @ RunReadErr e # evs') p =
       (case plane_Run c evs p of (q, outs, _) \<Rightarrow> (q, outs, Some (if c \<or> RunCancel \<in> set evs then None else Some (''forward: read: '' @ e))))"
proof (induction c evs p rule: plane_Run.induct)
  case (2 c now src buf evs p)
  then show ?case by (auto split: prod.split option.split)
qed (auto split: prod.split)

section \<open>Collection in bounded time\<close>

lemma gc_interval_bounds: "Second \<le> gc_interval ttl" "gc_interval ttl \<le> 5 * Second"
  by (auto simp: gc_interval_def Second_def Millisecond_def)

lemma gc_tick_after:
  assumes "start \<le> t"
  shows "\<exists>k \<ge> 1. t < gc_tick start ttl k \<and> gc_tick start ttl k \<le> t + gc_interval ttl"
proof -
  let ?d = "gc_interval ttl"
  have d: "0 < ?d" using gc_interval_bounds(1) [of ttl] Second_pos by linarith
  let ?k = "nat ((t - start) div ?d) + 1"
  have "int ?k = (t - start) div ?d + 1" using assms d by (simp add: pos_imp_zdiv_nonneg_iff)
  moreover have "(t - start) div ?d * ?d \<le> t - start" "t - start < ((t - start) div ?d + 1) * ?d"
    using d by (simp_all add: pos_mod_sign pos_mod_bound minus_mod_eq_div_mult [symmetric] distrib_right)
  ultimately show ?thesis by (intro exI [of _ ?k]) (simp add: gc_tick_def distrib_right)
qed

lemma gcLoop_append: "GcDone \<notin> set evs \<Longrightarrow> gcLoop (evs @ evs') p = gcLoop evs' (gcLoop evs p)"
  by (induction evs p rule: gcLoop.induct) auto



section \<open>What a stranger can do to the handshake\<close>

text \<open>The handshake table takes a punch from anybody, and the last one wins. If a stranger's punch for an
  allocation arrives between the owner's punch and the owner's registration, the owner's punch is lost:
  the registration binds nothing, while without the stranger it binds the owner's source at once.\<close>

lemma stranger_displaces_punch:
  assumes "byAlloc p i = Some e" and "ae_uri e \<noteq> []" and "pending p i = None" and "n' \<noteq> n" and "t3 < t1 + pending_ttl p"
  shows "Lookup i (snd (ArmPending t3 i (ae_uri e) n (register t1 i src n p))) = Some src \<and>
    Lookup i (snd (ArmPending t3 i (ae_uri e) n (register t2 i stranger n' (register t1 i src n p)))) = Some (ae_src e)"
  using assms by (simp add: Lookup_def ArmPending_def register_def bind_src_def Let_def)

lemma stranger_displaces_punch_witness:
  "Lookup 1 (snd (ArmPending 3 1 ''a'' demo_nonce (register 0 1 demo_src demo_nonce (sy_plane demo1)))) = Some demo_src \<and>
   Lookup 1 (snd (ArmPending 3 1 ''a'' demo_nonce (register 2 1 (AddrPort ''6.6.6.6'' 6) (replicate 16 0)
     (register 0 1 demo_src demo_nonce (sy_plane demo1))))) = Some ZeroAddrPort"
proof -
  have e: "byAlloc (sy_plane demo1) 1 = Some \<lparr>ae_uri = ''a'', ae_src = ZeroAddrPort, ae_lastSeen = 0\<rparr>" by code_simp
  have "pending (sy_plane demo1) 1 = None" "replicate 16 0 \<noteq> demo_nonce" "3 < 0 + pending_ttl (sy_plane demo1)" by code_simp+
  from stranger_displaces_punch [OF e _ this, of demo_src 2 "AddrPort ''6.6.6.6'' 6"] show ?thesis by simp
qed

text \<open>Every punch whose allocation has no armed nonce is queued, issued or not: between two collections the table grows
  by one row per id that somebody names.\<close>

lemma queued_grows:
  assumes "\<forall>buf \<in> set bufs. \<exists>i n. punch_of buf = Some (i, n) \<and> pending p i = None"
  shows "dom (queued (fold (\<lambda>buf q. fst (handle_packet now src buf q)) bufs p)) =
    dom (queued p) \<union> {i. \<exists>buf \<in> set bufs. \<exists>n. punch_of buf = Some (i, n)}"
  using assms
proof (induction bufs arbitrary: p)
  case (Cons buf bufs)
  then obtain i n where b: "punch_of buf = Some (i, n)" "pending p i = None" by auto
  have q: "fst (handle_packet now src buf p) = register now i src n p" by (simp add: handle_packet_register [OF b(1)])
  have "pending (register now i src n p) = pending p" "dom (queued (register now i src n p)) = insert i (dom (queued p))"
    using b(2) by (auto simp: register_def)
  with Cons.IH [of "register now i src n p"] Cons.prems b(1) show ?case by (auto simp: q)
qed simp

end
