(* ===== verification/EdgePeer.thy ===== *)
theory EdgePeer
  imports EdgeStreamProps
begin

text \<open>
  Streams that cross two relays (\<open>pkg/edge/edge.go\<close>): \<open>forwardToPeer\<close> on the consumer's relay and
  \<open>handleForwardedStream\<close> on the provider's, with the stream frames between them. As in
  \<open>EdgeStream\<close>, a handler is cut at its blocking calls, where other goroutines may change the server.
\<close>

section \<open>The consumer's relay\<close>

record peer_io =
  pi_dial :: "endpoint \<Rightarrow> string + conn_ref"
  pi_fwd :: "conn_ref \<Rightarrow> forward_io"
  pi_bytes :: int
  pi_others :: "nat \<Rightarrow> Server \<Rightarrow> Server"

text \<open>\<open>s.pool.Get\<close>: the two critical sections with the dial between them. \<open>None\<close> is a nil pool.\<close>

definition server_Get :: "peer_io \<Rightarrow> string \<Rightarrow> endpoint \<Rightarrow> Server \<Rightarrow> ((string + conn_ref) \<times> Server) option" where
  "server_Get io relayID ep s = (case sv_pool s of
     None \<Rightarrow> None
   | Some p \<Rightarrow> (case Get_lookup relayID p of
       Some c \<Rightarrow> Some (Inr c, s)
     | None \<Rightarrow>
         let s1 = pi_others io 0 s in
         (case pi_dial io ep of
            Inl err \<Rightarrow> Some (Inl err, s1)
          | Inr c \<Rightarrow> (case sv_pool s1 of
              None \<Rightarrow> None
            | Some p1 \<Rightarrow> (case Get_insert relayID c p1 of (c', p2) \<Rightarrow> Some (Inr c', s1\<lparr>sv_pool := Some p2\<rparr>))))))"

text \<open>What \<open>intra.ForwardStream\<close> does to the stream it opens.\<close>

definition forward_effects :: "forward_result \<Rightarrow> effect list" where
  "forward_effects r =
     (case fr_wrote r of None \<Rightarrow> [] | Some m \<Rightarrow> [WriteFrame PeerStream FrameTypeForwardStream m]) @
     (if fr_closed r then [CloseStream PeerStream] else [])"

definition forwardToPeer :: "peer_io \<Rightarrow> AgentConn \<Rightarrow> OpenStream \<Rightarrow> Remote \<Rightarrow> Server \<Rightarrow> (Server \<times> effect list) option" where
  "forwardToPeer io caller os remote s =
     (case server_Get io (remote_RelayID remote) (remote_Endpoint remote)
             (bump (\<lambda>m. m\<lparr>intraRelayHops := intraRelayHops m + 1\<rparr>) s) of
        None \<Rightarrow> None
      | Some (Inl err, s1) \<Rightarrow>
          Some (rejectConsumer (Some caller) ConsumerStream (os_StreamId os) 502 ''peer relay unreachable'' s1)
      | Some (Inr c, s1) \<Rightarrow>
          let r = ForwardStream (pi_fwd io c) (os_TargetService os) (os_Method os) (ac_uri caller);
              s2 = pi_others io 1 s1
          in (case fr_result r of
                Inl err \<Rightarrow> (case sv_pool s2 of
                    None \<Rightarrow> None
                  | Some p \<Rightarrow>
                      (case rejectConsumer (Some caller) ConsumerStream (os_StreamId os) 502 ''peer relay forward failed''
                              (s2\<lparr>sv_pool := Some (Drop (remote_RelayID remote) p)\<rparr>) of
                         (s3, es) \<Rightarrow> Some (s3, forward_effects r @ es)))
              | Inr st \<Rightarrow>
                  Some (bump (\<lambda>m. m\<lparr>bytesForwarded := bytesForwarded m + pi_bytes io\<rparr>) (pi_others io 2 s2),
                        forward_effects r @ [CloseStream PeerStream])))"

section \<open>The provider's relay\<close>

record forwarded_io =
  fi_first :: "string + frame"
  fi_open :: open_result
  fi_ack :: "string + frame"
  fi_okAccept :: bool
  fi_bytes :: int
  fi_others :: "nat \<Rightarrow> Server \<Rightarrow> Server"

text \<open>From the provider's answer on; the provider's stream is closed before the peer's.\<close>

definition forwarded_answer :: "forwarded_io \<Rightarrow> Server \<Rightarrow> Server \<times> effect list" where
  "forwarded_answer io s =
     (case (case fi_ack io of Inl err \<Rightarrow> False | Inr ack \<Rightarrow> f_Type ack = FrameTypeStreamAccept) of
        False \<Rightarrow> (case writeStreamReject PeerStream 503 ''provider rejected'' s of
          (s', es) \<Rightarrow> (s', es @ [CloseStream ProviderStream, CloseStream PeerStream]))
      | True \<Rightarrow>
          let w = WriteFrame PeerStream FrameTypeStreamAccept M_StreamAccept in
          if \<not> fi_okAccept io then (s, [w, CloseStream ProviderStream, CloseStream PeerStream])
          else (bump (\<lambda>m. m\<lparr>bytesForwarded := bytesForwarded m + fi_bytes io\<rparr>) (fi_others io 3 s),
                [w, CloseStream ProviderStream, CloseStream PeerStream]))"

text \<open>From the parsed FORWARD_STREAM on.\<close>

definition forwarded_open :: "edge_env \<Rightarrow> forwarded_io \<Rightarrow> IncomingStream \<Rightarrow> Server \<Rightarrow> Server \<times> effect list" where
  "forwarded_open env io ins s =
     (case Resolve (en_Parse env) (en_ctrl env) (is_SourceAgentUri ins) (is_TargetService ins) (sv_reg s) of
        (Some prov, None, None) \<Rightarrow>
          (case OpenIncoming prov (is_TargetService ins) (is_Method ins) (is_SourceAgentUri ins) (is_StreamId ins)
                  (sv_successors s) (fi_open io) of
             (es, False) \<Rightarrow> (case writeStreamReject PeerStream 502 ''provider open failed'' s of
               (s', es') \<Rightarrow> (s', es @ es' @ [CloseStream PeerStream]))
           | (es, True) \<Rightarrow> (case forwarded_answer io (fi_others io 2 s) of (s', es') \<Rightarrow> (s', es @ es')))
      | _ \<Rightarrow> (case writeStreamReject PeerStream 503 ''no local provider for forwarded stream'' s of
               (s', es) \<Rightarrow> (s', es @ [CloseStream PeerStream])))"

definition handleForwardedStream :: "edge_env \<Rightarrow> forwarded_io \<Rightarrow> Server \<Rightarrow> Server \<times> effect list" where
  "handleForwardedStream env io s =
     (let s0 = fi_others io 0 s in
      case fi_first io of
        Inl err \<Rightarrow> (s0, [CloseStream PeerStream])
      | Inr f \<Rightarrow>
          if f_Type f \<noteq> FrameTypeForwardStream then (s0, [CloseStream PeerStream])
          else (case f_Msg f of
             Some (M_IncomingStream ins) \<Rightarrow> forwarded_open env io ins (fi_others io 1 s0)
           | _ \<Rightarrow> (s0, [CloseStream PeerStream])))"

text \<open>\<open>servePeerRelay\<close>: one handler per accepted stream until the accept fails.\<close>

fun servePeerRelay :: "edge_env \<Rightarrow> (string + forwarded_io) list \<Rightarrow> Server \<Rightarrow> Server \<times> effect list \<times> bool" where
  "servePeerRelay env [] s = (s, [], False)"
| "servePeerRelay env (Inl err # rs) s = (s, [], True)"
| "servePeerRelay env (Inr io # rs) s = (case handleForwardedStream env io s of (s', es) \<Rightarrow>
     (case servePeerRelay env rs s' of (s'', es', fin) \<Rightarrow> (s'', es @ es', fin)))"

section \<open>Behaviour\<close>

lemma ForwardStream_wrote:
  assumes "fr_wrote (ForwardStream io t m u) = Some msg"
  shows "msg = M_IncomingStream \<lparr>is_TargetService = t, is_Method = m, is_SourceAgentUri = u, is_StreamId = 0, is_ResumeRelays = []\<rparr>"
  using assms by (auto simp: ForwardStream_def Let_def split: sum.splits option.splits if_splits)

lemma forwardToPeer_wrote:
  assumes "forwardToPeer io caller os remote s = Some (s', es)" and "WriteFrame PeerStream FrameTypeForwardStream msg \<in> set es"
  shows "msg = M_IncomingStream \<lparr>is_TargetService = os_TargetService os, is_Method = os_Method os,
    is_SourceAgentUri = ac_uri caller, is_StreamId = 0, is_ResumeRelays = []\<rparr>"
  using assms
  by (auto simp: forwardToPeer_def forward_effects_def rejectConsumer_eq Let_def
      split: option.splits sum.splits prod.splits if_splits dest: ForwardStream_wrote)

text \<open>The peer stream is closed at the end of every forwarded stream, on every path.\<close>

lemma handleForwardedStream_closes: "last (snd (handleForwardedStream env io s)) = CloseStream PeerStream"
  by (auto simp: handleForwardedStream_def forwarded_open_def forwarded_answer_def writeStreamReject_def Let_def
      split: sum.split option.split message.split prod.split bool.split)

lemma forwarded_open_reaches:
  assumes "Resolve (en_Parse env) (en_ctrl env) (is_SourceAgentUri ins) (is_TargetService ins) (sv_reg s) = (Some prov, None, None)"
    and "fi_open io = Opened"
  shows "OpenIncomingStream prov (M_IncomingStream (ins\<lparr>is_ResumeRelays := sv_successors s\<rparr>)) \<in> set (snd (forwarded_open env io ins s))"
  using assms by (cases ins) (auto simp: forwarded_open_def OpenIncoming_def Let_def split: prod.split)

section \<open>Properties\<close>

text \<open>C38: across relays the provider's side of the policy is never consulted, and the stream id is lost.
  Whatever the engine of the provider's relay says about (provider, caller, method), a frame the
  consumer's relay wrote makes the provider's relay open the stream to a resolved local provider,
  with the consumer's URI as the caller and 0 as the stream id. The decision \<open>deny\<close> in the premises
  is what makes the same stream fail when both agents are on one relay.\<close>

theorem inter_relay_callee_unchecked:
  assumes "forwardToPeer pio caller os remote sA = Some (sA', esA)"
    and "WriteFrame PeerStream FrameTypeForwardStream msg \<in> set esA"
    and "fi_first io = Inr (Frame FrameTypeForwardStream (Some msg))" and "fi_open io = Opened"
    and "sB = fi_others io 1 (fi_others io 0 s)"
    and "Resolve (en_Parse env) (en_ctrl env) (ac_uri caller) (os_TargetService os) (sv_reg sB) = (Some prov, None, None)"
    and "sv_policy sB = Some e" and "res_Decision (Engine_Decide e (ac_uri prov) (ac_uri caller) (os_Method os) now) = DecisionDeny"
  shows "OpenIncomingStream prov (M_IncomingStream \<lparr>is_TargetService = os_TargetService os, is_Method = os_Method os,
    is_SourceAgentUri = ac_uri caller, is_StreamId = 0, is_ResumeRelays = sv_successors sB\<rparr>)
      \<in> set (snd (handleForwardedStream env io s))"
proof -
  let ?ins = "\<lparr>is_TargetService = os_TargetService os, is_Method = os_Method os, is_SourceAgentUri = ac_uri caller,
    is_StreamId = 0, is_ResumeRelays = []\<rparr>"
  have "handleForwardedStream env io s = forwarded_open env io ?ins sB"
    using forwardToPeer_wrote [OF assms(1,2)] assms(3,5) by (simp add: handleForwardedStream_def)
  moreover have "OpenIncomingStream prov (M_IncomingStream (?ins\<lparr>is_ResumeRelays := sv_successors sB\<rparr>))
      \<in> set (snd (forwarded_open env io ?ins sB))"
    using assms(4,6) by (intro forwarded_open_reaches) simp_all
  ultimately show ?thesis by simp
qed

definition demo_remote :: Remote where
  "demo_remote = \<lparr>remote_RelayID = ''r2'', remote_Endpoint = ''r2:1'', remote_AgentURI = ''b''\<rparr>"

definition demo_peer_io :: peer_io where
  "demo_peer_io = \<lparr>pi_dial = (\<lambda>_. Inr 0), pi_fwd = (\<lambda>_. \<lparr>fio_open = Inr 0, fio_write = None,
     fio_reply = Inr (Frame FrameTypeStreamAccept (Some M_StreamAccept))\<rparr>), pi_bytes = 0, pi_others = (\<lambda>_ x. x)\<rparr>"

definition demo_forward_msg :: message where
  "demo_forward_msg = M_IncomingStream \<lparr>is_TargetService = ''svc'', is_Method = ''m'', is_SourceAgentUri = ''a'',
     is_StreamId = 0, is_ResumeRelays = []\<rparr>"

definition demo_forwarded_io :: forwarded_io where
  "demo_forwarded_io = \<lparr>fi_first = Inr (Frame FrameTypeForwardStream (Some demo_forward_msg)), fi_open = Opened,
     fi_ack = Inr (Frame FrameTypeStreamAccept (Some M_StreamAccept)), fi_okAccept = True, fi_bytes = 0, fi_others = (\<lambda>_ x. x)\<rparr>"

text \<open>The provider's relay with an empty, hence denying, engine.\<close>

definition demo_deny_server :: Server where
  "demo_deny_server = (demo_server RelayModeSplice)\<lparr>sv_policy := Some NewEngine\<rparr>"

lemma demo_forwardToPeer:
  obtains sA' esA where "forwardToPeer demo_peer_io demo_c demo_open demo_remote
      ((demo_server RelayModeSplice)\<lparr>sv_pool := Some NewPool\<rparr>) = Some (sA', esA)"
    "WriteFrame PeerStream FrameTypeForwardStream demo_forward_msg \<in> set esA"
  by (fastforce simp: forwardToPeer_def server_Get_def demo_peer_io_def demo_remote_def Get_lookup_def Get_insert_def NewPool_def
      bump_def ForwardStream_def forward_effects_def demo_open_def demo_c_def demo_forward_msg_def Let_def)

theorem inter_relay_callee_unchecked_witness:
  "\<exists>e. sv_policy demo_deny_server = Some e \<and> res_Decision (Engine_Decide e ''b'' ''a'' ''m'' 0) = DecisionDeny \<and>
     OpenIncomingStream demo_p (M_IncomingStream \<lparr>is_TargetService = ''svc'', is_Method = ''m'', is_SourceAgentUri = ''a'',
       is_StreamId = 0, is_ResumeRelays = [''s:1'']\<rparr>) \<in> set (snd (handleForwardedStream demo_env demo_forwarded_io demo_deny_server))"
proof -
  obtain sA' esA where a: "forwardToPeer demo_peer_io demo_c demo_open demo_remote
      ((demo_server RelayModeSplice)\<lparr>sv_pool := Some NewPool\<rparr>) = Some (sA', esA)"
    "WriteFrame PeerStream FrameTypeForwardStream demo_forward_msg \<in> set esA" by (rule demo_forwardToPeer)
  have d: "res_Decision (Engine_Decide NewEngine ''b'' ''a'' ''m'' 0) = DecisionDeny" by code_simp
  have r: "Resolve (en_Parse demo_env) (en_ctrl demo_env) ''a'' ''svc'' (sv_reg demo_deny_server) = (Some demo_p, None, None)"
    by (simp add: demo_deny_server_def demo_server_def SetSuccessors_def edge_New_def Resolve_def tenantOf_def demo_env_def
        RegisterAgent_def Registry_New_def)
  have s: "sv_successors demo_deny_server = [''s:1'']" "sv_policy demo_deny_server = Some NewEngine"
    by (simp_all add: demo_deny_server_def demo_server_def SetSuccessors_def)
  show ?thesis
    using inter_relay_callee_unchecked [OF a, of demo_forwarded_io demo_deny_server demo_deny_server demo_env demo_p NewEngine 0] d r s
    by (simp add: demo_forwarded_io_def demo_c_def demo_open_def demo_p_def)
qed

lemma forward_effects_told [simp]:
  "\<not> told_yes c i (forward_effects r)" "\<not> told_no c i (forward_effects r)"
  "WriteFrame ConsumerStream t m \<notin> set (forward_effects r)"
  by (auto simp: forward_effects_def split: option.split)

text \<open>A consumer whose stream goes to a peer relay is told about failure only. Its control stream carries
  a reject for the stream id exactly if its data stream does, and never a STREAM_READY or
  ALLOC_GRANTED, so an accepted stream leaves the consumer without the verdict it waits for.\<close>

lemma forwarded_no_ready:
  assumes "forwardToPeer io c os remote s = Some (s', es)" and "os_StreamId os \<noteq> 0"
  shows "\<not> told_yes c (os_StreamId os) es \<and>
    (told_no c (os_StreamId os) es \<longleftrightarrow>
      (\<exists>code reason. WriteFrame ConsumerStream FrameTypeStreamReject (M_StreamReject code reason 0) \<in> set es))"
  using assms
  by (auto simp: forwardToPeer_def rejectConsumer_eq Let_def split: option.splits sum.splits prod.splits)

lemma forwarded_no_ready_witness:
  "\<exists>s' es. forwardToPeer demo_peer_io demo_c demo_open demo_remote
     ((demo_server RelayModeSplice)\<lparr>sv_pool := Some NewPool\<rparr>) = Some (s', es) \<and> \<not> told_yes demo_c 7 es"
proof -
  obtain s' es where "forwardToPeer demo_peer_io demo_c demo_open demo_remote
      ((demo_server RelayModeSplice)\<lparr>sv_pool := Some NewPool\<rparr>) = Some (s', es)" by (rule demo_forwardToPeer)
  with forwarded_no_ready [OF this] show ?thesis by (simp add: demo_open_def)
qed

text \<open>A mere reject by the peer, of one stream, closes the connection all streams to that peer share.\<close>

lemma peer_reject_drops_shared:
  assumes "sv_pool s = Some p" and "pool_conns p (remote_RelayID remote) = Some c"
    and "fio_open (pi_fwd io c) = Inr st" and "fio_write (pi_fwd io c) = None"
    and "fio_reply (pi_fwd io c) = Inr (Frame FrameTypeStreamReject m)" and "pi_others io 1 = id"
    and "forwardToPeer io caller os remote s = Some (s', es)"
  shows "\<exists>p'. sv_pool s' = Some p' \<and> pool_conns p' (remote_RelayID remote) = None \<and> c \<in> pool_closed p'"
  using assms
  by (auto simp: forwardToPeer_def server_Get_def Get_lookup_def ForwardStream_def rejectConsumer_eq Drop_def Let_def
      split: prod.splits)

end
