(* ===== verification/EdgeServe.thy ===== *)
theory EdgeServe
  imports EdgeConn EdgePeer PlaneProps
begin

text \<open>
  The loops around a connection (\<open>Run\<close>, \<open>RunListener\<close> and \<open>serveConn\<close>, \<open>pkg/edge/edge.go\<close>): accepting
  connections until the listener fails, accepting a connection's streams until it fails, and the whole
  of \<open>serveConn\<close> with its deferred calls. The results of the transport's accept calls are lists; a list that
  ends without a failure is a loop that still waits.
\<close>

section \<open>The code\<close>

datatype ctx_err = Canceled | DeadlineExceeded | OtherErr string

text \<open>The loop shared by \<open>Run\<close> and \<open>RunListener\<close>: the connections handed to \<open>serveConn\<close>, and the returned error, with
  \<open>None\<close> for a loop that still waits and \<open>Some None\<close> for nil.\<close>

fun accept_loop :: "(ctx_err + 'conn) list \<Rightarrow> 'conn list \<times> string option option" where
  "accept_loop [] = ([], None)"
| "accept_loop (Inl Canceled # rs) = ([], Some None)"
| "accept_loop (Inl DeadlineExceeded # rs) = ([], Some None)"
| "accept_loop (Inl (OtherErr e) # rs) = ([], Some (Some (''edge: accept: '' @ e)))"
| "accept_loop (Inr conn # rs) = (case accept_loop rs of (conns, res) \<Rightarrow> (conn # conns, res))"

definition RunListener :: "(ctx_err + 'conn) list \<Rightarrow> 'conn list \<times> string option option" where
  "RunListener rs = accept_loop rs"

text \<open>\<open>Run\<close> binds the listener itself; the third result says whether it closed it.\<close>

definition server_Run :: "string option \<Rightarrow> (ctx_err + 'conn) list \<Rightarrow> 'conn list \<times> string option option \<times> bool" where
  "server_Run listenErr rs = (case listenErr of
     Some e \<Rightarrow> ([], Some (Some (''edge: listen: '' @ e)), False)
   | None \<Rightarrow> (case accept_loop rs of (conns, res) \<Rightarrow> (conns, res, res \<noteq> None)))"

text \<open>The stream loop of an agent's connection: the streams given to \<open>handleConsumerStream\<close>, and whether it ended.\<close>

fun stream_loop :: "(string + 'stream) list \<Rightarrow> 'stream list \<times> bool" where
  "stream_loop [] = ([], False)"
| "stream_loop (Inl err # rs) = ([], True)"
| "stream_loop (Inr st # rs) = (case stream_loop rs of (sts, fin) \<Rightarrow> (st # sts, fin))"

text \<open>What \<open>serveConn\<close> does beyond its effects: the goroutines it starts and the cancellation of their context.\<close>

datatype conn_action = Eff effect | GoControlLoop AgentConn | GoConsumerStream AgentConn nat | CancelConn AgentConn

record serve_io =
  si_conn :: conn_io
  si_streams :: "(string + nat) list"
  si_peer :: "(string + forwarded_io) list"
  si_ids :: "uri \<Rightarrow> Server \<Rightarrow> u32 list"
  si_others :: "nat \<Rightarrow> Server \<Rightarrow> Server"

text \<open>
  \<open>serveConn\<close> for connection \<open>n\<close>. \<open>si_others 0\<close> is what other goroutines do while it waits for HELLO, \<open>si_others 1\<close> what
  they do while its stream loop runs, its own handlers included. \<open>None\<close> is a connection still served.
\<close>

definition serveConn :: "edge_env \<Rightarrow> nat \<Rightarrow> serve_io \<Rightarrow> Server \<Rightarrow> (Server \<times> conn_action list) option" where
  "serveConn env n io s = (case serveConn_accept env n (si_conn io) (si_others io 0 s) of
     (s1, es, SC_closed) \<Rightarrow> Some (s1, map Eff es)
   | (s1, es, SC_peerRelay u) \<Rightarrow> (case servePeerRelay env (si_peer io) s1 of (s2, es2, fin) \<Rightarrow>
        if fin then Some (s2, map Eff (es @ es2 @ [CloseConn n])) else None)
   | (s1, es, SC_serving ac) \<Rightarrow> (case stream_loop (si_streams io) of (sts, fin) \<Rightarrow>
        if \<not> fin then None
        else let s2 = si_others io 1 s1 in
          (case serveConn_exit env (si_ids io (ac_uri ac) s2) ac s2 of (s3, es3) \<Rightarrow>
             Some (s3, map Eff es @ GoControlLoop ac # map (GoConsumerStream ac) sts @ CancelConn ac # map Eff es3))))"

section \<open>The loops\<close>

lemma accept_loop_fails:
  "accept_loop (map Inr conns @ Inl e # rs) =
     (conns, Some (case e of OtherErr m \<Rightarrow> Some (''edge: accept: '' @ m) | _ \<Rightarrow> None))"
  by (induction conns) (auto split: ctx_err.split)

lemma accept_loop_waits: "accept_loop (map Inr conns) = (conns, None)"
  by (induction conns) auto

lemma stream_loop_fails: "stream_loop (map Inr sts @ Inl e # rs) = (sts, True)"
  by (induction sts) auto

lemma stream_loop_ends: "snd (stream_loop rs) \<longleftrightarrow> (\<exists>e. Inl e \<in> set rs)"
  by (induction rs rule: stream_loop.induct) (auto split: prod.splits)

text \<open>A connection is served until its stream loop ends, and no longer.\<close>

lemma serveConn_returns:
  assumes "serveConn_accept env n (si_conn io) (si_others io 0 s) = (s1, es, SC_serving ac)"
  shows "serveConn env n io s \<noteq> None \<longleftrightarrow> (\<exists>e. Inl e \<in> set (si_streams io))"
  using assms stream_loop_ends [of "si_streams io"] by (auto simp: serveConn_def Let_def split: prod.split)

section \<open>The end of a connection\<close>

definition closes :: "nat \<Rightarrow> conn_action list \<Rightarrow> conn_action list" where
  "closes n acts = filter (\<lambda>a. a = Eff (CloseConn n)) acts"

lemma handleForwardedStream_keeps_conn: "CloseConn n \<notin> set (snd (handleForwardedStream env io s))"
  by (auto simp: handleForwardedStream_def forwarded_open_def forwarded_answer_def writeStreamReject_def OpenIncoming_def Let_def
      split: sum.splits option.splits prod.splits message.splits open_result.splits bool.splits if_splits)

lemma servePeerRelay_keeps_conn: "servePeerRelay env rs s = (s', es, fin) \<Longrightarrow> CloseConn n \<notin> set es"
proof (induction env rs s arbitrary: s' es fin rule: servePeerRelay.induct)
  case (3 env io rs s)
  then show ?case
    using handleForwardedStream_keeps_conn [of n env io s] by (auto split: prod.splits)
qed auto

lemma serveConn_accept_closes:
  assumes "serveConn_accept env n io s = (s', es, ph)"
  shows "case ph of SC_closed \<Rightarrow> filter (\<lambda>e. e = CloseConn n) es = [CloseConn n] \<and> last es = CloseConn n
    | _ \<Rightarrow> CloseConn n \<notin> set es"
  using assms by (auto simp: serveConn_accept_def Let_def split: option.splits if_splits sum.splits)

lemma serveConn_exit_eq:
  assumes "serveConn_exit env ids ac s = (s', es)"
  shows "es \<noteq> []" "last es = CloseConn (ac_id ac)" "filter (\<lambda>e. e = CloseConn n) es = (if n = ac_id ac then [CloseConn n] else [])"
    "ac \<notin> sv_agents s'" "LookupAgent (ac_uri ac) (sv_reg s') = None"
    "sv_forward s' = map_option (\<lambda>p. snd (ForgetAgent ids (ac_uri ac) p)) (sv_forward s)"
  using assms LookupAgent_UnregisterAgent [of "ac_uri ac" "en_Parse env" "ac_uri ac" "sv_reg (untrackAgent ac s)"]
  by (auto simp: serveConn_exit_def untrackAgent_def Let_def split: prod.splits option.splits)

lemma ForgetAgent_disowns:
  assumes "plane_inv p" and "\<And>S. byURI p u = Some S \<Longrightarrow> distinct ids \<and> set ids = S"
  shows "OwnerOf i (snd (ForgetAgent ids u p)) \<noteq> Some u"
proof (cases "byURI p u")
  case None
  have "\<exists>S. byURI p (ae_uri e) = Some S" if "byAlloc p i = Some e" for e
    using plane_invD(1) [OF assms(1)] that unfolding index_ok_def by blast
  then show ?thesis using None by (auto simp: ForgetAgent_def OwnerOf_def)
next
  case (Some S)
  have "i \<in> S" if "byAlloc p i = Some e" "ae_uri e = u" for e
    using plane_invD(1) [OF assms(1)] that Some unfolding index_ok_def by fastforce
  then show ?thesis using assms(2) [OF Some] ForgetAgent_eq [OF assms(1) Some, of ids] by (auto simp: OwnerOf_def)
qed

section \<open>Properties\<close>


definition demo_serve_io :: serve_io where
  "demo_serve_io = \<lparr>si_conn = demo_conn_io, si_streams = [Inr 4, Inl ''closed''], si_peer = [],
     si_ids = (\<lambda>u t. case sv_forward t of None \<Rightarrow> [] | Some p \<Rightarrow> (case byURI p u of None \<Rightarrow> [] | Some S \<Rightarrow> sorted_list_of_set S)),
     si_others = (\<lambda>k t. if k = 1 then t\<lparr>sv_forward := Some NewPlane\<rparr> else t)\<rparr>"


text \<open>The accept loop serves every connection it accepts, in order, and ends at the first failure, with nil exactly
  if that is the end of the context.\<close>

lemma server_Run_outcome:
  "server_Run None (map Inr conns @ Inl e # rs) = (conns, Some (case e of OtherErr m \<Rightarrow> Some (''edge: accept: '' @ m) | _ \<Rightarrow> None), True)"
  "server_Run None (map Inr conns) = (conns, None, False)"
  by (simp_all add: server_Run_def accept_loop_fails accept_loop_waits)

end
