(* ===== verification/MainCfg.thy ===== *)
theory MainCfg
  imports RelayDemo Drain Fleet PlaneRun EdgeServe
begin

text \<open>
  The start of the process (\<open>cmd/outrelay-relay/main.go\<close>): the flags and the order of the checks that can
  end it, what it hands to the server, the heartbeat and the drain entry points, the goroutines it
  starts, the reaction to signals, the status it exits with, and the TLS configurations derived from
  the server's. The outcomes of the calls into the operating system, the TLS library and the
  controller are inputs.
\<close>

section \<open>TLS\<close>

text \<open>A pool of trusted certificates is named by its source; \<open>VerifyConnection\<close> is present or nil.\<close>

datatype ClientAuthType = NoClientCert | RequireAndVerifyClientCert

record tls_config =
  Certificates :: "string list"
  ClientCAs :: "string option"
  ClientAuth :: ClientAuthType
  RootCAs :: "string option"
  ServerName :: string
  VerifiesRelay :: bool
  MinVersion :: nat

definition VersionTLS13 :: nat where
  "VersionTLS13 = 772"

text \<open>\<open>loadServerTLS\<close> over the outcomes of \<open>LoadX509KeyPair\<close>, \<open>ReadFile\<close> and \<open>AppendCertsFromPEM\<close>.\<close>

definition loadServerTLS :: "string + string \<Rightarrow> string + string \<Rightarrow> bool \<Rightarrow> string + tls_config" where
  "loadServerTLS cert caPEM appended = (case cert of
     Inl err \<Rightarrow> Inl err
   | Inr c \<Rightarrow> (case caPEM of
       Inl err \<Rightarrow> Inl err
     | Inr pem \<Rightarrow>
         if \<not> appended then Inl ''tls: empty ca PEM''
         else Inr \<lparr>Certificates = [c], ClientCAs = Some pem, ClientAuth = RequireAndVerifyClientCert, RootCAs = None,
                   ServerName = [], VerifiesRelay = False, MinVersion = VersionTLS13\<rparr>))"

datatype controller_creds = InsecureCreds | TLSCreds tls_config

definition controllerCreds :: "bool \<Rightarrow> tls_config option \<Rightarrow> string + controller_creds" where
  "controllerCreds enableTLS serverConf =
     (if \<not> enableTLS then Inr InsecureCreds
      else case serverConf of
        None \<Rightarrow> Inl ''relay: -controller-tls requires -cert/-key/-ca to be set''
      | Some c \<Rightarrow> Inr (TLSCreds (c\<lparr>ClientCAs := None, ClientAuth := NoClientCert, RootCAs := ClientCAs c,
                                   ServerName := ''localhost''\<rparr>)))"

definition intraTLS :: "tls_config \<Rightarrow> tls_config" where
  "intraTLS c = c\<lparr>ClientCAs := None, ClientAuth := NoClientCert, RootCAs := ClientCAs c, ServerName := ''localhost'',
     VerifiesRelay := True\<rparr>"

text \<open>The URIs of a certificate can be nil pointers.\<close>

record url =
  Scheme :: string
  url_Path :: string

definition relay_url :: "url option \<Rightarrow> bool" where
  "relay_url u = (case u of
     None \<Rightarrow> False
   | Some u \<Rightarrow> Scheme u = ''outrelay'' \<and> length (url_Path u) > length ''/relay/'' \<and>
               take (length ''/relay/'') (url_Path u) = ''/relay/'')"

text \<open>\<open>True\<close> is a nil error. A chain is the list of its certificates, leaf first.\<close>

definition verifyPeerIsRelay :: "url option list list list \<Rightarrow> bool" where
  "verifyPeerIsRelay vchains = (case vchains of
     (leaf # _) # _ \<Rightarrow> list_ex relay_url leaf
   | _ \<Rightarrow> False)"

section \<open>Logging\<close>

datatype slog_Level = LevelDebug | LevelInfo | LevelWarn | LevelError

definition parseLogLevel :: "string \<Rightarrow> slog_Level" where
  "parseLogLevel s =
     (if s = ''debug'' then LevelDebug else if s = ''warn'' then LevelWarn
      else if s = ''error'' then LevelError else LevelInfo)"

datatype slog_Handler = JSONHandler slog_Level | TextHandler slog_Level

definition newLogger :: "string \<Rightarrow> string \<Rightarrow> slog_Handler" where
  "newLogger format level = (if format = ''json'' then JSONHandler (parseLogLevel level) else TextHandler (parseLogLevel level))"

section \<open>Start\<close>

record flags =
  fl_listen :: string
  fl_listenTCP :: string
  fl_listenForward :: string
  fl_certPath :: string
  fl_keyPath :: string
  fl_caPath :: string
  fl_controller :: string
  fl_controllerTLS :: bool
  fl_relayID :: string
  fl_region :: string
  fl_advertise :: string
  fl_heartbeat :: duration
  fl_drainOnSignal :: bool
  fl_drainTo :: string
  fl_drainTimeout :: duration
  fl_tenant :: string
  fl_debugListen :: string
  fl_metricsDump :: string
  fl_metricsInterval :: duration
  fl_logFormat :: string
  fl_logLevel :: string
  fl_showVersion :: bool

definition default_flags :: flags where
  "default_flags = \<lparr>fl_listen = ''127.0.0.1:7443'', fl_listenTCP = [], fl_listenForward = [], fl_certPath = [], fl_keyPath = [],
     fl_caPath = [], fl_controller = ''127.0.0.1:7444'', fl_controllerTLS = False, fl_relayID = [], fl_region = ''local'', fl_advertise = [],
     fl_heartbeat = DefaultHeartbeatPeriod, fl_drainOnSignal = True, fl_drainTo = [], fl_drainTimeout = 10 * Second,
     fl_tenant = [], fl_debugListen = ''127.0.0.1:9100'', fl_metricsDump = [], fl_metricsInterval = 10 * Second,
     fl_logFormat = ''text'', fl_logLevel = ''info'', fl_showVersion = False\<rparr>"

text \<open>The outcomes of the calls \<open>main\<close> makes, in their order: loading the TLS files, making the gRPC client,
  the first \<open>UpsertRelay\<close>, resolving and binding the forwarding address, and binding the TCP listener.\<close>

record start_io =
  io_tls :: "string + tls_config"
  io_client :: bool
  io_upsert :: "string + RelayInstance list"
  io_resolve :: "string option"
  io_bind :: "string option"
  io_tcp :: bool

record process =
  pr_srv :: Server
  pr_heartbeat :: Heartbeat
  pr_drain :: DrainDefaults
  pr_creds :: controller_creds
  pr_intra :: tls_config

definition relay_name :: "flags \<Rightarrow> string" where
  "relay_name f = (if fl_relayID f = [] then fl_listen f else fl_relayID f)"

definition advertised :: "flags \<Rightarrow> endpoint" where
  "advertised f = (if fl_advertise f = [] then fl_listen f else fl_advertise f)"

text \<open>Up to the registration: the exit code, or the TLS configuration, the credentials and the fleet.\<close>

definition main_register :: "flags \<Rightarrow> start_io \<Rightarrow> nat + tls_config \<times> controller_creds \<times> RelayInstance list" where
  "main_register f io =
     (if fl_showVersion f then Inl 0
      else if fl_certPath f = [] \<or> fl_keyPath f = [] \<or> fl_caPath f = [] then Inl 2
      else case io_tls io of
        Inl err \<Rightarrow> Inl 1
      | Inr tlsConf \<Rightarrow> (case controllerCreds (fl_controllerTLS f) (Some tlsConf) of
          Inl err \<Rightarrow> Inl 1
        | Inr creds \<Rightarrow>
            if \<not> io_client io then Inl 1
            else (case io_upsert io of
               Inl err \<Rightarrow> Inl 1
             | Inr fleet \<Rightarrow> Inr (tlsConf, creds, fleet))))"

text \<open>The server and what is around it.\<close>

definition main_server :: "sort_func \<Rightarrow> flags \<Rightarrow> RelayInstance list \<Rightarrow> Plane option \<Rightarrow> Server" where
  "main_server SortFunc f fleet forwardPlane =
     (let enforce = fl_tenant f \<noteq> [] in
      SetSuccessors (Successors SortFunc (relay_name f) (fl_region f) fleet)
        (edge_New (Registry_New (relay_name f) (fl_region f))
           (if enforce then Some NewEngine else None) (if enforce then Some NewCache else None)
           (if enforce then Some NewEmitter else None) (Some NewPool)
           forwardPlane True))"

definition main_heartbeat :: "flags \<Rightarrow> Heartbeat" where
  "main_heartbeat f = OnSuccessors 0 (NewHeartbeat (relay_name f) (fl_region f) (advertised f) (fl_heartbeat f))"

definition main_drain :: "flags \<Rightarrow> DrainDefaults" where
  "main_drain f = \<lparr>dd_Targets = splitEndpoints (fl_drainTo f), dd_Reason = ''drain'', dd_Deadline = fl_drainTimeout f\<rparr>"

text \<open>The goroutines \<open>main\<close> starts before it runs the accept loop itself.\<close>

datatype goroutine =
    GoWatcher string
  | GoAudit
  | GoDumper string duration
  | GoPlane
  | GoHeartbeat
  | GoDebug string
  | GoSignal
  | GoListenTCP string

definition main_early :: "flags \<Rightarrow> goroutine list" where
  "main_early f = (if fl_tenant f \<noteq> [] then [GoWatcher (fl_tenant f), GoAudit] else []) @
     (if fl_metricsDump f \<noteq> [] then [GoDumper (fl_metricsDump f) (fl_metricsInterval f)] else [])"

definition main_forward :: "flags \<Rightarrow> start_io \<Rightarrow> string + Plane option" where
  "main_forward f io =
     (if fl_listenForward f = [] then Inr None
      else map_sum id Some (openPlane (fl_listenForward f) (io_resolve io) (io_bind io)))"

text \<open>All of \<open>main\<close> up to the accept loop: the goroutines started, and the exit code or the running process.\<close>

definition main_run :: "sort_func \<Rightarrow> flags \<Rightarrow> start_io \<Rightarrow> goroutine list \<times> (nat + process)" where
  "main_run SortFunc f io = (case main_register f io of
     Inl code \<Rightarrow> ([], Inl code)
   | Inr (tlsConf, creds, fleet) \<Rightarrow> (case main_forward f io of
       Inl err \<Rightarrow> (main_early f, Inl 1)
     | Inr forwardPlane \<Rightarrow>
         let gs = main_early f @ (if forwardPlane \<noteq> None then [GoPlane] else []) @ [GoHeartbeat] @
                  (if fl_debugListen f \<noteq> [] then [GoDebug (fl_debugListen f)] else []) @ [GoSignal]
         in if fl_listenTCP f \<noteq> [] \<and> \<not> io_tcp io then (gs, Inl 1)
            else (gs @ (if fl_listenTCP f \<noteq> [] then [GoListenTCP (fl_listenTCP f)] else []),
              Inr \<lparr>pr_srv = main_server SortFunc f fleet forwardPlane, pr_heartbeat = main_heartbeat f, pr_drain = main_drain f,
                   pr_creds = creds, pr_intra = intraTLS tlsConf\<rparr>)))"

definition main_start :: "sort_func \<Rightarrow> flags \<Rightarrow> start_io \<Rightarrow> nat + process" where
  "main_start SortFunc f io = snd (main_run SortFunc f io)"

text \<open>The exit status of the process; \<open>None\<close> while its accept loop runs. An error of \<open>Run\<close> never is the end of the
  context, which \<open>Run\<close> turns into nil.\<close>

definition main_exit :: "sort_func \<Rightarrow> flags \<Rightarrow> start_io \<Rightarrow> string option \<Rightarrow> (ctx_err + conn_io) list \<Rightarrow> nat option" where
  "main_exit SortFunc f io listenErr accepts = (case main_start SortFunc f io of
     Inl code \<Rightarrow> Some code
   | Inr p \<Rightarrow> (case server_Run listenErr accepts of (conns, res, closed) \<Rightarrow>
       map_option (\<lambda>err. if err = None then 0 else 1) res))"

text \<open>The debug endpoint: the pattern \<open>/debug/drain\<close> is the more specific one.\<close>

datatype debug_reply = DebugMux | DrainReply nat

definition debug_handler :: "(string \<Rightarrow> duration option) \<Rightarrow> flags \<Rightarrow> string \<Rightarrow> http_request \<Rightarrow>
    debug_reply \<times> (endpoint list \<times> string \<times> duration) option" where
  "debug_handler ParseDuration f path r =
     (if path = ''/debug/drain''
      then (case DrainHandler ParseDuration (main_drain f) r of (code, call) \<Rightarrow> (DrainReply code, call))
      else (DebugMux, None))"

text \<open>The signal goroutine over what it receives; the result says whether it started a drain and whether it
  cancelled the context.\<close>

datatype sig_event = SigReceived | DrainDone

fun on_signal :: "bool \<Rightarrow> sig_event list \<Rightarrow> bool \<times> bool" where
  "on_signal drainOnSignal [] = (False, False)"
| "on_signal drainOnSignal (DrainDone # evs) = on_signal drainOnSignal evs"
| "on_signal drainOnSignal (SigReceived # evs) = (if \<not> drainOnSignal then (False, True) else (True, evs \<noteq> []))"

section \<open>Behaviour\<close>

text \<open>The two derived client configurations trust exactly the CA whose certificates the server accepts, keep
  the relay's own certificate and TLS 1.3, and only the one for peers checks for a relay.\<close>

lemma derived_tls:
  assumes "loadServerTLS cert caPEM appended = Inr c"
  shows "RootCAs (intraTLS c) = ClientCAs c" "Certificates (intraTLS c) = Certificates c" "MinVersion (intraTLS c) = VersionTLS13"
    "VerifiesRelay (intraTLS c)"
    "controllerCreds True (Some c) = Inr (TLSCreds ((intraTLS c)\<lparr>VerifiesRelay := False\<rparr>))"
  using assms by (auto simp: loadServerTLS_def intraTLS_def controllerCreds_def split: sum.splits if_splits)

lemma relay_url_iff:
  "relay_url u \<longleftrightarrow> (\<exists>i. i \<noteq> [] \<and> u = Some \<lparr>Scheme = ''outrelay'', url_Path = ''/relay/'' @ i\<rparr>)"
proof
  assume "relay_url u"
  then obtain v where v: "u = Some v" "Scheme v = ''outrelay''" "length (url_Path v) > 7" "take 7 (url_Path v) = ''/relay/''"
    by (auto simp: relay_url_def numeral_eq_Suc split: option.splits)
  have "url_Path v = ''/relay/'' @ drop 7 (url_Path v)" by (metis append_take_drop_id v(4))
  moreover have "v = \<lparr>Scheme = Scheme v, url_Path = url_Path v\<rparr>" by simp
  ultimately show "\<exists>i. i \<noteq> [] \<and> u = Some \<lparr>Scheme = ''outrelay'', url_Path = ''/relay/'' @ i\<rparr>"
    using v by (metis drop_eq_Nil not_less)
next
  assume "\<exists>i. i \<noteq> [] \<and> u = Some \<lparr>Scheme = ''outrelay'', url_Path = ''/relay/'' @ i\<rparr>"
  then show "relay_url u" by (auto simp: relay_url_def)
qed

text \<open>A peer is taken for a relay exactly if its verified leaf names one.\<close>

lemma verifyPeerIsRelay_iff:
  "verifyPeerIsRelay vchains \<longleftrightarrow> (\<exists>leaf rest others i. vchains = (leaf # rest) # others \<and> i \<noteq> [] \<and>
     Some \<lparr>Scheme = ''outrelay'', url_Path = ''/relay/'' @ i\<rparr> \<in> set leaf)"
  by (auto simp: verifyPeerIsRelay_def list_ex_iff relay_url_iff split: list.splits)

lemma NewPlane_TTLs: "\<exists>d d'. NewPlane = SetIdleTTL d (SetPendingTTL d' NewPlane)"
  by (auto simp: SetIdleTTL_def SetPendingTTL_def NewPlane_def)

lemma main_forward_cases:
  assumes "main_forward f io = Inr fp"
  shows "fp = (if fl_listenForward f = [] then None else Some NewPlane)"
  using assms by (auto simp: main_forward_def openPlane_def map_sum_def split: if_splits option.splits sum.splits)

lemma main_start_process:
  assumes "main_start SortFunc f io = Inr p"
  obtains tlsConf creds fleet where "io_tls io = Inr tlsConf" "io_upsert io = Inr fleet"
    "controllerCreds (fl_controllerTLS f) (Some tlsConf) = Inr creds"
    "p = \<lparr>pr_srv = main_server SortFunc f fleet (if fl_listenForward f = [] then None else Some NewPlane),
          pr_heartbeat = main_heartbeat f, pr_drain = main_drain f, pr_creds = creds, pr_intra = intraTLS tlsConf\<rparr>"
    "set (fst (main_run SortFunc f io)) \<supseteq> {GoHeartbeat, GoSignal}"
    "fl_tenant f \<noteq> [] \<Longrightarrow> GoWatcher (fl_tenant f) \<in> set (fst (main_run SortFunc f io)) \<and> GoAudit \<in> set (fst (main_run SortFunc f io))"
    "GoPlane \<in> set (fst (main_run SortFunc f io)) \<longleftrightarrow> fl_listenForward f \<noteq> []"
  using assms
  by (auto simp: main_start_def main_run_def main_register_def main_early_def Let_def dest!: main_forward_cases
      split: sum.splits if_splits prod.splits)

section \<open>The exit status\<close>

lemma main_register_codes: "main_register f io = Inl code \<Longrightarrow> code = 0 \<longleftrightarrow> fl_showVersion f"
  by (auto simp: main_register_def split: if_splits sum.splits)

lemma main_start_codes: "main_start SortFunc f io = Inl code \<Longrightarrow> code = 0 \<longleftrightarrow> fl_showVersion f"
  using main_register_codes [of f io]
  by (auto simp: main_start_def main_run_def main_register_def Let_def split: sum.splits if_splits)

lemma server_Run_nil:
  "fst (snd (server_Run listenErr rs)) = Some None \<longleftrightarrow>
     listenErr = None \<and> (\<exists>conns e rs'. rs = map Inr conns @ Inl e # rs' \<and> e \<in> {Canceled, DeadlineExceeded})"
proof -
  have "snd (accept_loop rs) = Some None \<longleftrightarrow> (\<exists>conns e rs'. rs = map Inr conns @ Inl e # rs' \<and> e \<in> {Canceled, DeadlineExceeded})"
  proof
    assume "snd (accept_loop rs) = Some None"
    then show "\<exists>conns e rs'. rs = map Inr conns @ Inl e # rs' \<and> e \<in> {Canceled, DeadlineExceeded}"
    proof (induction rs rule: accept_loop.induct)
      case (5 conn rs)
      then obtain conns e rs' where "rs = map Inr conns @ Inl e # rs'" "e \<in> {Canceled, DeadlineExceeded}" by (auto split: prod.splits)
      then show ?case by (intro exI [of _ "conn # conns"]) simp
    qed (auto intro: exI [of _ "[]"])
  qed (auto simp: accept_loop_fails)
  then show ?thesis by (auto simp: server_Run_def split: option.split prod.splits)
qed

text \<open>The exit status is zero exactly for a request for the version and for an orderly end: everything
  started, the listener was bound, and its loop ended with the context.\<close>

lemma main_exit_zero:
  "main_exit SortFunc f io listenErr rs = Some 0 \<longleftrightarrow> fl_showVersion f \<or>
     (\<exists>p. main_start SortFunc f io = Inr p) \<and> listenErr = None \<and>
     (\<exists>conns e rs'. rs = map Inr conns @ Inl e # rs' \<and> e \<in> {Canceled, DeadlineExceeded})"
proof (cases "main_start SortFunc f io")
  case (Inl code)
  then show ?thesis using main_start_codes [OF Inl] by (simp add: main_exit_def)
next
  case (Inr p)
  then have "\<not> fl_showVersion f" by (auto simp: main_start_def main_run_def main_register_def)
  then show ?thesis
    using server_Run_nil [of listenErr rs] Inr
    by (cases "server_Run listenErr rs") (auto simp: main_exit_def split: option.splits)
qed

end
