(* ===== verification/EdgeRelays.thy ===== *)
theory EdgeRelays
  imports EdgePeer
begin

text \<open>
  The relocation invariant that \<open>pkg/edge/edge.go\<close> states at \<open>Server.successors\<close>: before any byte of a stream
  flows, both halves hold the same list of relays to fall back to. An agent learns the list of a
  stream from INCOMING_STREAM, STREAM_READY and ALLOC_GRANTED, and the last one counts. The list of
  the server may change whenever the handler blocks.
\<close>

section \<open>The list an agent holds\<close>

fun relays_in :: "AgentConn \<Rightarrow> u64 \<Rightarrow> effect \<Rightarrow> endpoint list option" where
  "relays_in a i (WriteCtrl c t (M_StreamReady j rs)) = (if c = a \<and> j = i then Some rs else None)"
| "relays_in a i (WriteCtrl c t (M_AllocGranted g)) = (if c = a \<and> ag_StreamId g = i then Some (ag_ResumeRelays g) else None)"
| "relays_in a i (OpenIncomingStream c (M_IncomingStream m)) =
     (if c = a \<and> is_StreamId m = i then Some (is_ResumeRelays m) else None)"
| "relays_in a i e = None"

fun relays_held :: "AgentConn \<Rightarrow> u64 \<Rightarrow> effect list \<Rightarrow> endpoint list option" where
  "relays_held a i [] = None"
| "relays_held a i (e # es) = (case relays_held a i es of Some rs \<Rightarrow> Some rs | None \<Rightarrow> relays_in a i e)"

lemma relays_held_append:
  "relays_held a i (es @ es') = (case relays_held a i es' of Some rs \<Rightarrow> Some rs | None \<Rightarrow> relays_held a i es)"
  by (induction es) (auto split: option.split)

lemma relays_held_close: "relays_held a i (es @ [CloseStream x, CloseStream y]) = relays_held a i es"
  by (simp add: relays_held_append)

lemma cs_ack_relays:
  assumes "cs_ack env now caller l ack okC okP s = Some (s', es, ph)" and "ph \<noteq> CS_exit"
    and "i = os_StreamId (cl_open l)"
  shows "relays_held caller i es = Some (sv_successors s)"
    and "LookupAgent (ac_uri (cl_prov l)) (sv_reg s) = Some p \<Longrightarrow> relays_held p i es = Some (sv_successors s)"
  using assms
  by (auto simp: cs_ack_def cs_forward_def cs_leave_eq granted_def Let_def
      split: sum.splits option.splits if_splits prod.splits RelayMode.splits)

lemma cs_data_relays:
  "cs_spliced l n s = (s', es, ph) \<Longrightarrow> relays_held a i es = None"
  "cs_forwarded l x y s = (s', es, ph) \<Longrightarrow> relays_held a i es = None"
  by (auto simp: cs_spliced_def cs_forwarded_def cs_leave_eq)

lemma cs_incoming_relays:
  assumes "cs_incoming caller l res s = (s', es, CS_waitAck l)"
  shows "relays_held (cl_prov l) (os_StreamId (cl_open l)) es = Some (sv_successors s)"
  using assms
  by (auto simp: cs_incoming_def OpenIncoming_def cs_return_def rejectConsumer_eq Let_def
      split: open_result.splits if_splits prod.splits bool.splits)

text \<open>The phases before the answer leave the registry alone.\<close>

lemma server_evaluate_reg [simp]: "sv_reg (snd (server_evaluate env now e c t m s)) = sv_reg s"
  by (simp add: server_evaluate_def split: option.split prod.split)

lemma recordAudit_reg [simp]: "sv_reg (recordAudit env now c t m r s) = sv_reg s"
  by (simp add: recordAudit_def split: option.split)

lemma cs_first_reg: "cs_first env now c fr s = (s', es, ph) \<Longrightarrow> sv_reg s' = sv_reg s"
  using server_evaluate_reg
  by (auto simp: cs_first_def cs_openstream_def cs_caller_checked_def cs_return_def rejectConsumer_eq Let_def
      split: sum.splits option.splits message.splits prod.splits if_splits) (metis server_evaluate_reg bump_simps(1) snd_conv)+

lemma cs_callee_reg: "cs_callee env now c os p2p relay prov s = (s', es, ph) \<Longrightarrow> sv_reg s' = sv_reg s"
  by (auto simp: cs_callee_def cs_callee_checked_def cs_return_def rejectConsumer_eq Let_def
      split: option.splits prod.splits if_splits) (metis server_evaluate_reg snd_conv)+

lemma cs_incoming_reg: "cs_incoming c l res s = (s', es, ph) \<Longrightarrow> sv_reg s' = sv_reg s"
  by (auto simp: cs_incoming_def cs_return_def rejectConsumer_eq recordPair_def Let_def
      split: prod.splits if_splits bool.splits option.splits)

definition data_phase :: "cs_locals \<Rightarrow> cs_phase \<Rightarrow> bool" where
  "data_phase l ph \<longleftrightarrow> ph = CS_splicing l \<or> (\<exists>a b. ph = CS_forwarding l a b)"

lemma run_reaches_data:
  assumes "handleConsumerStream env io caller s = Some (s', es, phs)" and "ph \<in> set phs" and "data_phase l ph"
  obtains os p2p relay x1 x2 x3 x4 es3 es4 es5 where
    "cs_first env (ci_now1 io) caller (ci_first io) (ci_others io 0 (cs_begin s)) = (x1, [], CS_resolving os p2p relay)"
    "cs_resolve env (ci_now2 io) caller os p2p relay (ci_others io 1 x1) = (x2, [], CS_opening l)"
    "cs_incoming caller l (ci_open io) (ci_others io 2 x2) = (x3, es3, CS_waitAck l)"
    "cs_ack env (ci_now3 io) caller l (ci_ack io) (ci_okC io) (ci_okP io) (ci_others io 3 x3) = Some (x4, es4, ph)"
    "es = es3 @ es4 @ es5" "\<And>a i. relays_held a i es5 = None"
  using handleConsumerStream_run [OF assms(1)]
proof cases
  case (run_first ph1)
  then show ?thesis
    using assms(2,3) cs_first_phase [of env "ci_now1 io" caller "ci_first io" _ s' es ph1] by (auto simp: data_phase_def)
next
  case (run_resolve x1 os p2p relay s1 ph2)
  then show ?thesis
    using assms(2,3) cs_resolve_phase [of env "ci_now2 io" caller os p2p relay s1 s' es ph2] by (auto simp: data_phase_def)
next
  case (run_splice x1 os p2p relay s1 x2 l' s2 x3 es3 s3 x4 es4 s4 es5)
  then have "l' = l" "ph = CS_splicing l" using assms(2,3) by (auto simp: data_phase_def)
  with run_splice that [of x1 os p2p relay x2 x3 es3 x4 es4 es5] cs_data_relays(1) show ?thesis by blast
next
  case (run_forward x1 os p2p relay s1 x2 l' s2 x3 es3 s3 x4 es4 a b s4 es5)
  then have "l' = l" "ph = CS_forwarding l a b" using assms(2,3) by (auto simp: data_phase_def)
  with run_forward that [of x1 os p2p relay x2 x3 es3 x4 es4 es5] cs_data_relays(2) show ?thesis by blast
qed (use assms(2,3) in \<open>auto simp: data_phase_def\<close>)

section \<open>Properties\<close>


text \<open>A run in which the server's list changes while the handler waits for the provider's answer, on a relay where
  the provider stays, and on one where it leaves.\<close>

definition moving_io :: consumer_io where
  "moving_io = demo_io\<lparr>ci_others := (\<lambda>k x. if k = 3 then SetSuccessors [''s:2''] x else x)\<rparr>"

definition leaving_io :: consumer_io where
  "leaving_io = demo_io\<lparr>ci_others := (\<lambda>k x. if k = 3 then (SetSuccessors [''s:2''] x)\<lparr>sv_reg := fst (UnregisterAgent (en_Parse demo_env) ''b'' (sv_reg x))\<rparr> else x)\<rparr>"

definition effects_of :: "cs_run option \<Rightarrow> effect list" where
  "effects_of r = (case r of None \<Rightarrow> [] | Some (_, es, _) \<Rightarrow> es)"

lemma moving_phases:
  "phases_of (handleConsumerStream demo_env moving_io demo_c (demo_server RelayModeSplice)) =
     [CS_resolving demo_open P2PModeAllowed RelayModeSplice, CS_opening (demo_l RelayModeSplice),
      CS_waitAck (demo_l RelayModeSplice), CS_splicing (demo_l RelayModeSplice), CS_exit]"
  by code_simp


text \<open>A provider that is no longer registered when it has answered is not told the list the consumer gets.\<close>

lemma leaving_provider_stale:
  "relays_held demo_c 7 (effects_of (handleConsumerStream demo_env leaving_io demo_c (demo_server RelayModeSplice))) = Some [''s:2''] \<and>
   relays_held demo_p 7 (effects_of (handleConsumerStream demo_env leaving_io demo_c (demo_server RelayModeSplice))) = Some [''s:1'']"
  by code_simp

text \<open>Across relays the consumer is told no list at all, and the provider that of its own relay.\<close>

lemma forward_effects_relays [simp]: "relays_held a i (forward_effects r) = None"
  by (auto simp: forward_effects_def split: option.split)

lemma peer_consumer_no_relays: "forwardToPeer io c os remote s = Some (s', es) \<Longrightarrow> relays_held a i es = None"
  by (auto simp: forwardToPeer_def rejectConsumer_eq relays_held_append Let_def split: option.splits sum.splits prod.splits if_splits)

lemma peer_provider_relays:
  assumes "Resolve (en_Parse env) (en_ctrl env) (is_SourceAgentUri ins) (is_TargetService ins) (sv_reg s) = (Some prov, None, None)"
    and "fi_open io = Opened"
  shows "relays_held prov (is_StreamId ins) (snd (forwarded_open env io ins s)) = Some (sv_successors s)"
  using assms
  by (auto simp: forwarded_open_def OpenIncoming_def forwarded_answer_def writeStreamReject_def Let_def split: prod.splits bool.splits)

end
