(* ===== verification/Splice.thy ===== *)
theory Splice
  imports Prelude "HOL-Library.Sublist"
begin

text \<open>
  The byte pump between two streams (\<open>pkg/splice/splice.go\<close>). A stream is outside the repository:
  what its \<open>Read\<close> calls return is a script of chunks with an optional error, what its \<open>Write\<close>
  calls return a script of accepted byte counts with an optional error. A call beyond the end of a
  script blocks for ever, which is the value \<open>None\<close>.
\<close>

section \<open>The code\<close>

definition BufferSize :: nat where
  "BufferSize = 64 * 1024"

definition AbortCode :: u64 where
  "AbortCode = 0x0A"

datatype io_err = io_EOF | io_ErrShortWrite | io_errInvalidWrite | io_error string

type_synonym read_script = "(byte list \<times> io_err option) list"
type_synonym write_script = "(nat \<times> io_err option) list"

text \<open>
  The loop of \<open>io.CopyBuffer\<close>: read, write what was read, stop at the first write error, short write
  or read error; the end of file is no error. The result is the bytes the destination accepted and
  the error. A read that returns no bytes and no error is repeated.
\<close>

fun CopyBuffer :: "read_script \<Rightarrow> write_script \<Rightarrow> (byte list \<times> io_err option) option" where
  "CopyBuffer [] ws = None"
| "CopyBuffer ((buf, er) # rs) ws =
     (if buf = [] then
        (case er of None \<Rightarrow> CopyBuffer rs ws
         | Some e \<Rightarrow> Some ([], if e = io_EOF then None else Some e))
      else case ws of
        [] \<Rightarrow> None
      | (nw, ew) # ws' \<Rightarrow>
          if length buf < nw then Some ([], Some (case ew of None \<Rightarrow> io_errInvalidWrite | Some e \<Rightarrow> e))
          else (case ew of
             Some e \<Rightarrow> Some (take nw buf, Some e)
           | None \<Rightarrow>
               if nw < length buf then Some (take nw buf, Some io_ErrShortWrite)
               else (case er of
                  Some e \<Rightarrow> Some (buf, if e = io_EOF then None else Some e)
                | None \<Rightarrow> map_option (\<lambda>(out, err). (buf @ out, err)) (CopyBuffer rs ws'))))"

text \<open>What the destination supports (the two type assertions) and what is done to it at the end.\<close>

record stream_caps =
  is_Aborter :: bool
  is_HalfCloser :: bool

datatype end_action = CloseWrite | CancelWrite u64 | CancelRead u64

definition copy_end :: "stream_caps \<Rightarrow> byte list \<times> io_err option \<Rightarrow> byte list \<times> io_err option \<times> end_action list" where
  "copy_end dst r = (case r of (out, err) \<Rightarrow>
     if err = None \<or> err = Some io_EOF
     then (out, None, if is_HalfCloser dst then [CloseWrite] else [])
     else (out, err,
       if is_Aborter dst then [CancelWrite AbortCode, CancelRead AbortCode]
       else if is_HalfCloser dst then [CloseWrite] else []))"

definition copyOne :: "stream_caps \<Rightarrow> read_script \<Rightarrow> write_script \<Rightarrow> (byte list \<times> io_err option \<times> end_action list) option" where
  "copyOne dst rs ws = map_option (copy_end dst) (CopyBuffer rs ws)"

text \<open>
  \<open>Bidirectional\<close> collects the two results in the order in which the goroutines finish;
  \<open>ab_first\<close> says that the direction from \<open>a\<close> to \<open>b\<close> is first.
\<close>

definition collect :: "int \<times> io_err option \<Rightarrow> int \<times> io_err option \<Rightarrow> int \<times> io_err option" where
  "collect r1 r2 = (fst r1 + fst r2, case snd r1 of Some e \<Rightarrow> Some e | None \<Rightarrow> snd r2)"

definition Bidirectional :: "bool \<Rightarrow> (byte list \<times> io_err option \<times> end_action list) option \<Rightarrow>
    (byte list \<times> io_err option \<times> end_action list) option \<Rightarrow> (int \<times> io_err option) option" where
  "Bidirectional ab_first ab ba = (case (ab, ba) of
     (Some (out1, err1, _), Some (out2, err2, _)) \<Rightarrow>
       let r1 = (int (length out1), err1); r2 = (int (length out2), err2)
       in Some (if ab_first then collect r1 r2 else collect r2 r1)
   | _ \<Rightarrow> None)"

section \<open>The copy loop\<close>

abbreviation sent :: "read_script \<Rightarrow> byte list" where
  "sent rs \<equiv> concat (map fst rs)"

lemma prefix_take_append: "prefix (take n xs) (xs @ ys)"
  by (metis take_is_prefix prefix_def append.assoc)

text \<open>The destination receives a prefix of what the source sent: nothing is reordered, repeated or
  made up.\<close>

lemma CopyBuffer_prefix: "CopyBuffer rs ws = Some (out, err) \<Longrightarrow> prefix out (sent rs)"
proof (induction rs ws arbitrary: out err rule: CopyBuffer.induct)
  case (2 buf er rs ws)
  then show ?case
    by (auto simp: prefix_take_append split: if_splits option.splits list.splits)
qed simp

text \<open>
  A source that ends: the last read returns an error, or the end of file, and the earlier ones do
  not. A writer is well behaved if it never accepts more than it was offered and never reports an
  end of file.
\<close>

fun ends_with :: "io_err \<Rightarrow> read_script \<Rightarrow> bool" where
  "ends_with e [] = False"
| "ends_with e [(buf, er)] = (er = Some e)"
| "ends_with e ((buf, er) # rs) = (er = None \<and> ends_with e rs)"

lemma ends_with_Cons: "ends_with e ((buf, er) # rs) \<longleftrightarrow> (if rs = [] then er = Some e else er = None \<and> ends_with e rs)"
  by (cases rs) auto

lemma CopyBuffer_clean:
  assumes "CopyBuffer rs ws = Some (out, None)" and "ends_with e rs"
  shows "e = io_EOF \<and> out = sent rs"
  using assms
proof (induction rs ws arbitrary: out rule: CopyBuffer.induct)
  case (2 buf er rs ws)
  then show ?case
    by (auto simp: ends_with_Cons split: if_splits option.splits list.splits)
qed simp

lemma CopyBuffer_not_EOF:
  assumes "CopyBuffer rs ws = Some (out, Some io_EOF)"
  shows "\<exists>nw. (nw, Some io_EOF) \<in> set ws"
  using assms
proof (induction rs ws arbitrary: out rule: CopyBuffer.induct)
  case (2 buf er rs ws)
  then show ?case
    by (auto split: if_splits option.splits list.splits)
qed simp

text \<open>The loop ends: an ending source and enough write results give a result.\<close>

lemma CopyBuffer_ends:
  "ends_with e rs \<Longrightarrow> length rs \<le> length ws \<Longrightarrow> \<exists>r. CopyBuffer rs ws = Some r"
proof (induction rs ws rule: CopyBuffer.induct)
  case (2 buf er rs ws)
  then show ?case
    by (cases ws) (fastforce simp: ends_with_Cons split: if_splits option.splits)+
qed simp

section \<open>Properties\<close>

text \<open>A clean end of stream is only ever signalled after a complete copy. When the source's reads end,
  the copy towards a QUIC stream ends; the destination has then accepted a prefix of the source's
  bytes. It sees the FIN exactly if the copy had no error, in which case the source finished and
  every byte was accepted; otherwise it sees both directions reset with the abort code.\<close>

lemma copyOne_fin_is_complete:
  assumes "ends_with e rs" and "length rs \<le> length ws" and "\<nexists>nw. (nw, Some io_EOF) \<in> set ws"
    and "is_Aborter dst" and "is_HalfCloser dst"
  shows "\<exists>out err acts. copyOne dst rs ws = Some (out, err, acts) \<and> prefix out (sent rs) \<and>
    (err = None \<and> acts = [CloseWrite] \<and> e = io_EOF \<and> out = sent rs \<or>
     err \<noteq> None \<and> acts = [CancelWrite AbortCode, CancelRead AbortCode])"
proof -
  obtain out err where c: "CopyBuffer rs ws = Some (out, err)" using CopyBuffer_ends [OF assms(1,2)] by auto
  have "err \<noteq> Some io_EOF" using CopyBuffer_not_EOF [of rs ws out] assms(3) c by auto
  moreover have "e = io_EOF \<and> out = sent rs" if "err = None"
    using CopyBuffer_clean [of rs ws out e] c assms(1) that by simp
  ultimately show ?thesis
    using CopyBuffer_prefix [OF c] assms(4,5) c by (auto simp: copyOne_def copy_end_def)
qed

lemma copyOne_fin_is_complete_witness:
  "\<exists>out err acts. copyOne \<lparr>is_Aborter = True, is_HalfCloser = True\<rparr> [([1, 2], None), ([3], Some io_EOF)] [(2, None), (1, None)] =
      Some (out, err, acts) \<and> prefix out [1, 2, 3] \<and>
    (err = None \<and> acts = [CloseWrite] \<and> io_EOF = io_EOF \<and> out = [1, 2, 3] \<or>
     err \<noteq> None \<and> acts = [CancelWrite AbortCode, CancelRead AbortCode])"
  using copyOne_fin_is_complete [of io_EOF "[([1, 2], None), ([3], Some io_EOF)]" "[(2, None), (1, None)]"
      "\<lparr>is_Aborter = True, is_HalfCloser = True\<rparr>"] by simp

text \<open>The result of \<open>Bidirectional\<close> does not depend on which direction finishes first, except for which
  of two errors is reported: the total is the sum of both directions and there is no error exactly
  if neither direction had one.\<close>

lemma Bidirectional_order:
  "Bidirectional ab_first (Some (out1, err1, acts1)) (Some (out2, err2, acts2)) = Some (n, err) \<longleftrightarrow>
     n = int (length out1 + length out2) \<and>
     err = (if ab_first then (if err1 = None then err2 else err1) else (if err2 = None then err1 else err2))"
  by (auto simp: Bidirectional_def collect_def split: option.splits)

end
