(* ===== verification/SplicePool.thy ===== *)
theory SplicePool
  imports Splice
begin

text \<open>
  The buffers of the splices (\<open>bufPool\<close> and \<open>copyOne\<close>, \<open>pkg/splice/splice.go\<close>). All directions of all splices
  draw their copy buffer from one pool, so a buffer that carried one stream's bytes later carries
  another's. Here any number of copies run interleaved over a shared heap of buffers, one step per
  \<open>Get\<close>, \<open>Read\<close>, \<open>Write\<close> and \<open>Put\<close>, and every copy is shown to do what \<open>copyOne\<close> does alone.
\<close>

section \<open>The code\<close>

text \<open>Where a copy is: before \<open>Get\<close>, at its \<open>Read\<close>, at its \<open>Write\<close> of the first \<open>n\<close> bytes of the buffer with the read's
  error in hand, past the loop, and past \<open>Put\<close>.\<close>

datatype copy_pc =
    CP_start
  | CP_read nat
  | CP_write nat nat "io_err option"
  | CP_ended nat "io_err option"
  | CP_done "io_err option"

record copy_state =
  cp_pc :: copy_pc
  cp_reads :: read_script
  cp_writes :: write_script
  cp_out :: "byte list"

record splice_sys =
  sp_heap :: "nat \<Rightarrow> byte list"
  sp_free :: "nat set"
  sp_next :: nat
  sp_copy :: "nat \<Rightarrow> copy_state"

text \<open>\<open>bufPool.New\<close>.\<close>

definition new_buffer :: "byte list" where
  "new_buffer = replicate BufferSize 0"

text \<open>What the loop of \<open>CopyBuffer\<close> does with the outcome of a read into buffer \<open>b\<close> and of a write from it.\<close>

definition after_read :: "nat \<Rightarrow> nat \<Rightarrow> io_err option \<Rightarrow> copy_pc" where
  "after_read b nr er =
     (if 0 < nr then CP_write b nr er
      else case er of None \<Rightarrow> CP_read b | Some e \<Rightarrow> CP_ended b (if e = io_EOF then None else Some e))"

definition after_write :: "nat \<Rightarrow> nat \<Rightarrow> io_err option \<Rightarrow> nat \<Rightarrow> io_err option \<Rightarrow> nat \<times> copy_pc" where
  "after_write b nr er nw ew =
     (if nr < nw then (0, CP_ended b (Some (case ew of None \<Rightarrow> io_errInvalidWrite | Some e \<Rightarrow> e)))
      else (nw, case ew of
         Some e \<Rightarrow> CP_ended b (Some e)
       | None \<Rightarrow>
           if nr \<noteq> nw then CP_ended b (Some io_ErrShortWrite)
           else (case er of None \<Rightarrow> CP_read b | Some e \<Rightarrow> CP_ended b (if e = io_EOF then None else Some e))))"

text \<open>
  A step of copy \<open>g\<close>, or of the garbage collector, which may empty the pool. \<open>Read\<close> puts its bytes at the
  front of the buffer and may use the rest as scratch space; \<open>Write\<close> takes its bytes from the heap.
\<close>

inductive splice_step :: "splice_sys \<Rightarrow> splice_sys \<Rightarrow> bool" where
  sp_get: "cp_pc (sp_copy s g) = CP_start \<Longrightarrow> b \<in> sp_free s \<Longrightarrow>
    splice_step s (s\<lparr>sp_free := sp_free s - {b}, sp_copy := (sp_copy s)(g := (sp_copy s g)\<lparr>cp_pc := CP_read b\<rparr>)\<rparr>)"
| sp_get_new: "cp_pc (sp_copy s g) = CP_start \<Longrightarrow> b = sp_next s \<Longrightarrow>
    splice_step s (s\<lparr>sp_heap := (sp_heap s)(b := new_buffer), sp_next := Suc b,
      sp_copy := (sp_copy s)(g := (sp_copy s g)\<lparr>cp_pc := CP_read b\<rparr>)\<rparr>)"
| sp_gc: "splice_step s (s\<lparr>sp_free := sp_free s - B\<rparr>)"
| sp_Read: "cp_pc (sp_copy s g) = CP_read b \<Longrightarrow> cp_reads (sp_copy s g) = (data, er) # rs \<Longrightarrow>
    length h = length (sp_heap s b) \<Longrightarrow> take (length data) h = data \<Longrightarrow>
    splice_step s (s\<lparr>sp_heap := (sp_heap s)(b := h),
      sp_copy := (sp_copy s)(g := (sp_copy s g)\<lparr>cp_reads := rs, cp_pc := after_read b (length data) er\<rparr>)\<rparr>)"
| sp_Write: "cp_pc (sp_copy s g) = CP_write b nr er \<Longrightarrow> cp_writes (sp_copy s g) = (nw, ew) # ws \<Longrightarrow>
    after_write b nr er nw ew = (n, pc) \<Longrightarrow>
    splice_step s (s\<lparr>sp_copy := (sp_copy s)(g := (sp_copy s g)\<lparr>cp_writes := ws, cp_pc := pc,
      cp_out := cp_out (sp_copy s g) @ take n (take nr (sp_heap s b))\<rparr>)\<rparr>)"
| sp_put: "cp_pc (sp_copy s g) = CP_ended b err \<Longrightarrow>
    splice_step s (s\<lparr>sp_free := insert b (sp_free s), sp_copy := (sp_copy s)(g := (sp_copy s g)\<lparr>cp_pc := CP_done err\<rparr>)\<rparr>)"

text \<open>Copy \<open>g\<close> reads the script \<open>R g\<close> and writes against the script \<open>W g\<close>.\<close>

definition splice_init :: "(nat \<Rightarrow> read_script) \<Rightarrow> (nat \<Rightarrow> write_script) \<Rightarrow> splice_sys \<Rightarrow> bool" where
  "splice_init R W s \<longleftrightarrow> sp_free s = {} \<and> sp_next s = 0 \<and>
     (\<forall>g. sp_copy s g = \<lparr>cp_pc = CP_start, cp_reads = R g, cp_writes = W g, cp_out = []\<rparr>)"

abbreviation splice_reach :: "(nat \<Rightarrow> read_script) \<Rightarrow> (nat \<Rightarrow> write_script) \<Rightarrow> splice_sys \<Rightarrow> bool" where
  "splice_reach R W \<equiv> reach (splice_init R W) splice_step"

section \<open>Ownership of the buffers\<close>

fun held :: "copy_pc \<Rightarrow> nat option" where
  "held CP_start = None"
| "held (CP_read b) = Some b"
| "held (CP_write b nr er) = Some b"
| "held (CP_ended b err) = Some b"
| "held (CP_done err) = None"

text \<open>A buffer is free, held by one copy, or not allocated yet.\<close>

definition owned :: "splice_sys \<Rightarrow> bool" where
  "owned s \<longleftrightarrow> (\<forall>b \<in> sp_free s. b < sp_next s) \<and>
     (\<forall>g b. held (cp_pc (sp_copy s g)) = Some b \<longrightarrow> b < sp_next s \<and> b \<notin> sp_free s \<and>
        (\<forall>g'. held (cp_pc (sp_copy s g')) = Some b \<longrightarrow> g' = g))"

lemma held_after_read [simp]: "held (after_read b nr er) = Some b"
  by (simp add: after_read_def split: option.split)

lemma held_after_write: "after_write b nr er nw ew = (n, pc) \<Longrightarrow> held pc = Some b"
  by (auto simp: after_write_def split: if_splits option.splits)

lemma owned_held:
  assumes "owned s" and "held (cp_pc (sp_copy s g)) = Some b"
  shows "b < sp_next s" "b \<notin> sp_free s"
  using assms unfolding owned_def by blast+

lemma owned_free: "owned s \<Longrightarrow> b \<in> sp_free s \<Longrightarrow> b < sp_next s"
  by (simp add: owned_def)

lemma owned_unique: "owned s \<Longrightarrow> held (cp_pc (sp_copy s g)) = Some b \<Longrightarrow> held (cp_pc (sp_copy s g')) = Some b \<Longrightarrow> g' = g"
  unfolding owned_def by blast

text \<open>A step that moves copy \<open>g\<close> keeps the ownership if \<open>g\<close> keeps its buffer, gives it up, or takes one nobody has.\<close>

lemma owned_move:
  assumes o: "owned s" and t: "sp_copy t = (sp_copy s)(g := c)" and n: "sp_next s \<le> sp_next t"
    and free: "\<And>b. b \<in> sp_free t \<Longrightarrow> b < sp_next t \<and> (b \<in> sp_free s \<or> held (cp_pc (sp_copy s g)) = Some b)"
    and mine: "\<And>b. held (cp_pc c) = Some b \<Longrightarrow> b < sp_next t \<and> b \<notin> sp_free t \<and>
      (held (cp_pc (sp_copy s g)) = Some b \<or> b \<in> sp_free s \<or> sp_next s \<le> b)"
  shows "owned t"
proof -
  have other: "b < sp_next t \<and> b \<notin> sp_free t \<and> held (cp_pc c) \<noteq> Some b" if k: "held (cp_pc (sp_copy s k)) = Some b" "k \<noteq> g" for k b
  proof -
    have "held (cp_pc (sp_copy s g)) \<noteq> Some b" using owned_unique [OF o k(1), of g] k(2) by blast
    then show ?thesis using owned_held [OF o k(1)] n free [of b] mine [of b] by auto
  qed
  have mine_t: "held (cp_pc (sp_copy t g)) = held (cp_pc c)" and other_t: "\<And>k. k \<noteq> g \<Longrightarrow> sp_copy t k = sp_copy s k" by (simp_all add: t)
  have "b < sp_next t \<and> b \<notin> sp_free t" if "held (cp_pc (sp_copy t k)) = Some b" for k b
    using that mine [of b] mine_t other_t [of k] other [of k b] by (cases "k = g") simp_all
  moreover have "k' = k" if "held (cp_pc (sp_copy t k)) = Some b" and "held (cp_pc (sp_copy t k')) = Some b" for k k' b
  proof (rule ccontr)
    assume "k' \<noteq> k"
    then consider "k = g" "k' \<noteq> g" | "k' = g" "k \<noteq> g" | "k \<noteq> g" "k' \<noteq> g" by blast
    then show False
    proof cases
      case 1 then show False using that mine_t other_t [of k'] other [of k' b] by simp
    next
      case 2 then show False using that mine_t other_t [of k] other [of k b] by simp
    next
      case 3 then show False using that other_t [of k] other_t [of k'] owned_unique [OF o, of k b k'] \<open>k' \<noteq> k\<close> by simp
    qed
  qed
  moreover have "\<forall>b \<in> sp_free t. b < sp_next t" using free by simp
  ultimately show ?thesis unfolding owned_def by blast
qed

lemma splice_step_owned: "splice_step s t \<Longrightarrow> owned s \<Longrightarrow> owned t"
proof (induction rule: splice_step.induct)
  case (sp_get s g b)
  show ?case by (rule owned_move [OF sp_get(3), where g = g]) (use sp_get owned_free [OF sp_get(3)] in auto)
next
  case (sp_get_new s g b)
  have "sp_next s \<notin> sp_free s" using owned_free [OF sp_get_new(3), of "sp_next s"] by blast
  then show ?case
    by (intro owned_move [OF sp_get_new(3), where g = g]) (use sp_get_new owned_free [OF sp_get_new(3)] in \<open>auto simp: less_SucI\<close>)
next
  case (sp_gc s B)
  then show ?case by (simp add: owned_def)
next
  case (sp_Read s g b data er rs h)
  have "b < sp_next s" "b \<notin> sp_free s" using owned_held [OF sp_Read(5), of g b] sp_Read(1) by simp_all
  then show ?case
    by (intro owned_move [OF sp_Read(5), where g = g]) (use sp_Read(1) owned_free [OF sp_Read(5)] in auto)
next
  case (sp_Write s g b nr er nw ew ws n pc)
  have "b < sp_next s" "b \<notin> sp_free s" using owned_held [OF sp_Write(4), of g b] sp_Write(1) by simp_all
  then show ?case
    by (intro owned_move [OF sp_Write(4), where g = g])
      (use sp_Write(1) owned_free [OF sp_Write(4)] held_after_write [OF sp_Write(3)] in auto)
next
  case (sp_put s g b err)
  have "b < sp_next s" using owned_held [OF sp_put(2), of g b] sp_put(1) by simp
  then show ?case
    by (intro owned_move [OF sp_put(2), where g = g]) (use sp_put(1) owned_free [OF sp_put(2)] in auto)
qed

section \<open>Every copy refines \<open>copyOne\<close>\<close>

text \<open>What the rest of a copy will produce, read off its local state and the heap.\<close>

definition after_out :: "byte list \<Rightarrow> (byte list \<times> io_err option) option \<Rightarrow> (byte list \<times> io_err option) option" where
  "after_out out r = map_option (apfst ((@) out)) r"

fun continue :: "(nat \<Rightarrow> byte list) \<Rightarrow> read_script \<Rightarrow> write_script \<Rightarrow> copy_pc \<Rightarrow> (byte list \<times> io_err option) option" where
  "continue h rs ws CP_start = CopyBuffer rs ws"
| "continue h rs ws (CP_read b) = CopyBuffer rs ws"
| "continue h rs ws (CP_write b nr er) = CopyBuffer ((take nr (h b), er) # rs) ws"
| "continue h rs ws (CP_ended b err) = Some ([], err)"
| "continue h rs ws (CP_done err) = Some ([], err)"

fun pc_ok :: "(nat \<Rightarrow> byte list) \<Rightarrow> copy_pc \<Rightarrow> bool" where
  "pc_ok h (CP_write b nr er) = (0 < nr \<and> nr \<le> length (h b))"
| "pc_ok h _ = True"

text \<open>All it read has been written, but for what is in its buffer.\<close>

fun in_order :: "byte list \<Rightarrow> (nat \<Rightarrow> byte list) \<Rightarrow> byte list \<Rightarrow> read_script \<Rightarrow> copy_pc \<Rightarrow> bool" where
  "in_order all h out rs CP_start = (all = out @ sent rs)"
| "in_order all h out rs (CP_read b) = (all = out @ sent rs)"
| "in_order all h out rs (CP_write b nr er) = (all = out @ take nr (h b) @ sent rs)"
| "in_order all h out rs (CP_ended b err) = prefix out all"
| "in_order all h out rs (CP_done err) = prefix out all"

definition on_course :: "read_script \<Rightarrow> write_script \<Rightarrow> (nat \<Rightarrow> byte list) \<Rightarrow> copy_state \<Rightarrow> bool" where
  "on_course rs ws h c \<longleftrightarrow> pc_ok h (cp_pc c) \<and> in_order (sent rs) h (cp_out c) (cp_reads c) (cp_pc c) \<and>
     after_out (cp_out c) (continue h (cp_reads c) (cp_writes c) (cp_pc c)) = CopyBuffer rs ws"

lemma after_out_simps [simp]:
  "after_out out None = None" "after_out out (Some (xs, err)) = Some (out @ xs, err)"
  "after_out [] r = r" "after_out out (after_out out' r) = after_out (out @ out') r"
  by (cases r; simp add: after_out_def apfst_def map_prod_def split: prod.split)+

lemma continue_read:
  assumes "take (length data) (h b) = data"
  shows "continue h rs ws (after_read b (length data) er) = CopyBuffer ((data, er) # rs) ws"
    and "pc_ok h (after_read b (length data) er)"
    and "all = out @ data @ sent rs \<Longrightarrow> in_order all h out rs (after_read b (length data) er)"
proof -
  have "length data \<le> length (h b)" using assms by (metis length_take min.cobounded1)
  then show "continue h rs ws (after_read b (length data) er) = CopyBuffer ((data, er) # rs) ws"
    and "pc_ok h (after_read b (length data) er)"
    and "all = out @ data @ sent rs \<Longrightarrow> in_order all h out rs (after_read b (length data) er)"
    using assms by (auto simp: after_read_def split: option.split)
qed

lemma continue_write:
  assumes "after_write b nr er nw ew = (n, pc)" and "0 < nr" and "nr \<le> length (h b)"
  shows "after_out (take n (take nr (h b))) (continue h rs ws pc) = CopyBuffer ((take nr (h b), er) # rs) ((nw, ew) # ws)"
    and "pc_ok h pc"
    and "all = out @ take nr (h b) @ sent rs \<Longrightarrow> in_order all h (out @ take n (take nr (h b))) rs pc"
proof -
  have l: "length (take nr (h b)) = nr" using assms(3) by simp
  then have ne: "take nr (h b) \<noteq> []" using assms(2) by (metis list.size(3) less_irrefl)
  have ao: "map_option (\<lambda>(out, err). (xs @ out, err)) r = after_out xs r" for xs r
    by (cases r) (auto simp: after_out_def)
  show "after_out (take n (take nr (h b))) (continue h rs ws pc) = CopyBuffer ((take nr (h b), er) # rs) ((nw, ew) # ws)"
    using assms(1) ne l by (auto simp: after_write_def ao split: if_splits option.splits)
  show "pc_ok h pc" using assms(1) by (auto simp: after_write_def split: if_splits option.splits)
  have pre: "prefix (out @ take m xs) (out @ xs @ ys)" for m and xs ys :: "byte list"
    by (simp add: prefix_take_append)
  show "in_order all h (out @ take n (take nr (h b))) rs pc" if "all = out @ take nr (h b) @ sent rs"
    using assms(1,3) pre [of n "take nr (h b)" "sent rs"] l unfolding that
    by (auto simp: after_write_def simp del: take_take split: if_splits option.splits)
qed

lemma on_course_read:
  assumes "on_course rs0 ws0 h c" and "cp_pc c = CP_read b" and "cp_reads c = (data, er) # rs" and "take (length data) (h' b) = data"
  shows "on_course rs0 ws0 h' (c\<lparr>cp_reads := rs, cp_pc := after_read b (length data) er\<rparr>)"
proof -
  have "after_out (cp_out c) (CopyBuffer ((data, er) # rs) (cp_writes c)) = CopyBuffer rs0 ws0"
    using assms(1-3) by (simp del: CopyBuffer.simps add: on_course_def)
  then show ?thesis
    using continue_read [where h = h', OF assms(4)] assms(1-3) by (simp del: CopyBuffer.simps add: on_course_def)
qed

lemma on_course_write:
  assumes "on_course rs0 ws0 h c" and "cp_pc c = CP_write b nr er" and "cp_writes c = (nw, ew) # ws"
    and "after_write b nr er nw ew = (n, pc)"
  shows "on_course rs0 ws0 h (c\<lparr>cp_writes := ws, cp_pc := pc, cp_out := cp_out c @ take n (take nr (h b))\<rparr>)"
proof -
  have ok: "0 < nr" "nr \<le> length (h b)" using assms(1,2) by (simp_all add: on_course_def)
  have "after_out (cp_out c @ take n (take nr (h b))) (continue h (cp_reads c) ws pc) =
      after_out (cp_out c) (after_out (take n (take nr (h b))) (continue h (cp_reads c) ws pc))"
    by (rule after_out_simps(4) [symmetric])
  also have "\<dots> = after_out (cp_out c) (CopyBuffer ((take nr (h b), er) # cp_reads c) ((nw, ew) # ws))"
    by (simp only: continue_write(1) [where h = h, OF assms(4) ok])
  also have "\<dots> = CopyBuffer rs0 ws0" using assms(1-3) by (simp del: CopyBuffer.simps add: on_course_def)
  finally show ?thesis using continue_write(2) [where h = h, OF assms(4) ok] continue_write(3) [where h = h, OF assms(4) ok] assms(1,2)
    by (simp del: CopyBuffer.simps take_take add: on_course_def)
qed

text \<open>A copy does not notice what happens to the buffers of others.\<close>

lemma on_course_frame: "on_course rs ws h c \<Longrightarrow> (\<And>b. held (cp_pc c) = Some b \<Longrightarrow> h' b = h b) \<Longrightarrow> on_course rs ws h' c"
  by (cases "cp_pc c") (auto simp: on_course_def)

definition splice_inv :: "(nat \<Rightarrow> read_script) \<Rightarrow> (nat \<Rightarrow> write_script) \<Rightarrow> splice_sys \<Rightarrow> bool" where
  "splice_inv R W s \<longleftrightarrow> owned s \<and> (\<forall>b < sp_next s. length (sp_heap s b) = BufferSize) \<and> (\<forall>g. on_course (R g) (W g) (sp_heap s) (sp_copy s g))"

lemma splice_inv_move:
  assumes "splice_inv R W s" and "owned t" and "sp_copy t = (sp_copy s)(g := c)"
    and "\<And>b. sp_heap t b \<noteq> sp_heap s b \<Longrightarrow> held (cp_pc (sp_copy s g)) = Some b \<or> sp_next s \<le> b"
    and "on_course (R g) (W g) (sp_heap s) (sp_copy s g) \<Longrightarrow> on_course (R g) (W g) (sp_heap t) c"
    and "(\<And>b. b < sp_next s \<Longrightarrow> length (sp_heap s b) = BufferSize) \<Longrightarrow> (\<And>b. b < sp_next t \<Longrightarrow> length (sp_heap t b) = BufferSize)"
  shows "splice_inv R W t"
proof -
  have "on_course (R k) (W k) (sp_heap t) (sp_copy t k)" for k
  proof (cases "k = g")
    case True
    then show ?thesis using assms(1,3,5) by (simp add: splice_inv_def)
  next
    case False
    have o: "owned s" using assms(1) by (simp add: splice_inv_def)
    have "sp_heap t b = sp_heap s b" if "held (cp_pc (sp_copy s k)) = Some b" for b
      using assms(4) [of b] owned_held(1) [OF o that] owned_unique [OF o that, of g] False by auto
    then show ?thesis
      using False assms(1,3) on_course_frame [of "R k" "W k" "sp_heap s" "sp_copy s k" "sp_heap t"]
      by (simp add: splice_inv_def)
  qed
  then show ?thesis using assms(1,2,6) by (simp add: splice_inv_def)
qed

lemma splice_inv_owned: "splice_inv R W s \<Longrightarrow> owned s"
  by (simp add: splice_inv_def)

lemma splice_step_inv: "splice_step s t \<Longrightarrow> splice_inv R W s \<Longrightarrow> splice_inv R W t"
proof (induction rule: splice_step.induct)
  case (sp_get s g b)
  show ?case
    by (rule splice_inv_move [OF sp_get(3) splice_step_owned [OF splice_step.sp_get [OF sp_get(1,2)] splice_inv_owned [OF sp_get(3)]],
        where g = g and c = "(sp_copy s g)\<lparr>cp_pc := CP_read b\<rparr>"])
      (use sp_get(1) in \<open>simp_all add: on_course_def\<close>)
next
  case (sp_get_new s g b)
  show ?case
    by (rule splice_inv_move [OF sp_get_new(3) splice_step_owned [OF splice_step.sp_get_new [OF sp_get_new(1,2)] splice_inv_owned [OF sp_get_new(3)]],
        where g = g and c = "(sp_copy s g)\<lparr>cp_pc := CP_read b\<rparr>"])
      (use sp_get_new(1,2) in \<open>simp_all add: on_course_def new_buffer_def split: if_splits\<close>)
next
  case (sp_gc s B)
  then show ?case using splice_step_owned [OF splice_step.sp_gc] by (simp add: splice_inv_def)
next
  case (sp_Read s g b data er rs h)
  let ?c = "(sp_copy s g)\<lparr>cp_reads := rs, cp_pc := after_read b (length data) er\<rparr>"
  have "on_course (R g) (W g) ((sp_heap s)(b := h)) ?c" if "on_course (R g) (W g) (sp_heap s) (sp_copy s g)"
    by (rule on_course_read [OF that sp_Read(1,2)]) (simp add: sp_Read(4))
  then show ?case
    by (intro splice_inv_move [OF sp_Read(5) splice_step_owned [OF splice_step.sp_Read [OF sp_Read(1-4)] splice_inv_owned [OF sp_Read(5)]],
        where g = g and c = ?c]) (use sp_Read(1,3) in \<open>simp_all split: if_splits\<close>)
next
  case (sp_Write s g b nr er nw ew ws n pc)
  let ?c = "(sp_copy s g)\<lparr>cp_writes := ws, cp_pc := pc, cp_out := cp_out (sp_copy s g) @ take n (take nr (sp_heap s b))\<rparr>"
  have "on_course (R g) (W g) (sp_heap s) ?c" if "on_course (R g) (W g) (sp_heap s) (sp_copy s g)"
    by (rule on_course_write [OF that sp_Write(1-3)])
  then show ?case
    by (intro splice_inv_move [OF sp_Write(4) splice_step_owned [OF splice_step.sp_Write [OF sp_Write(1-3)] splice_inv_owned [OF sp_Write(4)]],
        where g = g and c = ?c]) simp_all
next
  case (sp_put s g b err)
  show ?case
    by (rule splice_inv_move [OF sp_put(2) splice_step_owned [OF splice_step.sp_put [OF sp_put(1)] splice_inv_owned [OF sp_put(2)]],
        where g = g and c = "(sp_copy s g)\<lparr>cp_pc := CP_done err\<rparr>"])
      (use sp_put(1) in \<open>simp_all add: on_course_def\<close>)
qed

interpretation splice_system: inductive_invariant "splice_init R W" splice_step "splice_inv R W" for R W
proof
  show "splice_init R W s \<Longrightarrow> splice_inv R W s" for s
    by (simp add: splice_init_def splice_inv_def owned_def on_course_def)
qed (rule splice_step_inv)

section \<open>Every copy ends\<close>

fun pc_rank :: "copy_pc \<Rightarrow> nat" where
  "pc_rank CP_start = 5"
| "pc_rank (CP_read b) = 3"
| "pc_rank (CP_write b nr er) = 4"
| "pc_rank (CP_ended b err) = 1"
| "pc_rank (CP_done err) = 0"

definition copy_measure :: "copy_state \<Rightarrow> nat" where
  "copy_measure c = 2 * length (cp_reads c) + pc_rank (cp_pc c)"

definition reads_fit :: "read_script \<Rightarrow> bool" where
  "reads_fit rs \<longleftrightarrow> list_all (\<lambda>(data, er). length data \<le> BufferSize) rs"

lemma rank_after_read: "pc_rank (after_read b nr er) \<le> 4"
  by (simp add: after_read_def split: option.split)

lemma rank_after_write: "after_write b nr er nw ew = (n, pc) \<Longrightarrow> pc_rank pc \<le> 3"
  by (auto simp: after_write_def split: if_splits option.splits)

text \<open>Unless it waits for its streams, a copy can step, and each of its steps takes it closer to the end.\<close>

lemma copy_progress:
  assumes inv: "splice_inv R W s" and r: "CopyBuffer (R g) (W g) = Some r" and fit: "reads_fit (cp_reads (sp_copy s g))"
    and pc: "pc_rank (cp_pc (sp_copy s g)) \<noteq> 0"
  shows "\<exists>t. splice_step s t \<and> copy_measure (sp_copy t g) < copy_measure (sp_copy s g) \<and> reads_fit (cp_reads (sp_copy t g))"
proof -
  let ?c = "sp_copy s g"
  have on: "on_course (R g) (W g) (sp_heap s) ?c" using inv by (simp add: splice_inv_def)
  then have go: "continue (sp_heap s) (cp_reads ?c) (cp_writes ?c) (cp_pc ?c) \<noteq> None" using r by (cases "continue (sp_heap s) (cp_reads ?c) (cp_writes ?c) (cp_pc ?c)") (simp_all add: on_course_def)
  show ?thesis
  proof (cases "cp_pc ?c")
    case CP_start
    show ?thesis by (rule exI, rule conjI [OF sp_get_new [OF CP_start refl]]) (use fit CP_start in \<open>simp add: copy_measure_def\<close>)
  next
    case (CP_read b)
    then obtain data er rs where rs: "cp_reads ?c = (data, er) # rs"
      using go by (cases "cp_reads ?c") auto
    have "b < sp_next s" using owned_held [OF splice_inv_owned [OF inv], of g b] CP_read by simp
    then have l: "length data \<le> length (sp_heap s b)" using inv fit rs by (simp add: splice_inv_def reads_fit_def)
    have st: "splice_step s (s\<lparr>sp_heap := (sp_heap s)(b := data @ drop (length data) (sp_heap s b)),
        sp_copy := (sp_copy s)(g := ?c\<lparr>cp_reads := rs, cp_pc := after_read b (length data) er\<rparr>)\<rparr>)"
      using l by (intro sp_Read [OF CP_read rs]) simp_all
    show ?thesis
      by (rule exI, rule conjI [OF st])
        (use fit rs CP_read rank_after_read [of b "length data" er] in \<open>simp add: copy_measure_def reads_fit_def\<close>)
  next
    case (CP_write b nr er)
    have "0 < nr" "nr \<le> length (sp_heap s b)" using on CP_write by (simp_all add: on_course_def)
    then have "take nr (sp_heap s b) \<noteq> []" by (cases "sp_heap s b") auto
    then obtain nw ew ws where ws: "cp_writes ?c = (nw, ew) # ws" using go CP_write by (cases "cp_writes ?c") auto
    obtain n pc where aw: "after_write b nr er nw ew = (n, pc)" by fastforce
    show ?thesis
      by (rule exI, rule conjI [OF sp_Write [OF CP_write ws aw]])
        (use fit CP_write rank_after_write [OF aw] in \<open>simp add: copy_measure_def\<close>)
  next
    case (CP_ended b err)
    show ?thesis by (rule exI, rule conjI [OF sp_put [OF CP_ended]]) (use fit CP_ended in \<open>simp add: copy_measure_def\<close>)
  next
    case (CP_done err)
    then show ?thesis using pc by simp
  qed
qed

lemma copy_reaches_end:
  assumes "splice_reach R W s" and "CopyBuffer (R g) (W g) = Some r" and "reads_fit (cp_reads (sp_copy s g))"
  shows "\<exists>t. splice_reach R W t \<and> splice_step\<^sup>*\<^sup>* s t \<and> pc_rank (cp_pc (sp_copy t g)) = 0"
  using assms(1,3)
proof (induction "copy_measure (sp_copy s g)" arbitrary: s rule: less_induct)
  case less
  show ?case
  proof (cases "pc_rank (cp_pc (sp_copy s g)) = 0")
    case False
    from copy_progress [OF splice_system.reach_inv [OF less.prems(1)] assms(2) less.prems(2) False]
    obtain t where t: "splice_step s t" "copy_measure (sp_copy t g) < copy_measure (sp_copy s g)" "reads_fit (cp_reads (sp_copy t g))"
      by blast
    from less.hyps [OF t(2) reach_step [OF less.prems(1) t(1)] t(3)] t(1) show ?thesis
      by (meson converse_rtranclp_into_rtranclp)
  qed (use less.prems in blast)
qed

section \<open>Properties\<close>

text \<open>C14: the shared buffers never mix streams. However any number of copies interleave over the pool, what a
  copy has written is the beginning of what its own source sent, and when it is done its output,
  its error and what it signals to its destination are those of \<open>copyOne\<close> on its own streams. And it does
  get done: as soon as the streams let \<open>copyOne\<close> end, the copy's own steps lead there from any reachable state.\<close>

theorem splice_copies_isolated:
  assumes "splice_reach R W s"
  shows "prefix (cp_out (sp_copy s g)) (sent (R g)) \<and>
    (\<forall>err. cp_pc (sp_copy s g) = CP_done err \<longrightarrow>
       copyOne dst (R g) (W g) = Some (copy_end dst (cp_out (sp_copy s g), err))) \<and>
    (copyOne dst (R g) (W g) \<noteq> None \<and> reads_fit (cp_reads (sp_copy s g)) \<longrightarrow>
       (\<exists>t err. splice_step\<^sup>*\<^sup>* s t \<and> splice_reach R W t \<and> cp_pc (sp_copy t g) = CP_done err))"
proof (intro conjI allI impI)
  have on: "on_course (R g) (W g) (sp_heap s) (sp_copy s g)"
    using splice_system.reach_inv [OF assms] by (simp add: splice_inv_def)
  then show "prefix (cp_out (sp_copy s g)) (sent (R g))"
    by (cases "cp_pc (sp_copy s g)") (auto simp: on_course_def)
  show "copyOne dst (R g) (W g) = Some (copy_end dst (cp_out (sp_copy s g), err))" if pc: "cp_pc (sp_copy s g) = CP_done err" for err
  proof -
    have "CopyBuffer (R g) (W g) = Some (cp_out (sp_copy s g), err)" using on pc by (simp add: on_course_def)
    then show ?thesis by (simp add: copyOne_def)
  qed
  assume "copyOne dst (R g) (W g) \<noteq> None \<and> reads_fit (cp_reads (sp_copy s g))"
  then obtain r where r: "CopyBuffer (R g) (W g) = Some r" and fit: "reads_fit (cp_reads (sp_copy s g))" by (auto simp: copyOne_def)
  from copy_reaches_end [OF assms r fit] obtain t where t: "splice_reach R W t" "splice_step\<^sup>*\<^sup>* s t" "pc_rank (cp_pc (sp_copy t g)) = 0"
    by blast
  then show "\<exists>t err. splice_step\<^sup>*\<^sup>* s t \<and> splice_reach R W t \<and> cp_pc (sp_copy t g) = CP_done err"
    by (cases "cp_pc (sp_copy t g)") auto
qed

definition demo_reads :: "nat \<Rightarrow> read_script" where
  "demo_reads g = [([of_nat g, 7], None), ([of_nat g], Some io_EOF)]"

definition demo_writes :: "nat \<Rightarrow> write_script" where
  "demo_writes g = [(2, None), (1, None)]"

definition demo_splices :: splice_sys where
  "demo_splices = \<lparr>sp_heap = (\<lambda>b. []), sp_free = {}, sp_next = 0,
     sp_copy = (\<lambda>g. \<lparr>cp_pc = CP_start, cp_reads = demo_reads g, cp_writes = demo_writes g, cp_out = []\<rparr>)\<rparr>"

text \<open>Two copies, one after the other brought to its end.\<close>

theorem splice_copies_isolated_witness:
  "\<exists>t err. splice_reach demo_reads demo_writes t \<and> cp_pc (sp_copy t 1) = CP_done err \<and>
     prefix (cp_out (sp_copy t 0)) [0, 7, 0] \<and>
     copyOne \<lparr>is_Aborter = True, is_HalfCloser = True\<rparr> (demo_reads 1) (demo_writes 1) =
       Some (copy_end \<lparr>is_Aborter = True, is_HalfCloser = True\<rparr> (cp_out (sp_copy t 1), err))"
proof -
  let ?dst = "\<lparr>is_Aborter = True, is_HalfCloser = True\<rparr>"
  have init: "splice_reach demo_reads demo_writes demo_splices"
    by (rule reach_init) (simp add: splice_init_def demo_splices_def)
  have fit: "reads_fit (cp_reads (sp_copy demo_splices 1))" by (simp add: demo_splices_def demo_reads_def reads_fit_def BufferSize_def)
  have "copyOne ?dst (demo_reads 1) (demo_writes 1) \<noteq> None" by (simp add: copyOne_def demo_reads_def demo_writes_def)
  then obtain t err where t: "splice_reach demo_reads demo_writes t" "cp_pc (sp_copy t 1) = CP_done err"
    using splice_copies_isolated [OF init, of 1 ?dst] fit by blast
  show ?thesis
    using splice_copies_isolated [OF t(1), of 1 ?dst] splice_copies_isolated [OF t(1), of 0 ?dst] t
    by (intro exI [of _ t] exI [of _ err]) (simp add: demo_reads_def)
qed

end
