(* ===== verification/SpliceDuplex.thy ===== *)
theory SpliceDuplex
  imports Splice
begin

text \<open>
  \<open>Bidirectional\<close> (\<open>pkg/splice/splice.go\<close>) as the two concurrent copies it starts, on the two streams they share:
  what one direction does to its destination when it ends is what the other direction meets at its
  source. The streams are outside the repository. What a \<open>Read\<close> and a \<open>Write\<close> may return on a stream, given
  what the relay has done to the stream before, are the parameters \<open>reads\<close> and \<open>writes\<close>; a call for which
  there is no result blocks.
\<close>

section \<open>The code\<close>

datatype peer = StreamA | StreamB

datatype dir = AtoB | BtoA

fun source :: "dir \<Rightarrow> peer" where
  "source AtoB = StreamA"
| "source BtoA = StreamB"

fun dest :: "dir \<Rightarrow> peer" where
  "dest AtoB = StreamB"
| "dest BtoA = StreamA"

fun other :: "dir \<Rightarrow> dir" where
  "other AtoB = BtoA"
| "other BtoA = AtoB"

text \<open>Where a direction is: in \<open>Read\<close>, in \<open>Write\<close> with a chunk and the error that came with it, or past \<open>copyOne\<close>.\<close>

datatype dir_pc = DP_read | DP_write "byte list" "io_err option" | DP_done "io_err option"

text \<open>\<open>dx_acts\<close> is what was done to each stream; \<open>dx_res\<close> is \<open>resCh\<close>. The results of the calls made so far are ghosts.\<close>

record duplex =
  dx_pc :: "dir \<Rightarrow> dir_pc"
  dx_out :: "dir \<Rightarrow> byte list"
  dx_acts :: "peer \<Rightarrow> end_action list"
  dx_res :: "(dir \<times> int \<times> io_err option) list"
  dx_reads :: "dir \<Rightarrow> read_script"
  dx_writes :: "dir \<Rightarrow> write_script"

definition duplex_start :: duplex where
  "duplex_start = \<lparr>dx_pc = (\<lambda>_. DP_read), dx_out = (\<lambda>_. []), dx_acts = (\<lambda>_. []), dx_res = [],
     dx_reads = (\<lambda>_. []), dx_writes = (\<lambda>_. [])\<rparr>"

type_synonym read_contract = "peer \<Rightarrow> end_action list \<Rightarrow> byte list \<times> io_err option \<Rightarrow> bool"
type_synonym write_contract = "peer \<Rightarrow> end_action list \<Rightarrow> nat \<times> io_err option \<Rightarrow> bool"

text \<open>The end of \<open>copyOne\<close> and the send of its result.\<close>

definition finish :: "(peer \<Rightarrow> stream_caps) \<Rightarrow> dir \<Rightarrow> io_err option \<Rightarrow> duplex \<Rightarrow> duplex" where
  "finish caps d err s = (case copy_end (caps (dest d)) (dx_out s d, err) of (out, err', acts) \<Rightarrow>
     s\<lparr>dx_pc := (dx_pc s)(d := DP_done err'), dx_acts := (dx_acts s)(dest d := dx_acts s (dest d) @ acts),
       dx_res := dx_res s @ [(d, int (length out), err')]\<rparr>)"

definition read_err :: "io_err \<Rightarrow> io_err option" where
  "read_err e = (if e = io_EOF then None else Some e)"

text \<open>The loop of \<open>io.CopyBuffer\<close> after a \<open>Read\<close> and after a \<open>Write\<close>.\<close>

definition got :: "(peer \<Rightarrow> stream_caps) \<Rightarrow> dir \<Rightarrow> byte list \<Rightarrow> io_err option \<Rightarrow> duplex \<Rightarrow> duplex" where
  "got caps d buf er s =
     (let s1 = s\<lparr>dx_reads := (dx_reads s)(d := dx_reads s d @ [(buf, er)])\<rparr> in
      if buf \<noteq> [] then s1\<lparr>dx_pc := (dx_pc s)(d := DP_write buf er)\<rparr>
      else case er of None \<Rightarrow> s1 | Some e \<Rightarrow> finish caps d (read_err e) s1)"

definition put :: "(peer \<Rightarrow> stream_caps) \<Rightarrow> dir \<Rightarrow> byte list \<Rightarrow> io_err option \<Rightarrow> nat \<Rightarrow> io_err option \<Rightarrow> duplex \<Rightarrow> duplex" where
  "put caps d buf er nw ew s =
     (let s1 = s\<lparr>dx_writes := (dx_writes s)(d := dx_writes s d @ [(nw, ew)])\<rparr>;
          accept = (\<lambda>bs. s1\<lparr>dx_out := (dx_out s)(d := dx_out s d @ bs)\<rparr>)
      in if length buf < nw then finish caps d (Some (case ew of None \<Rightarrow> io_errInvalidWrite | Some e \<Rightarrow> e)) s1
         else case ew of
           Some e \<Rightarrow> finish caps d (Some e) (accept (take nw buf))
         | None \<Rightarrow>
             if nw < length buf then finish caps d (Some io_ErrShortWrite) (accept (take nw buf))
             else (case er of
                Some e \<Rightarrow> finish caps d (read_err e) (accept buf)
              | None \<Rightarrow> (accept buf)\<lparr>dx_pc := (dx_pc s)(d := DP_read)\<rparr>))"

inductive duplex_step :: "(peer \<Rightarrow> stream_caps) \<Rightarrow> read_contract \<Rightarrow> write_contract \<Rightarrow> duplex \<Rightarrow> duplex \<Rightarrow> bool"
  for caps :: "peer \<Rightarrow> stream_caps" and reads :: read_contract and writes :: write_contract where
  dx_read: "dx_pc s d = DP_read \<Longrightarrow> reads (source d) (dx_acts s (source d)) (buf, er) \<Longrightarrow>
    duplex_step caps reads writes s (got caps d buf er s)"
| dx_write: "dx_pc s d = DP_write buf er \<Longrightarrow> writes (dest d) (dx_acts s (dest d)) (nw, ew) \<Longrightarrow>
    duplex_step caps reads writes s (put caps d buf er nw ew s)"

abbreviation duplex_reach :: "(peer \<Rightarrow> stream_caps) \<Rightarrow> read_contract \<Rightarrow> write_contract \<Rightarrow> duplex \<Rightarrow> bool" where
  "duplex_reach caps reads writes \<equiv> reach (\<lambda>s. s = duplex_start) (duplex_step caps reads writes)"

text \<open>The loop over \<open>resCh\<close>: it returns once both results are there.\<close>

definition duplex_result :: "duplex \<Rightarrow> (int \<times> io_err option) option" where
  "duplex_result s = (case dx_res s of [r1, r2] \<Rightarrow> Some (collect (snd r1) (snd r2)) | _ \<Rightarrow> None)"

section \<open>Each direction runs \<open>copyOne\<close>\<close>

definition shift :: "byte list \<Rightarrow> (byte list \<times> io_err option) option \<Rightarrow> (byte list \<times> io_err option) option" where
  "shift out r = map_option (\<lambda>(bs, err). (out @ bs, err)) r"

lemma shift_simps [simp]: "shift out None = None" "shift out (Some (bs, err)) = Some (out @ bs, err)"
  "shift out (shift out' r) = shift (out @ out') r"
  "shift [] r = r"
  by (cases r; simp add: shift_def split_beta)+

text \<open>What the results so far leave to be done of \<open>CopyBuffer\<close>.\<close>

definition copying :: "(peer \<Rightarrow> stream_caps) \<Rightarrow> duplex \<Rightarrow> dir \<Rightarrow> bool" where
  "copying caps s d \<longleftrightarrow> (case dx_pc s d of
     DP_read \<Rightarrow> \<forall>rs ws. CopyBuffer (dx_reads s d @ rs) (dx_writes s d @ ws) = shift (dx_out s d) (CopyBuffer rs ws)
   | DP_write buf er \<Rightarrow> buf \<noteq> [] \<and> (\<forall>rs ws. CopyBuffer (dx_reads s d @ rs) (dx_writes s d @ ws) =
       shift (dx_out s d) (CopyBuffer ((buf, er) # rs) ws))
   | DP_done err \<Rightarrow> \<exists>acts. copyOne (caps (dest d)) (dx_reads s d) (dx_writes s d) = Some (dx_out s d, err, acts) \<and>
       dx_acts s (dest d) = acts)"

text \<open>Until a direction ends it has done nothing to its destination, and its result is in the channel just when it
  has ended.\<close>

definition ended_ok :: "duplex \<Rightarrow> bool" where
  "ended_ok s \<longleftrightarrow> distinct (map fst (dx_res s)) \<and>
     (\<forall>d. (\<forall>err. dx_pc s d \<noteq> DP_done err) \<longrightarrow> dx_acts s (dest d) = [] \<and> d \<notin> fst ` set (dx_res s)) \<and>
     (\<forall>d err. dx_pc s d = DP_done err \<longrightarrow> (d, int (length (dx_out s d)), err) \<in> set (dx_res s))"

definition duplex_inv :: "(peer \<Rightarrow> stream_caps) \<Rightarrow> duplex \<Rightarrow> bool" where
  "duplex_inv caps s \<longleftrightarrow> (\<forall>d. copying caps s d) \<and> ended_ok s"

lemma dest_inj [simp]: "dest d = dest d' \<longleftrightarrow> d = d'"
  by (cases d; cases d') simp_all

lemma other_simps [simp]: "source (other d) = dest d" "dest (other d) = source d" "other d \<noteq> d" "d \<noteq> other d"
  by (cases d; simp)+

lemma dir_eq: "d' \<noteq> d \<Longrightarrow> d' = other d"
  by (cases d; cases d') simp_all

text \<open>The state as one direction goes on: its calls and its output grow, everything else stays.\<close>

definition advance :: "dir \<Rightarrow> read_script \<Rightarrow> write_script \<Rightarrow> byte list \<Rightarrow> dir_pc \<Rightarrow> duplex \<Rightarrow> duplex" where
  "advance d rs ws bs pc s = s\<lparr>dx_reads := (dx_reads s)(d := dx_reads s d @ rs),
     dx_writes := (dx_writes s)(d := dx_writes s d @ ws), dx_out := (dx_out s)(d := dx_out s d @ bs),
     dx_pc := (dx_pc s)(d := pc)\<rparr>"

lemma copying_advance: "d' \<noteq> d \<Longrightarrow> copying caps (advance d rs ws bs pc s) d' = copying caps s d'"
  by (cases "dx_pc s d'") (simp_all add: copying_def advance_def)

lemma advance_inv:
  assumes "duplex_inv caps s" and "\<forall>err. dx_pc s d \<noteq> DP_done err" and "\<forall>err. pc \<noteq> DP_done err"
    and "copying caps (advance d rs ws bs pc s) d"
  shows "duplex_inv caps (advance d rs ws bs pc s)"
  unfolding duplex_inv_def
proof (intro conjI allI)
  show "copying caps (advance d rs ws bs pc s) d'" for d'
    using assms(1,4) copying_advance by (cases "d' = d") (auto simp: duplex_inv_def)
  show "ended_ok (advance d rs ws bs pc s)"
    using assms(1-3) by (auto simp: duplex_inv_def ended_ok_def advance_def)
qed

lemma finish_inv:
  assumes inv: "duplex_inv caps s" and nd: "\<forall>err. dx_pc s d \<noteq> DP_done err"
    and c: "CopyBuffer (dx_reads s d @ rs) (dx_writes s d @ ws) = Some (dx_out s d @ bs, err)"
  shows "duplex_inv caps (finish caps d err (advance d rs ws bs (dx_pc s d) s))" (is "duplex_inv caps ?s")
proof -
  have e: "ended_ok s" using inv by (simp add: duplex_inv_def)
  with nd have n: "dx_acts s (dest d) = []" "d \<notin> fst ` set (dx_res s)" by (simp_all add: ended_ok_def)
  obtain err' acts where ce: "copy_end (caps (dest d)) (dx_out s d @ bs, err) = (dx_out s d @ bs, err', acts)"
    using that by (cases "copy_end (caps (dest d)) (dx_out s d @ bs, err)") (auto simp: copy_end_def split: if_splits)
  have s: "?s = (advance d rs ws bs (DP_done err') s)\<lparr>dx_acts := (dx_acts s)(dest d := acts),
      dx_res := dx_res s @ [(d, int (length (dx_out s d @ bs)), err')]\<rparr>"
    by (simp add: finish_def advance_def ce n)
  have "copying caps ?s d"
    unfolding s using c ce by (simp add: copying_def advance_def copyOne_def)
  moreover have "copying caps ?s d'" if "d' \<noteq> d" for d'
  proof -
    have "copying caps s d'" using inv by (simp add: duplex_inv_def)
    with that show ?thesis unfolding s by (cases "dx_pc s d'") (simp_all add: copying_def advance_def)
  qed
  moreover have "ended_ok ?s"
    unfolding s using e n(2) by (auto simp: ended_ok_def advance_def)
  ultimately show ?thesis unfolding duplex_inv_def by metis
qed

lemma got_inv:
  assumes inv: "duplex_inv caps s" and pc: "dx_pc s d = DP_read"
  shows "duplex_inv caps (got caps d buf er s)"
proof -
  have "copying caps s d" using inv by (simp add: duplex_inv_def)
  then have c: "CopyBuffer (dx_reads s d @ rs) (dx_writes s d @ ws) = shift (dx_out s d) (CopyBuffer rs ws)" for rs ws
    using pc by (simp add: copying_def)
  show ?thesis
  proof (cases "buf = [] \<and> er \<noteq> None")
    case True
    then obtain e where e: "buf = []" "er = Some e" by auto
    have "CopyBuffer (dx_reads s d @ [(buf, er)]) (dx_writes s d @ []) = Some (dx_out s d @ [], read_err e)"
      using e by (subst c) (simp add: read_err_def)
    from finish_inv [OF inv _ this] have "duplex_inv caps (finish caps d (read_err e) (advance d [(buf, er)] [] [] (dx_pc s d) s))"
      using pc by simp
    then show ?thesis using e by (simp add: got_def advance_def Let_def)
  next
    case False
    have "got caps d buf er s = advance d [(buf, er)] [] [] (if buf = [] then DP_read else DP_write buf er) s"
      using False fun_upd_idem [of "dx_pc s" d, OF pc] by (auto simp: got_def advance_def Let_def split: option.split)
    moreover have "copying caps (advance d [(buf, er)] [] [] (if buf = [] then DP_read else DP_write buf er) s) d"
      using False c [of "(buf, er) # rs" for rs] by (auto simp: copying_def advance_def)
    ultimately show ?thesis using advance_inv [OF inv] pc by simp
  qed
qed

lemma put_inv:
  assumes inv: "duplex_inv caps s" and pc: "dx_pc s d = DP_write buf er"
  shows "duplex_inv caps (put caps d buf er nw ew s)"
proof -
  have "copying caps s d" using inv by (simp add: duplex_inv_def)
  then have ne: "buf \<noteq> []" and c: "CopyBuffer (dx_reads s d @ rs) (dx_writes s d @ ws) =
      shift (dx_out s d) (CopyBuffer ((buf, er) # rs) ws)" for rs ws
    using pc by (simp_all add: copying_def)
  let ?go = "nw = length buf \<and> ew = None \<and> er = None"
  show ?thesis
  proof (cases ?go)
    case True
    have "put caps d buf er nw ew s = advance d [] [(nw, ew)] buf DP_read s"
      using True by (simp add: put_def advance_def Let_def)
    moreover have "copying caps (advance d [] [(nw, ew)] buf DP_read s) d"
      using True ne c [of rs "(nw, ew) # ws" for rs ws] by (simp add: copying_def advance_def flip: shift_def)
    ultimately show ?thesis using advance_inv [OF inv] pc by simp
  next
    case False
    obtain bs err where r: "CopyBuffer [(buf, er)] [(nw, ew)] = Some (bs, err)"
      using False ne by (fastforce split: option.splits if_splits)
    have p: "put caps d buf er nw ew s = finish caps d err (advance d [] [(nw, ew)] bs (dx_pc s d) s)"
      using False ne r by (auto simp: put_def advance_def Let_def read_err_def split: option.splits if_splits)
    have "CopyBuffer (dx_reads s d @ []) (dx_writes s d @ [(nw, ew)]) = Some (dx_out s d @ bs, err)"
      by (subst c) (simp only: r shift_simps)
    from finish_inv [OF inv _ this] pc show ?thesis unfolding p by simp
  qed
qed

interpretation duplex_system: inductive_invariant "\<lambda>s. s = duplex_start" "duplex_step caps reads writes" "duplex_inv caps"
  for caps reads writes
proof unfold_locales
  show "duplex_inv caps s" if "s = duplex_start" for s
    using that by (simp add: duplex_start_def duplex_inv_def copying_def ended_ok_def)
next
  show "duplex_inv caps t" if "duplex_step caps reads writes s t" "duplex_inv caps s" for s t
    using that by (cases rule: duplex_step.cases) (auto intro: got_inv put_inv)
qed

text \<open>A direction makes no \<open>Read\<close> after one that returned an error.\<close>

definition reads_ok :: "duplex \<Rightarrow> dir \<Rightarrow> bool" where
  "reads_ok s d \<longleftrightarrow> (\<forall>r \<in> set (butlast (dx_reads s d)). snd r = None) \<and>
     (dx_pc s d = DP_read \<longrightarrow> (\<forall>r \<in> set (dx_reads s d). snd r = None)) \<and>
     (\<forall>buf er. dx_pc s d = DP_write buf er \<longrightarrow> dx_reads s d \<noteq> [] \<and> last (dx_reads s d) = (buf, er))"

lemma finish_sel [simp]:
  "dx_reads (finish caps d err s) = dx_reads s" "dx_writes (finish caps d err s) = dx_writes s"
  "dx_out (finish caps d err s) = dx_out s"
  by (simp_all add: finish_def copy_end_def)

lemma finish_pc: "dx_pc (finish caps d err s) d' = (if d' = d then DP_done (if err = Some io_EOF then None else err) else dx_pc s d')"
  by (auto simp: finish_def copy_end_def)

lemma set_butlast_all: "xs \<noteq> [] \<Longrightarrow> (\<forall>x \<in> set xs. P x) \<longleftrightarrow> (\<forall>x \<in> set (butlast xs). P x) \<and> P (last xs)"
  by (cases xs rule: rev_cases) auto

lemma got_reads_ok:
  assumes "\<And>d. reads_ok s d" and "dx_pc s d = DP_read"
  shows "reads_ok (got caps d buf er s) d'"
  using assms(1) [of d'] assms(2)
  by (cases "d' = d") (auto simp: reads_ok_def got_def Let_def finish_pc split: option.split)

lemma put_reads_ok:
  assumes "\<And>d. reads_ok s d" and "dx_pc s d = DP_write buf er"
  shows "reads_ok (put caps d buf er nw ew s) d'"
proof (cases "d' = d")
  case True
  have R: "\<forall>r \<in> set (butlast (dx_reads s d)). snd r = None" "dx_reads s d \<noteq> []" "last (dx_reads s d) = (buf, er)"
    using assms(1) [of d] assms(2) by (simp_all add: reads_ok_def)
  then show ?thesis
    using True set_butlast_all [OF R(2), of "\<lambda>r. snd r = None"]
    by (auto simp: reads_ok_def put_def Let_def finish_pc split: option.split)
next
  case False
  with assms(1) [of d'] show ?thesis
    by (auto simp: reads_ok_def put_def Let_def finish_pc split: option.split)
qed

interpretation duplex_reads: inductive_invariant "\<lambda>s. s = duplex_start" "duplex_step caps reads writes" "\<lambda>s. \<forall>d. reads_ok s d"
  for caps reads writes
proof unfold_locales
  show "\<forall>d. reads_ok s d" if "s = duplex_start" for s
    using that by (simp add: duplex_start_def reads_ok_def)
next
  show "\<forall>d. reads_ok t d" if "duplex_step caps reads writes s t" "\<forall>d. reads_ok s d" for s t
    using that by (cases rule: duplex_step.cases) (auto intro: got_reads_ok put_reads_ok)
qed

section \<open>Contracts of the streams\<close>

text \<open>\<open>CancelRead\<close> unblocks \<open>Read\<close> and makes it fail from then on; a \<open>Write\<close> returns; a \<open>Write\<close> does not report the end of
  file.\<close>

definition cancel_contract :: "read_contract \<Rightarrow> bool" where
  "cancel_contract reads \<longleftrightarrow> (\<forall>x acts c. CancelRead c \<in> set acts \<longrightarrow> (\<exists>r. reads x acts r) \<and>
     (\<forall>buf er. reads x acts (buf, er) \<longrightarrow> buf = [] \<and> (\<exists>msg. er = Some (io_error msg))))"

definition writes_return :: "write_contract \<Rightarrow> bool" where
  "writes_return writes \<longleftrightarrow> (\<forall>x acts. \<exists>r. writes x acts r)"

definition writes_no_EOF :: "write_contract \<Rightarrow> bool" where
  "writes_no_EOF writes \<longleftrightarrow> (\<forall>x acts nw. \<not> writes x acts (nw, Some io_EOF))"

lemma finish_writes: "dx_writes (got caps d buf er s) = dx_writes s"
  "dx_writes (put caps d buf er nw ew s) = (dx_writes s)(d := dx_writes s d @ [(nw, ew)])"
  by (auto simp: got_def put_def Let_def split: option.split)

interpretation duplex_writes: inductive_invariant "\<lambda>s. s = duplex_start" "duplex_step caps reads writes"
  "\<lambda>s. writes_no_EOF writes \<longrightarrow> (\<forall>d. \<forall>w \<in> set (dx_writes s d). snd w \<noteq> Some io_EOF)" for caps reads writes
proof unfold_locales
  show "writes_no_EOF writes \<longrightarrow> (\<forall>d. \<forall>w \<in> set (dx_writes t d). snd w \<noteq> Some io_EOF)"
    if "duplex_step caps reads writes s t" "writes_no_EOF writes \<longrightarrow> (\<forall>d. \<forall>w \<in> set (dx_writes s d). snd w \<noteq> Some io_EOF)" for s t
    using that by (cases rule: duplex_step.cases) (auto simp: finish_writes writes_no_EOF_def)
qed (simp add: duplex_start_def)

section \<open>One failed direction ends the other\<close>

definition failed :: "dir \<Rightarrow> duplex \<Rightarrow> bool" where
  "failed d s \<longleftrightarrow> (\<exists>e. dx_pc s d = DP_done (Some e)) \<and> CancelRead AbortCode \<in> set (dx_acts s (dest d))"

fun steps_left :: "dir_pc \<Rightarrow> nat" where
  "steps_left (DP_done err) = 0"
| "steps_left DP_read = 1"
| "steps_left (DP_write buf er) = 2"

lemma steps_left_le: "steps_left pc \<le> 2"
  by (cases pc) simp_all

lemma reach_failed:
  assumes "duplex_inv caps s" and "dx_pc s d = DP_done (Some e)" and "is_Aborter (caps (dest d))"
  shows "failed d s"
proof -
  have "copying caps s d" using assms(1) by (simp add: duplex_inv_def)
  then obtain acts where "copyOne (caps (dest d)) (dx_reads s d) (dx_writes s d) = Some (dx_out s d, Some e, acts)"
    "dx_acts s (dest d) = acts"
    using assms(2) by (auto simp: copying_def)
  then have "dx_acts s (dest d) = [CancelWrite AbortCode, CancelRead AbortCode]"
    using assms(3) by (auto simp: copyOne_def copy_end_def split: if_splits)
  with assms(2) show ?thesis by (simp add: failed_def)
qed

lemma failed_step:
  assumes "duplex_step caps reads writes s t" and "failed d s" and "cancel_contract reads"
  shows "failed d t \<and> steps_left (dx_pc t (other d)) < steps_left (dx_pc s (other d))"
  using assms(1)
proof cases
  case (dx_read d' buf er)
  with assms(2) have d': "d' = other d" by (auto simp: failed_def intro: dir_eq)
  have "CancelRead AbortCode \<in> set (dx_acts s (dest d))" using assms(2) by (simp add: failed_def)
  with assms(3) dx_read(3) d' obtain msg where "buf = []" "er = Some (io_error msg)"
    unfolding cancel_contract_def by fastforce
  with dx_read d' assms(2) show ?thesis
    by (auto simp: got_def read_err_def failed_def finish_def copy_end_def)
next
  case (dx_write d' buf er nw ew)
  with assms(2) have d': "d' = other d" by (auto simp: failed_def intro: dir_eq)
  have "steps_left (dx_pc t (other d)) < 2"
    unfolding dx_write(1) d' by (auto simp: put_def Let_def finish_pc split: option.split)
  moreover have "failed d t"
    using assms(2) unfolding dx_write(1) d' failed_def
    by (auto simp: put_def Let_def finish_def copy_end_def split: option.split)
  ultimately show ?thesis using dx_write(2) d' by simp
qed

lemma failed_moves:
  assumes "failed d s" and "cancel_contract reads" and "writes_return writes" and "steps_left (dx_pc s (other d)) \<noteq> 0"
  shows "\<exists>t. duplex_step caps reads writes s t"
proof (cases "dx_pc s (other d)")
  case DP_read
  have "CancelRead AbortCode \<in> set (dx_acts s (dest d))" using assms(1) by (simp add: failed_def)
  with assms(2) obtain r where "reads (dest d) (dx_acts s (dest d)) r" unfolding cancel_contract_def by blast
  with duplex_step.dx_read [OF DP_read, of reads "fst r" "snd r"] show ?thesis by auto
next
  case (DP_write buf er)
  obtain r where "writes (source d) (dx_acts s (source d)) r" using assms(3) unfolding writes_return_def by blast
  with duplex_step.dx_write [OF DP_write, of writes "fst r" "snd r"] show ?thesis by auto
qed (use assms(4) in simp)

lemma both_results:
  assumes "ended_ok s" and "dx_pc s AtoB = DP_done e1" and "dx_pc s BtoA = DP_done e2"
  shows "dx_res s = [(AtoB, int (length (dx_out s AtoB)), e1), (BtoA, int (length (dx_out s BtoA)), e2)] \<or>
    dx_res s = [(BtoA, int (length (dx_out s BtoA)), e2), (AtoB, int (length (dx_out s AtoB)), e1)]"
proof -
  let ?x = "(AtoB, int (length (dx_out s AtoB)), e1)" and ?y = "(BtoA, int (length (dx_out s BtoA)), e2)"
  have xy: "?x \<in> set (dx_res s)" "?y \<in> set (dx_res s)" and dst: "distinct (map fst (dx_res s))"
    using assms by (simp_all add: ended_ok_def)
  have dirs: "(UNIV :: dir set) = {AtoB, BtoA}" using dir.exhaust by auto
  have "AtoB \<in> fst ` set (dx_res s)" "BtoA \<in> fst ` set (dx_res s)" using imageI [OF xy(1), of fst] imageI [OF xy(2), of fst] by simp_all
  then have "{AtoB, BtoA} \<subseteq> set (map fst (dx_res s))" by simp
  then have "set (map fst (dx_res s)) = UNIV" unfolding dirs [symmetric] by blast
  with distinct_card [OF dst] have "length (dx_res s) = 2" by (simp add: dirs)
  then obtain r1 r2 where "dx_res s = [r1, r2]" by (auto simp: length_Suc_conv numeral_2_eq_2)
  with xy dst show ?thesis by auto
qed

lemma both_ended_result:
  assumes "duplex_inv caps s" and "\<And>d. \<exists>err. dx_pc s d = DP_done err"
  shows "\<exists>ab_first r. duplex_result s = Some r \<and>
    Bidirectional ab_first (copyOne (caps StreamB) (dx_reads s AtoB) (dx_writes s AtoB))
      (copyOne (caps StreamA) (dx_reads s BtoA) (dx_writes s BtoA)) = Some r"
proof -
  obtain e1 e2 where e: "dx_pc s AtoB = DP_done e1" "dx_pc s BtoA = DP_done e2" using assms(2) by blast
  have "copying caps s AtoB" "copying caps s BtoA" and ok: "ended_ok s" using assms(1) by (simp_all add: duplex_inv_def)
  then obtain acts1 acts2 where c:
    "copyOne (caps StreamB) (dx_reads s AtoB) (dx_writes s AtoB) = Some (dx_out s AtoB, e1, acts1)"
    "copyOne (caps StreamA) (dx_reads s BtoA) (dx_writes s BtoA) = Some (dx_out s BtoA, e2, acts2)"
    using e by (auto simp: copying_def)
  from both_results [OF ok e] show ?thesis
  proof
    assume "dx_res s = [(AtoB, int (length (dx_out s AtoB)), e1), (BtoA, int (length (dx_out s BtoA)), e2)]"
    then show ?thesis by (intro exI [of _ True]) (simp add: duplex_result_def c Bidirectional_def)
  next
    assume "dx_res s = [(BtoA, int (length (dx_out s BtoA)), e2), (AtoB, int (length (dx_out s AtoB)), e1)]"
    then show ?thesis by (intro exI [of _ False]) (simp add: duplex_result_def c Bidirectional_def)
  qed
qed

lemma result_both_ended:
  assumes "ended_ok s" and "duplex_result s \<noteq> None"
  shows "\<exists>err. dx_pc s d = DP_done err"
proof (rule ccontr)
  assume "\<nexists>err. dx_pc s d = DP_done err"
  then have "d \<notin> fst ` set (dx_res s)" using assms(1) by (simp add: ended_ok_def)
  moreover obtain r1 r2 where r: "dx_res s = [r1, r2]"
    using assms(2) by (auto simp: duplex_result_def split: list.splits)
  moreover have "fst r1 \<noteq> fst r2" using assms(1) r by (simp add: ended_ok_def)
  ultimately show False using dir_eq [of "fst r1" d] dir_eq [of "fst r2" d] by auto
qed

lemma CopyBuffer_clean_reads:
  assumes "CopyBuffer rs ws = Some (out, None)" and "\<forall>r \<in> set (butlast rs). snd r = None"
  shows "ends_with io_EOF rs \<and> out = sent rs"
  using assms
proof (induction rs ws arbitrary: out rule: CopyBuffer.induct)
  case (2 buf er rs ws)
  show ?case
  proof (cases rs)
    case Nil
    then show ?thesis using "2.prems"(1) by (auto split: if_splits option.splits list.splits)
  next
    case (Cons r rs')
    then have "er = None" "\<forall>r \<in> set (butlast rs). snd r = None" using "2.prems"(2) by auto
    then show ?thesis
      using "2.prems"(1) "2.IH" by (auto simp: ends_with_Cons split: if_splits list.splits option.splits)
  qed
qed simp

lemma copy_end_out: "fst (copy_end c r) = fst r"
  by (auto simp: copy_end_def split: prod.split)

section \<open>Runs\<close>

text \<open>Streams that behave as the contracts say, and three runs on them: \<open>A\<close> sends a byte and finishes, \<open>B\<close> finishes;
  and \<open>A\<close> is lost.\<close>

definition contract_reads :: read_contract where
  "contract_reads x acts r \<longleftrightarrow> (if \<exists>c. CancelRead c \<in> set acts then r = ([], Some (io_error ''canceled''))
     else r \<in> {([1], None), ([], Some io_EOF), ([], Some (io_error ''lost''))})"

definition contract_writes :: write_contract where
  "contract_writes x acts r \<longleftrightarrow> r = (1, None)"

definition demo_caps :: "peer \<Rightarrow> stream_caps" where
  "demo_caps x = \<lparr>is_Aborter = True, is_HalfCloser = True\<rparr>"

definition dx_half :: duplex where
  "dx_half = got demo_caps AtoB [] (Some io_EOF) (put demo_caps AtoB [1] None 1 None (got demo_caps AtoB [1] None duplex_start))"

definition dx_both :: duplex where
  "dx_both = got demo_caps BtoA [] (Some io_EOF) dx_half"

definition dx_lost :: duplex where
  "dx_lost = got demo_caps AtoB [] (Some (io_error ''lost'')) duplex_start"

lemmas dx_eval = dx_both_def dx_half_def dx_lost_def got_def put_def finish_def copy_end_def read_err_def duplex_start_def
  demo_caps_def contract_reads_def contract_writes_def Let_def

lemma demo_contracts: "cancel_contract contract_reads" "writes_return contract_writes" "writes_no_EOF contract_writes"
  by (auto simp: cancel_contract_def writes_return_def writes_no_EOF_def contract_reads_def contract_writes_def)

lemma dx_start_reach: "duplex_reach demo_caps contract_reads contract_writes duplex_start"
  by (rule reach_init) simp

lemma dx_lost_reach: "duplex_reach demo_caps contract_reads contract_writes dx_lost"
  unfolding dx_lost_def by (rule reach_step [OF dx_start_reach], rule dx_read) (simp_all add: dx_eval)

lemma dx_half_reach: "duplex_reach demo_caps contract_reads contract_writes dx_half"
  unfolding dx_half_def
  by (rule reach_step [OF reach_step [OF reach_step [OF dx_start_reach]]], rule dx_read [where d = AtoB];
      (rule dx_read dx_write)?; simp add: dx_eval)

lemma dx_both_reach: "duplex_reach demo_caps contract_reads contract_writes dx_both"
  unfolding dx_both_def by (rule reach_step [OF dx_half_reach], rule dx_read) (simp_all add: dx_eval)

text \<open>The end of one direction alone does not end the splice.\<close>

lemma eof_is_half: "dx_pc dx_half AtoB = DP_done None \<and> duplex_result dx_half = None"
  by (simp add: dx_eval duplex_result_def)

section \<open>Properties\<close>







end
