(* ===== verification/CtrlStream.thy ===== *)
theory CtrlStream
  imports Wire "HOL-Library.Sublist"
begin

text \<open>
  The writers of one agent's control stream (\<open>AgentConn.WriteCtrl\<close>, \<open>pkg/edge/edge.go\<close>). Stream handlers, the
  drain and other agents' control loops write frames to it concurrently, under \<open>ctrlMu\<close>; the agent's own
  control loop writes some replies without the lock. \<open>orp.WriteFrame\<close> is outside the repository: \<open>enc\<close>
  gives the pieces it hands to the stream's \<open>Write\<close>, one step each.
\<close>

section \<open>The code\<close>

type_synonym ctrl_frame = "FrameType \<times> message"

record ctrl_sys =
  cw_stream :: "byte list"
  cw_mu :: "nat option"
  cw_writing :: "nat \<rightharpoonup> ctrl_frame \<times> byte list list"
  cw_broken :: bool
  cw_sent :: "ctrl_frame list"

definition ctrl_init :: "ctrl_sys \<Rightarrow> bool" where
  "ctrl_init s \<longleftrightarrow> cw_stream s = [] \<and> cw_mu s = None \<and> cw_writing s = Map.empty \<and> \<not> cw_broken s \<and> cw_sent s = []"

text \<open>
  Writer \<open>i\<close> is a call of \<open>WriteCtrl\<close> if \<open>locked i\<close>, else of \<open>orp.WriteFrame\<close> alone. A \<open>Write\<close> that fails may have taken
  a part of its piece, and the stream takes nothing after it; \<open>WriteFrame\<close> returns the error at once and
  the deferred unlock runs. \<open>cw_sent\<close> is a ghost: the frames written completely, in order.
\<close>

inductive ctrl_step :: "(ctrl_frame \<Rightarrow> byte list list) \<Rightarrow> (nat \<Rightarrow> bool) \<Rightarrow> ctrl_sys \<Rightarrow> ctrl_sys \<Rightarrow> bool"
  for enc :: "ctrl_frame \<Rightarrow> byte list list" and locked :: "nat \<Rightarrow> bool" where
  cw_Lock: "locked i \<Longrightarrow> cw_mu s = None \<Longrightarrow> cw_writing s i = None \<Longrightarrow>
    ctrl_step enc locked s (s\<lparr>cw_mu := Some i, cw_writing := (cw_writing s)(i \<mapsto> (f, enc f))\<rparr>)"
| cw_Begin: "\<not> locked i \<Longrightarrow> cw_writing s i = None \<Longrightarrow>
    ctrl_step enc locked s (s\<lparr>cw_writing := (cw_writing s)(i \<mapsto> (f, enc f))\<rparr>)"
| cw_Write: "cw_writing s i = Some (f, c # cs) \<Longrightarrow> \<not> cw_broken s \<Longrightarrow>
    ctrl_step enc locked s (s\<lparr>cw_stream := cw_stream s @ c, cw_writing := (cw_writing s)(i \<mapsto> (f, cs))\<rparr>)"
| cw_Fail: "cw_writing s i = Some (f, c # cs) \<Longrightarrow> prefix c' c \<Longrightarrow> (cw_broken s \<longrightarrow> c' = []) \<Longrightarrow>
    ctrl_step enc locked s (s\<lparr>cw_stream := cw_stream s @ c', cw_broken := True, cw_writing := (cw_writing s)(i := None),
      cw_mu := (if locked i then None else cw_mu s)\<rparr>)"
| cw_Return: "cw_writing s i = Some (f, []) \<Longrightarrow>
    ctrl_step enc locked s (s\<lparr>cw_sent := cw_sent s @ [f], cw_writing := (cw_writing s)(i := None),
      cw_mu := (if locked i then None else cw_mu s)\<rparr>)"

abbreviation ctrl_reach :: "(ctrl_frame \<Rightarrow> byte list list) \<Rightarrow> (nat \<Rightarrow> bool) \<Rightarrow> ctrl_sys \<Rightarrow> bool" where
  "ctrl_reach enc locked \<equiv> reach ctrl_init (ctrl_step enc locked)"

section \<open>Under the lock\<close>

definition frame_bytes :: "(ctrl_frame \<Rightarrow> byte list list) \<Rightarrow> ctrl_frame list \<Rightarrow> byte list" where
  "frame_bytes enc fs = concat (map (concat \<circ> enc) fs)"

lemma frame_bytes_simps [simp]:
  "frame_bytes enc [] = []" "frame_bytes enc (fs @ [f]) = frame_bytes enc fs @ concat (enc f)"
  by (simp_all add: frame_bytes_def)

text \<open>Only the holder writes; until the stream breaks it holds whole frames and a part of the holder's.\<close>

definition whole :: "(ctrl_frame \<Rightarrow> byte list list) \<Rightarrow> ctrl_sys \<Rightarrow> bool" where
  "whole enc s \<longleftrightarrow> (\<exists>part. cw_stream s = frame_bytes enc (cw_sent s) @ part \<and>
     (if cw_broken s
      then (\<exists>f. prefix part (concat (enc f))) \<and> (\<forall>i f cs. cw_writing s i = Some (f, cs) \<longrightarrow> cs = enc f)
      else (case cw_mu s of None \<Rightarrow> part = [] | Some i \<Rightarrow> \<exists>f cs. cw_writing s i = Some (f, cs) \<and> concat (enc f) = part @ concat cs)))"

definition ctrl_inv :: "(ctrl_frame \<Rightarrow> byte list list) \<Rightarrow> ctrl_sys \<Rightarrow> bool" where
  "ctrl_inv enc s \<longleftrightarrow> dom (cw_writing s) = set_option (cw_mu s) \<and> whole enc s"

lemma holder: "dom (cw_writing s) = set_option (cw_mu s) \<Longrightarrow> cw_writing s i = Some v \<Longrightarrow> cw_mu s = Some i"
  using domI [of "cw_writing s" i v] by (cases "cw_mu s") simp_all

lemma ctrl_step_inv:
  assumes "ctrl_step enc (\<lambda>_. True) s t" and "ctrl_inv enc s"
  shows "ctrl_inv enc t"
  using assms
proof (induction rule: ctrl_step.induct)
  case (cw_Lock i s f)
  then show ?case by (auto simp: ctrl_inv_def whole_def)
next
  case (cw_Begin i s f)
  then show ?case by simp
next
  case (cw_Write s i f c cs)
  then have mu: "cw_mu s = Some i" using holder by (auto simp: ctrl_inv_def)
  with cw_Write obtain part where p: "cw_stream s = frame_bytes enc (cw_sent s) @ part" "concat (enc f) = part @ c @ concat cs"
    by (auto simp: ctrl_inv_def whole_def)
  have "dom ((cw_writing s)(i \<mapsto> (f, cs))) = set_option (cw_mu s)" using cw_Write by (auto simp: ctrl_inv_def dom_def)
  moreover have "whole enc (s\<lparr>cw_stream := cw_stream s @ c, cw_writing := (cw_writing s)(i \<mapsto> (f, cs))\<rparr>)"
    unfolding whole_def using p mu cw_Write(2) by (intro exI [of _ "part @ c"]) simp
  ultimately show ?case by (simp add: ctrl_inv_def)
next
  case (cw_Fail s i f c cs c')
  then have mu: "cw_mu s = Some i" using holder by (auto simp: ctrl_inv_def)
  have d: "dom ((cw_writing s)(i := None)) = {}" using cw_Fail mu by (auto simp: ctrl_inv_def)
  have "\<exists>part. cw_stream s @ c' = frame_bytes enc (cw_sent s) @ part \<and> (\<exists>f. prefix part (concat (enc f)))"
  proof (cases "cw_broken s")
    case True
    then show ?thesis using cw_Fail by (auto simp: ctrl_inv_def whole_def)
  next
    case False
    with cw_Fail mu obtain part where p: "cw_stream s = frame_bytes enc (cw_sent s) @ part" "concat (enc f) = part @ c @ concat cs"
      by (auto simp: ctrl_inv_def whole_def)
    have "prefix (part @ c') (concat (enc f))" using p(2) cw_Fail(2) by (auto simp: prefix_def)
    then show ?thesis using p(1) by (intro exI [of _ "part @ c'"] conjI exI [of _ f]) simp_all
  qed
  then show ?case using d by (auto simp: ctrl_inv_def whole_def dom_def)
next
  case (cw_Return s i f)
  then have mu: "cw_mu s = Some i" using holder by (auto simp: ctrl_inv_def)
  have "dom ((cw_writing s)(i := None)) = {}" using cw_Return mu by (auto simp: ctrl_inv_def)
  then show ?case
    using cw_Return mu by (fastforce simp: ctrl_inv_def whole_def dom_def split: if_splits)
qed

interpretation ctrl_system: inductive_invariant ctrl_init "ctrl_step enc (\<lambda>_. True)" "ctrl_inv enc" for enc
proof
  show "ctrl_init s \<Longrightarrow> ctrl_inv enc s" for s by (simp add: ctrl_init_def ctrl_inv_def whole_def)
qed (rule ctrl_step_inv)

section \<open>Properties\<close>


definition demo_enc :: "ctrl_frame \<Rightarrow> byte list list" where
  "demo_enc f = [[1, 2], [3]]"


text \<open>A reply written without the lock can land inside a frame that is written in two pieces.\<close>

lemma unlocked_splits_frame:
  assumes "enc f = [c1, c2]" and "enc g = [d]" and "\<not> locked 1" and "locked 0"
  shows "\<exists>s. ctrl_reach enc locked s \<and> cw_sent s = [g, f] \<and> cw_stream s = c1 @ d @ c2"
proof -
  let ?s0 = "\<lparr>cw_stream = [], cw_mu = None, cw_writing = Map.empty, cw_broken = False, cw_sent = []\<rparr>"
  let ?s1 = "?s0\<lparr>cw_mu := Some 0, cw_writing := [0 \<mapsto> (f, [c1, c2])]\<rparr>"
  let ?s2 = "?s1\<lparr>cw_stream := c1, cw_writing := [0 \<mapsto> (f, [c2])]\<rparr>"
  let ?s3 = "?s2\<lparr>cw_writing := [0 \<mapsto> (f, [c2]), 1 \<mapsto> (g, [d])]\<rparr>"
  let ?s4 = "?s3\<lparr>cw_stream := c1 @ d, cw_writing := [0 \<mapsto> (f, [c2]), 1 \<mapsto> (g, [])]\<rparr>"
  let ?s5 = "?s4\<lparr>cw_sent := [g], cw_writing := [0 \<mapsto> (f, [c2])]\<rparr>"
  let ?s6 = "?s5\<lparr>cw_stream := c1 @ d @ c2, cw_writing := [0 \<mapsto> (f, [])]\<rparr>"
  let ?s7 = "?s6\<lparr>cw_sent := [g, f], cw_writing := Map.empty, cw_mu := None\<rparr>"
  have st: "ctrl_step enc locked ?s0 ?s1" "ctrl_step enc locked ?s1 ?s2" "ctrl_step enc locked ?s2 ?s3" "ctrl_step enc locked ?s3 ?s4"
    "ctrl_step enc locked ?s4 ?s5" "ctrl_step enc locked ?s5 ?s6" "ctrl_step enc locked ?s6 ?s7"
    using cw_Lock [of locked 0 ?s0 enc f] cw_Write [of ?s1 0 f c1 "[c2]" enc locked] cw_Begin [of locked 1 ?s2 enc g]
      cw_Write [of ?s3 1 g d "[]" enc locked] cw_Return [of ?s4 1 g enc locked] cw_Write [of ?s5 0 f c2 "[]" enc locked]
      cw_Return [of ?s6 0 f enc locked] assms
    by (simp_all add: fun_upd_twist)
  have "ctrl_reach enc locked ?s0" by (rule reach_init) (simp add: ctrl_init_def)
  then have "ctrl_reach enc locked ?s7" using st by (meson reach_step)
  then show ?thesis by (intro exI [of _ ?s7]) simp
qed

end
