(* ===== verification/EdgeP2P.thy ===== *)
theory EdgeP2P
  imports EdgeCtrlProps
begin

text \<open>
  What the relay makes of the P2P mode of a stream (\<open>handleConsumerStream\<close>, \<open>pkg/edge/edge.go\<close>): the mode the
  policy combines from both ends is only ever compared with \<open>required\<close>.
\<close>

section \<open>Runs up to the mode\<close>

definition allow_p2p :: "cs_locals \<Rightarrow> cs_locals" where
  "allow_p2p l = l\<lparr>cl_p2p := P2PModeAllowed\<rparr>"

text \<open>A run with the mode blanked out of the handler's local variables: what others can see of it.\<close>

fun blank_phase :: "cs_phase \<Rightarrow> cs_phase" where
  "blank_phase (CS_opening l) = CS_opening (allow_p2p l)"
| "blank_phase (CS_waitAck l) = CS_waitAck (allow_p2p l)"
| "blank_phase (CS_forwarding l a b) = CS_forwarding (allow_p2p l) a b"
| "blank_phase (CS_splicing l) = CS_splicing (allow_p2p l)"
| "blank_phase ph = ph"

definition blank_result :: "cs_result \<Rightarrow> cs_result" where
  "blank_result q = (case q of (s, es, ph) \<Rightarrow> (s, es, blank_phase ph))"

definition blank_run :: "cs_run \<Rightarrow> cs_run" where
  "blank_run r = (case r of (s, es, phs) \<Rightarrow> (s, es, map blank_phase phs))"

lemma allow_p2p_simps [simp]:
  "cl_open (allow_p2p l) = cl_open l" "cl_prov (allow_p2p l) = cl_prov l" "cl_relay (allow_p2p l) = cl_relay l"
  "cl_p2p (allow_p2p l) = P2PModeAllowed" "allow_p2p (allow_p2p l) = allow_p2p l"
  "allow_p2p (l\<lparr>cl_p2p := m\<rparr>) = allow_p2p l"
  by (simp_all add: allow_p2p_def)

lemma blank_simps [simp]:
  "blank_result (s, es, ph) = (s, es, blank_phase ph)" "blank_run (s, es, phs) = (s, es, map blank_phase phs)"
  "blank_result (cs_return se) = cs_return se" "blank_phase (blank_phase ph) = blank_phase ph"
  by (cases ph; simp add: blank_result_def blank_run_def cs_return_def)+

lemma pair_of_allow [simp]: "pair_of caller (allow_p2p l) = pair_of caller l"
  by (simp add: pair_of_def)

lemma cs_leave_allow [simp]: "cs_leave (allow_p2p l) allocs se = cs_leave l allocs se" "blank_result (cs_leave l allocs se) = cs_leave l allocs se"
  by (simp_all add: cs_leave_eq cs_teardown_def)

text \<open>Every phase gives the same with the mode blanked out, but for the promotion timer.\<close>

lemma cs_incoming_blank:
  "cl_p2p l \<noteq> P2PModeRequired \<Longrightarrow> blank_result (cs_incoming caller l res s) = blank_result (cs_incoming caller (allow_p2p l) res s)"
  by (auto simp: cs_incoming_def Let_def split: prod.split bool.split)

lemma cs_forward_blank:
  "map_option blank_result (cs_forward env now caller l okC okP p s) =
     map_option blank_result (cs_forward env now caller (allow_p2p l) okC okP p s)"
  by (auto simp: cs_forward_def Let_def split: option.split)

lemma cs_ack_blank:
  "map_option blank_result (cs_ack env now caller l ack okC okP s) =
     map_option blank_result (cs_ack env now caller (allow_p2p l) ack okC okP s)"
  using cs_forward_blank by (auto simp: cs_ack_def Let_def split: sum.split RelayMode.split option.split)

lemma cs_spliced_allow: "cs_spliced (allow_p2p l) n s = cs_spliced l n s" "cs_forwarded (allow_p2p l) a b s = cs_forwarded l a b s"
  by (simp_all add: cs_spliced_def cs_forwarded_def)

lemma blank_then [simp]: "blank_run (cs_then r q) = cs_then (blank_run r) (blank_result q)"
  by (cases r; cases q) (simp add: cs_then_def)

lemma last_blank: "snd (snd r) \<noteq> [] \<Longrightarrow> last (snd (snd (blank_run r))) = blank_phase (last (snd (snd r)))" "fst (blank_run r) = fst r"
  by (cases r; simp add: last_map)+

lemma blank_run_idem [simp]: "blank_run (blank_run r) = blank_run r"
  by (cases r) simp

lemma blank_nonempty [simp]: "snd (snd (blank_run r)) = [] \<longleftrightarrow> snd (snd r) = []"
  by (cases r) simp

lemma cs_then_phases: "snd (snd (cs_then r q)) = snd (snd r) @ [snd (snd q)]" "fst (cs_then r q) = fst q"
  by (cases r; cases q; simp add: cs_then_def)+

lemma cs_data_blank: "snd (snd r) \<noteq> [] \<Longrightarrow> blank_run (cs_data io r) = blank_run (cs_data io (blank_run r))"
  by (cases "last (snd (snd r))") (simp_all add: cs_data_def last_blank cs_spliced_allow)

lemma cs_data_then_blank: "blank_run (cs_data io (cs_then r q)) = blank_run (cs_data io (cs_then (blank_run r) (blank_result q)))"
  using cs_data_blank [of "cs_then r q" io] by (simp add: cs_then_phases)

lemma cs_answer_blank:
  assumes "snd (snd r) \<noteq> []"
  shows "map_option blank_run (cs_answer env io caller r) = map_option blank_run (cs_answer env io caller (blank_run r))"
proof (cases "last (snd (snd r))")
  case (CS_waitAck l)
  let ?ack = "\<lambda>l. cs_ack env (ci_now3 io) caller l (ci_ack io) (ci_okC io) (ci_okP io) (ci_others io 3 (fst r))"
  have b: "blank_run (cs_data io (cs_then r q)) = blank_run (cs_data io (cs_then (blank_run r) (blank_result q)))"
    "blank_run (cs_data io (cs_then (blank_run r) q)) = blank_run (cs_data io (cs_then (blank_run r) (blank_result q)))" for q
    using cs_data_then_blank [of io r q] cs_data_then_blank [of io "blank_run r" q] by (simp_all only: blank_run_idem)
  have "map_option (blank_run \<circ> cs_data io \<circ> cs_then r) (?ack l) =
      map_option (blank_run \<circ> cs_data io \<circ> cs_then (blank_run r)) (map_option blank_result (?ack l))"
    by (cases "?ack l") (simp_all only: option.map comp_apply b(1))
  also have "\<dots> = map_option (blank_run \<circ> cs_data io \<circ> cs_then (blank_run r)) (map_option blank_result (?ack (allow_p2p l)))"
    by (simp only: cs_ack_blank [of env "ci_now3 io" caller l])
  also have "\<dots> = map_option (blank_run \<circ> cs_data io \<circ> cs_then (blank_run r)) (?ack (allow_p2p l))"
    by (cases "?ack (allow_p2p l)") (simp_all only: option.map comp_apply b(2) [symmetric])
  finally show ?thesis
    using CS_waitAck assms by (simp add: cs_answer_def last_blank option.map_comp comp_assoc)
qed (use assms in \<open>simp_all add: cs_answer_def last_blank\<close>)

lemma cs_dial_blank:
  assumes "last (snd (snd r)) = CS_opening l" and "snd (snd r) \<noteq> []" and "cl_p2p l \<noteq> P2PModeRequired"
  shows "map_option blank_run (cs_dial env io caller r) = map_option blank_run (cs_dial env io caller (blank_run r))"
proof -
  let ?q = "\<lambda>l. cs_incoming caller l (ci_open io) (ci_others io 2 (fst r))"
  have "blank_run (cs_then r (?q l)) = blank_run (cs_then (blank_run r) (?q (allow_p2p l)))"
    by (simp add: cs_incoming_blank [OF assms(3)])
  then show ?thesis
    using assms(1,2) cs_answer_blank [of "cs_then r (?q l)" env io caller] cs_answer_blank [of "cs_then (blank_run r) (?q (allow_p2p l))" env io caller]
    by (simp add: cs_dial_def last_blank cs_then_phases)
qed

section \<open>Properties\<close>

text \<open>The relay does not enforce \<open>p2p_mode=forbidden\<close>. Once the provider of a stream is known, a run of
  the handler with the mode \<open>forbidden\<close> changes the server and acts on the outside exactly as one with the
  mode \<open>allowed\<close>, whatever happens in between: the pair is recorded, so the candidates of the two ends are
  routed, and neither end is told of the mode.\<close>

lemma forbidden_not_enforced:
  "map_option blank_run (cs_dial env io caller (s, es, phs @ [CS_opening (l\<lparr>cl_p2p := P2PModeForbidden\<rparr>)])) =
   map_option blank_run (cs_dial env io caller (s, es, phs @ [CS_opening (l\<lparr>cl_p2p := P2PModeAllowed\<rparr>)]))"
  using cs_dial_blank [of "(s, es, phs @ [CS_opening (l\<lparr>cl_p2p := P2PModeForbidden\<rparr>)])" "l\<lparr>cl_p2p := P2PModeForbidden\<rparr>" env io caller]
    cs_dial_blank [of "(s, es, phs @ [CS_opening (l\<lparr>cl_p2p := P2PModeAllowed\<rparr>)])" "l\<lparr>cl_p2p := P2PModeAllowed\<rparr>" env io caller]
  by simp

end
