(* ===== verification/PlaneHeap.thy ===== *)
theory PlaneHeap
  imports PlaneProps
begin

text \<open>
  The forwarding plane at the grain of its memory accesses. \<open>byAlloc\<close> holds pointers: the read loop of
  \<open>Run\<close> takes the pointers of the addressed entry and of the sender's entry under the read lock and
  uses them after it has released the lock, while other goroutines may bind, release or collect the
  same allocations. Here the entries live in a heap, every operation of \<open>Plane\<close> is restated on
  pointers and refines the one there, and \<open>Run\<close> has a program counter with one step per clock
  reading, critical section and unlocked access. A critical section is one step: the only unlocked accesses
  are the atomic store of \<open>lastSeen\<close> and the load of \<open>src\<close>, each of a single entry, so that one inside
  a critical section has the effect of one before or after it.
\<close>

section \<open>Entries behind pointers\<close>

type_synonym addr = nat

record HPlane =
  h_heap :: "addr \<Rightarrow> allocEntry"
  h_fresh :: addr
  h_byAlloc :: "u32 \<rightharpoonup> addr"
  h_byURI :: "uri \<rightharpoonup> u32 set"
  h_src2id :: "AddrPort \<rightharpoonup> u32"
  h_pending :: "u32 \<rightharpoonup> pendingEntry"
  h_queued :: "u32 \<rightharpoonup> queuedPunch"
  h_nextID :: u32
  h_idleTTL :: duration
  h_pendingTTL :: duration

definition nil_entry :: allocEntry where
  "nil_entry = \<lparr>ae_uri = [], ae_src = ZeroAddrPort, ae_lastSeen = 0\<rparr>"

definition h_NewPlane :: "duration \<Rightarrow> duration \<Rightarrow> HPlane" where
  "h_NewPlane idle pend = \<lparr>h_heap = (\<lambda>_. nil_entry), h_fresh = 0, h_byAlloc = Map.empty, h_byURI = Map.empty,
     h_src2id = Map.empty, h_pending = Map.empty, h_queued = Map.empty, h_nextID = 0,
     h_idleTTL = idle, h_pendingTTL = pend\<rparr>"

definition h_pending_ttl :: "HPlane \<Rightarrow> duration" where
  "h_pending_ttl h = (if h_pendingTTL h \<le> 0 then DefaultPendingTTL else h_pendingTTL h)"

text \<open>The plane that the pointers represent.\<close>

definition plane_at :: "HPlane \<Rightarrow> Plane" where
  "plane_at h = \<lparr>byAlloc = (\<lambda>i. map_option (h_heap h) (h_byAlloc h i)), byURI = h_byURI h, src2id = h_src2id h,
     pending = h_pending h, queued = h_queued h, nextID = h_nextID h, idleTTL = h_idleTTL h,
     pendingTTL = h_pendingTTL h\<rparr>"

section \<open>Operations\<close>

text \<open>The binding of the entry at \<open>a\<close>, in \<open>ArmPending\<close> and in \<open>register\<close>.\<close>

definition h_bind :: "u32 \<Rightarrow> addr \<Rightarrow> AddrPort \<Rightarrow> gotime \<Rightarrow> HPlane \<Rightarrow> HPlane" where
  "h_bind i a src now h =
     (let oldSrc = ae_src (h_heap h a) in
      h\<lparr>h_heap := (h_heap h)(a := (h_heap h a)\<lparr>ae_src := src, ae_lastSeen := now\<rparr>),
        h_src2id := (if oldSrc \<noteq> src
                     then (if IsValid oldSrc then (h_src2id h)(oldSrc := None) else h_src2id h)(src \<mapsto> i)
                     else h_src2id h)\<rparr>)"

definition h_ArmPending :: "gotime \<Rightarrow> u32 \<Rightarrow> uri \<Rightarrow> nonce \<Rightarrow> HPlane \<Rightarrow> planeErr option \<times> HPlane" where
  "h_ArmPending now allocID uri nonce h =
     (if uri = [] then (Some ErrOwnerMismatch, h)
      else case h_byAlloc h allocID of
        None \<Rightarrow> (Some ErrUnknownAlloc, h)
      | Some entry \<Rightarrow>
          if ae_uri (h_heap h entry) \<noteq> uri then (Some ErrOwnerMismatch, h)
          else
            let h1 = h\<lparr>h_queued := (h_queued h)(allocID := None)\<rparr>;
                armed = h1\<lparr>h_pending := (h_pending h1)(allocID \<mapsto>
                  \<lparr>pe_uri = uri, pe_nonce = nonce, pe_expires = now + h_pending_ttl h\<rparr>)\<rparr>
            in (None, case h_queued h allocID of
                        None \<Rightarrow> armed
                      | Some q \<Rightarrow>
                          if now < qp_expires q \<and> qp_nonce q = nonce
                          then h_bind allocID entry (qp_src q) now h1 else armed))"

text \<open>\<open>register\<close> reads the clock twice: \<open>now\<close> before it takes the lock, for the expiry of a queued punch and
  for \<open>lastSeen\<close>, and \<open>now'\<close> under the lock, for the expiry of the armed nonce.\<close>

definition h_register :: "gotime \<Rightarrow> gotime \<Rightarrow> u32 \<Rightarrow> AddrPort \<Rightarrow> nonce \<Rightarrow> HPlane \<Rightarrow> HPlane" where
  "h_register now now' allocID src nonce h =
     (case h_pending h allocID of
        None \<Rightarrow> h\<lparr>h_queued := (h_queued h)(allocID \<mapsto>
                   \<lparr>qp_src = src, qp_nonce = nonce, qp_expires = now + h_pending_ttl h\<rparr>)\<rparr>
      | Some pend \<Rightarrow>
          if pe_expires pend < now' then h\<lparr>h_pending := (h_pending h)(allocID := None)\<rparr>
          else if pe_nonce pend \<noteq> nonce then h
          else (case h_byAlloc h allocID of
                  None \<Rightarrow> h\<lparr>h_pending := (h_pending h)(allocID := None)\<rparr>
                | Some entry \<Rightarrow> (h_bind allocID entry src now h)\<lparr>h_pending := (h_pending h)(allocID := None)\<rparr>))"

text \<open>The critical section of \<open>Allocate\<close>, after the counter gave \<open>i\<close> and the clock \<open>now\<close>: \<open>&allocEntry{uri: uri}\<close>
  is a new object.\<close>

definition h_insert :: "gotime \<Rightarrow> uri \<Rightarrow> u32 \<Rightarrow> HPlane \<Rightarrow> HPlane" where
  "h_insert now uri i h =
     h\<lparr>h_heap := (h_heap h)(h_fresh h := \<lparr>ae_uri = uri, ae_src = ZeroAddrPort, ae_lastSeen = now\<rparr>),
       h_fresh := h_fresh h + 1,
       h_byAlloc := (h_byAlloc h)(i \<mapsto> h_fresh h),
       h_byURI := (h_byURI h)(uri \<mapsto> insert i (case h_byURI h uri of None \<Rightarrow> {} | Some S \<Rightarrow> S))\<rparr>"

definition h_drop_alloc :: "u32 \<Rightarrow> addr \<Rightarrow> HPlane \<Rightarrow> HPlane" where
  "h_drop_alloc i a h =
     (let e = h_heap h a in
      h\<lparr>h_byAlloc := (h_byAlloc h)(i := None),
        h_src2id := (h_src2id h)(ae_src e := None),
        h_byURI := (case h_byURI h (ae_uri e) of
                      None \<Rightarrow> h_byURI h
                    | Some S \<Rightarrow> (h_byURI h)(ae_uri e := (if S - {i} = {} then None else Some (S - {i}))))\<rparr>)"

definition h_drop_handshake :: "u32 \<Rightarrow> HPlane \<Rightarrow> HPlane" where
  "h_drop_handshake i h = h\<lparr>h_pending := (h_pending h)(i := None), h_queued := (h_queued h)(i := None)\<rparr>"

definition h_Forget :: "u32 \<Rightarrow> HPlane \<Rightarrow> HPlane" where
  "h_Forget i h = h_drop_handshake i (case h_byAlloc h i of None \<Rightarrow> h | Some a \<Rightarrow> h_drop_alloc i a h)"

definition h_forget_owned :: "u32 \<Rightarrow> nat \<times> HPlane \<Rightarrow> nat \<times> HPlane" where
  "h_forget_owned i nh = (case nh of (n, h) \<Rightarrow>
     (case h_byAlloc h i of
        None \<Rightarrow> (n, h)
      | Some a \<Rightarrow> (n + 1, h_drop_handshake i
          (h\<lparr>h_byAlloc := (h_byAlloc h)(i := None), h_src2id := (h_src2id h)(ae_src (h_heap h a) := None)\<rparr>))))"

definition h_ForgetAgent :: "u32 list \<Rightarrow> uri \<Rightarrow> HPlane \<Rightarrow> nat \<times> HPlane" where
  "h_ForgetAgent ids uri h =
     (if uri = [] then (0, h)
      else case h_byURI h uri of
        None \<Rightarrow> (0, h)
      | Some S \<Rightarrow> (case fold h_forget_owned ids (0, h) of (n, h') \<Rightarrow>
                     (n, h'\<lparr>h_byURI := (h_byURI h')(uri := None)\<rparr>)))"

definition h_gc_evict :: "gotime \<Rightarrow> u32 \<Rightarrow> HPlane \<Rightarrow> HPlane" where
  "h_gc_evict cutoff i h =
     (case h_byAlloc h i of
        None \<Rightarrow> h
      | Some a \<Rightarrow> if ae_lastSeen (h_heap h a) < cutoff then h_drop_handshake i (h_drop_alloc i a h) else h)"

definition h_gcOnce :: "gotime \<Rightarrow> u32 list \<Rightarrow> HPlane \<Rightarrow> HPlane" where
  "h_gcOnce now ids h =
     (let h1 = fold (h_gc_evict (now - h_idleTTL h)) ids h
      in h1\<lparr>h_pending := (\<lambda>i. case h_pending h1 i of None \<Rightarrow> None
                           | Some e \<Rightarrow> if pe_expires e < now then None else Some e),
            h_queued := (\<lambda>i. case h_queued h1 i of None \<Rightarrow> None
                          | Some q \<Rightarrow> if qp_expires q < now then None else Some q)\<rparr>)"

text \<open>\<open>senderEntry.lastSeen.Store(now)\<close>.\<close>

definition h_store_lastSeen :: "addr \<Rightarrow> gotime \<Rightarrow> HPlane \<Rightarrow> HPlane" where
  "h_store_lastSeen a now h = h\<lparr>h_heap := (h_heap h)(a := (h_heap h a)\<lparr>ae_lastSeen := now\<rparr>)\<rparr>"

section \<open>The pointers refine the values\<close>

text \<open>No two allocations share an entry.\<close>

definition alias_free :: "HPlane \<Rightarrow> bool" where
  "alias_free h \<longleftrightarrow> inj_on (h_byAlloc h) (dom (h_byAlloc h)) \<and> (\<forall>i a. h_byAlloc h i = Some a \<longrightarrow> a < h_fresh h)"

lemma alias_freeD: "alias_free h \<Longrightarrow> h_byAlloc h i = Some a \<Longrightarrow> h_byAlloc h j = Some a \<Longrightarrow> j = i"
  "alias_free h \<Longrightarrow> h_byAlloc h i = Some a \<Longrightarrow> a < h_fresh h"
  by (auto simp: alias_free_def inj_on_def dom_def)

lemma plane_at_sel [simp]:
  "byAlloc (plane_at h) i = map_option (h_heap h) (h_byAlloc h i)" "byURI (plane_at h) = h_byURI h"
  "src2id (plane_at h) = h_src2id h" "pending (plane_at h) = h_pending h" "queued (plane_at h) = h_queued h"
  "nextID (plane_at h) = h_nextID h" "idleTTL (plane_at h) = h_idleTTL h" "pendingTTL (plane_at h) = h_pendingTTL h"
  "pending_ttl (plane_at h) = h_pending_ttl h"
  by (simp_all add: plane_at_def pending_ttl_def h_pending_ttl_def)

text \<open>An update of the tables goes through; an update of a live entry is an update of its row.\<close>

lemma plane_at_tables [simp]:
  "plane_at (h\<lparr>h_pending := x\<rparr>) = (plane_at h)\<lparr>pending := x\<rparr>"
  "plane_at (h\<lparr>h_queued := y\<rparr>) = (plane_at h)\<lparr>queued := y\<rparr>"
  "plane_at (h\<lparr>h_src2id := z\<rparr>) = (plane_at h)\<lparr>src2id := z\<rparr>"
  "plane_at (h\<lparr>h_byURI := w\<rparr>) = (plane_at h)\<lparr>byURI := w\<rparr>"
  "plane_at (h\<lparr>h_nextID := n\<rparr>) = (plane_at h)\<lparr>nextID := n\<rparr>"
  "plane_at (h\<lparr>h_byAlloc := (h_byAlloc h)(i := None)\<rparr>) = (plane_at h)\<lparr>byAlloc := (byAlloc (plane_at h))(i := None)\<rparr>"
  by (simp_all add: plane_at_def fun_eq_iff)

lemma plane_at_entry:
  assumes "alias_free h" and "h_byAlloc h i = Some a"
  shows "plane_at (h\<lparr>h_heap := (h_heap h)(a := e)\<rparr>) = (plane_at h)\<lparr>byAlloc := (byAlloc (plane_at h))(i \<mapsto> e)\<rparr>"
proof -
  have "map_option ((h_heap h)(a := e)) (h_byAlloc h j) = ((\<lambda>k. map_option (h_heap h) (h_byAlloc h k))(i \<mapsto> e)) j" for j
    using assms alias_freeD(1) [OF assms, of j] by (cases "h_byAlloc h j") auto
  then show ?thesis by (simp add: plane_at_def fun_eq_iff)
qed

lemma plane_at_dead_entry:
  assumes "\<And>i. h_byAlloc h i \<noteq> Some a"
  shows "plane_at (h\<lparr>h_heap := (h_heap h)(a := e)\<rparr>) = plane_at h"
proof -
  have "map_option ((h_heap h)(a := e)) (h_byAlloc h j) = map_option (h_heap h) (h_byAlloc h j)" for j
    using assms [of j] by (cases "h_byAlloc h j") auto
  then show ?thesis by (simp add: plane_at_def fun_eq_iff)
qed

lemma h_bind_sel [simp]:
  "h_heap (h_bind i a src now h) = (h_heap h)(a := (h_heap h a)\<lparr>ae_src := src, ae_lastSeen := now\<rparr>)"
  "h_fresh (h_bind i a src now h) = h_fresh h" "h_byAlloc (h_bind i a src now h) = h_byAlloc h"
  "h_byURI (h_bind i a src now h) = h_byURI h" "h_pending (h_bind i a src now h) = h_pending h"
  "h_queued (h_bind i a src now h) = h_queued h" "h_nextID (h_bind i a src now h) = h_nextID h"
  "h_pending_ttl (h_bind i a src now h) = h_pending_ttl h"
  by (simp_all add: h_bind_def Let_def h_pending_ttl_def)

lemma plane_at_bind:
  assumes "alias_free h" and "h_byAlloc h i = Some a"
  shows "plane_at (h_bind i a src now h) = bind_src i (h_heap h a) src now (plane_at h)"
proof -
  have "plane_at (h_bind i a src now h) = (plane_at (h\<lparr>h_heap := (h_heap h)(a := (h_heap h a)\<lparr>ae_src := src, ae_lastSeen := now\<rparr>)\<rparr>))
      \<lparr>src2id := src2id (bind_src i (h_heap h a) src now (plane_at h))\<rparr>"
    by (simp add: h_bind_def Let_def bind_src_def plane_at_def)
  then show ?thesis by (simp add: plane_at_entry [OF assms] bind_src_def)
qed

lemma h_ArmPending_refines:
  assumes "alias_free h"
  shows "map_prod id plane_at (h_ArmPending now i u n h) = ArmPending now i u n (plane_at h)"
proof (cases "h_byAlloc h i")
  case (Some a)
  have "alias_free (h\<lparr>h_queued := x\<rparr>)" for x using assms by (simp add: alias_free_def)
  note b = plane_at_bind [OF this, of _ i a]
  show ?thesis by (simp add: h_ArmPending_def ArmPending_def Let_def Some b split: option.split)
qed (simp add: h_ArmPending_def ArmPending_def)

text \<open>When the two readings of \<open>register\<close> straddle the expiry of the armed nonce the later one decides.\<close>

lemma h_register_refines:
  assumes "alias_free h" and "t \<le> t'"
  shows "plane_at (h_register t t' i src n h) =
    register (case h_pending h i of None \<Rightarrow> t | Some pe \<Rightarrow> if pe_expires pe < t' then t' else t) i src n (plane_at h)"
  using assms(2) by (auto simp: h_register_def register_def plane_at_bind [OF assms(1)] split: option.split)

lemma h_insert_refines:
  assumes "alias_free h"
  shows "plane_at (h_insert now u i h) = (plane_at h)\<lparr>
    byAlloc := (byAlloc (plane_at h))(i \<mapsto> \<lparr>ae_uri = u, ae_src = ZeroAddrPort, ae_lastSeen = now\<rparr>),
    byURI := (h_byURI h)(u \<mapsto> insert i (case h_byURI h u of None \<Rightarrow> {} | Some S \<Rightarrow> S))\<rparr>"
proof -
  have "map_option ((h_heap h)(h_fresh h := e)) (((h_byAlloc h)(i \<mapsto> h_fresh h)) j) =
      ((\<lambda>k. map_option (h_heap h) (h_byAlloc h k))(i \<mapsto> e)) j" for e j
    using alias_freeD(2) [OF assms, of j] by (cases "h_byAlloc h j") auto
  then show ?thesis by (simp add: h_insert_def plane_at_def fun_eq_iff)
qed

lemma plane_at_drop:
  "plane_at (h_drop_handshake i h) = drop_handshake i (plane_at h)"
  "plane_at (h_drop_alloc i a h) = drop_alloc i (h_heap h a) (plane_at h)"
  by (simp_all add: h_drop_handshake_def drop_handshake_def h_drop_alloc_def drop_alloc_def Let_def plane_at_def fun_eq_iff
      split: option.split)

lemma h_Forget_refines: "plane_at (h_Forget i h) = Forget i (plane_at h)"
  by (auto simp: h_Forget_def Forget_def plane_at_drop split: option.split)

lemma h_forget_owned_refines: "map_prod id plane_at (h_forget_owned i nh) = forget_owned i (map_prod id plane_at nh)"
  by (auto simp: h_forget_owned_def forget_owned_def plane_at_drop split: prod.split option.split)

lemma h_forget_fold_refines:
  "map_prod id plane_at (fold h_forget_owned ids nh) = fold forget_owned ids (map_prod id plane_at nh)"
  by (induction ids arbitrary: nh) (simp_all add: h_forget_owned_refines)

lemma h_ForgetAgent_refines: "map_prod id plane_at (h_ForgetAgent ids u h) = ForgetAgent ids u (plane_at h)"
proof -
  obtain n h' where f: "fold h_forget_owned ids (0, h) = (n, h')" by fastforce
  with h_forget_fold_refines [of ids "(0, h)"] have "fold forget_owned ids (0, plane_at h) = (n, plane_at h')" by simp
  with f show ?thesis by (auto simp: h_ForgetAgent_def ForgetAgent_def split: option.split)
qed

lemma h_gc_evict_refines: "plane_at (h_gc_evict c i h) = gc_evict c i (plane_at h)"
  by (auto simp: h_gc_evict_def gc_evict_def plane_at_drop split: option.split)

lemma h_gc_fold_refines: "plane_at (fold (h_gc_evict c) ids h) = fold (gc_evict c) ids (plane_at h)"
  by (induction ids arbitrary: h) (simp_all add: h_gc_evict_refines)

lemma h_gcOnce_refines: "plane_at (h_gcOnce now ids h) = gcOnce now ids (plane_at h)"
  by (simp add: h_gcOnce_def gcOnce_def Let_def flip: h_gc_fold_refines)

section \<open>The read loop and the other goroutines\<close>

text \<open>
  Where \<open>Run\<close> stands: in \<open>ReadFromUDPAddrPort\<close>; in \<open>register\<close> before the lock; before the read lock of the data
  path; behind it, with the two pointers; and before the write to the peer, with the pointer of its entry.
\<close>

datatype run_pc =
    R_read
  | R_register gotime u32 AddrPort nonce
  | R_lookup gotime AddrPort "byte list"
  | R_bump gotime "addr option" "addr option" "byte list"
  | R_write addr "byte list"

text \<open>The loop body up to its first lock, with its clock reading.\<close>

definition run_receive :: "gotime \<Rightarrow> AddrPort \<Rightarrow> byte list \<Rightarrow> run_pc" where
  "run_receive now src buf =
     (if length buf < 4 then R_read
      else if BigEndian_Uint32 buf = 0 then
        if length buf < 8 + PunchNonceSize then R_read
        else R_register now (BigEndian_Uint32 (drop 4 buf)) src (take PunchNonceSize (drop 8 buf))
      else R_lookup now src buf)"

text \<open>Under the read lock.\<close>

definition run_lookup :: "gotime \<Rightarrow> AddrPort \<Rightarrow> byte list \<Rightarrow> HPlane \<Rightarrow> run_pc" where
  "run_lookup now src buf h =
     R_bump now (case h_src2id h src of None \<Rightarrow> None | Some senderID \<Rightarrow> h_byAlloc h senderID)
       (h_byAlloc h (BigEndian_Uint32 buf)) buf"

definition run_bump :: "gotime \<Rightarrow> addr option \<Rightarrow> HPlane \<Rightarrow> HPlane" where
  "run_bump now sender h = (case sender of None \<Rightarrow> h | Some a \<Rightarrow> h_store_lastSeen a now h)"

definition run_found :: "addr option \<Rightarrow> byte list \<Rightarrow> run_pc" where
  "run_found entry buf = (case entry of None \<Rightarrow> R_read | Some a \<Rightarrow> R_write a buf)"

text \<open>What \<open>WriteToUDPAddrPort(buf[4:n], entry.src)\<close> sends.\<close>

definition run_write :: "addr \<Rightarrow> byte list \<Rightarrow> HPlane \<Rightarrow> AddrPort \<times> byte list" where
  "run_write a buf h = (ae_src (h_heap h a), drop 4 buf)"

text \<open>
  \<open>hs_taken\<close> are the calls of \<open>Allocate\<close> between the counter and the lock. Ghosts: \<open>hs_id\<close> is the id an entry was
  created for, \<open>hs_hist\<close> the history of \<open>PlaneSys\<close>, \<open>hs_out\<close> the datagrams written, each behind the one received.
\<close>

record heap_sys =
  hs_now :: gotime
  hs_plane :: HPlane
  hs_run :: run_pc
  hs_taken :: "u32 \<rightharpoonup> uri"
  hs_id :: "addr \<Rightarrow> u32"
  hs_hist :: "auth_event list"
  hs_out :: "(byte list \<times> AddrPort \<times> byte list) list"

definition heap_init :: "heap_sys \<Rightarrow> bool" where
  "heap_init s \<longleftrightarrow> (\<exists>d d'. hs_plane s = h_NewPlane d d') \<and> hs_run s = R_read \<and> hs_taken s = Map.empty \<and>
     hs_hist s = [] \<and> hs_out s = []"

text \<open>
  \<open>D\<close> bounds how long a call of \<open>ArmPending\<close> or \<open>register\<close> waits for the lock after its clock reading. The
  counter has not used up its ids, as in \<open>PlaneSys\<close>.
\<close>

inductive heap_step :: "duration \<Rightarrow> heap_sys \<Rightarrow> heap_sys \<Rightarrow> bool" for D :: duration where
  hp_tick: "hs_now s \<le> t \<Longrightarrow> heap_step D s (s\<lparr>hs_now := t\<rparr>)"
| hp_take: "u \<noteq> [] \<Longrightarrow> h_nextID (hs_plane s) \<noteq> - 1 \<Longrightarrow> i = next_alloc (h_nextID (hs_plane s)) \<Longrightarrow>
    heap_step D s (s\<lparr>hs_plane := (hs_plane s)\<lparr>h_nextID := i\<rparr>, hs_taken := (hs_taken s)(i \<mapsto> u)\<rparr>)"
| hp_insert: "hs_taken s i = Some u \<Longrightarrow> t \<le> hs_now s \<Longrightarrow>
    heap_step D s (s\<lparr>hs_plane := h_insert t u i (hs_plane s), hs_taken := (hs_taken s)(i := None),
      hs_id := (hs_id s)(h_fresh (hs_plane s) := i)\<rparr>)"
| hp_forget: "heap_step D s (s\<lparr>hs_plane := h_Forget i (hs_plane s)\<rparr>)"
| hp_forget_agent: "(\<And>S. h_byURI (hs_plane s) u = Some S \<Longrightarrow> distinct ids \<and> set ids = S) \<Longrightarrow>
    heap_step D s (s\<lparr>hs_plane := snd (h_ForgetAgent ids u (hs_plane s))\<rparr>)"
| hp_gc: "range_order (h_byAlloc (hs_plane s)) ids \<Longrightarrow>
    heap_step D s (s\<lparr>hs_plane := h_gcOnce t ids (hs_plane s)\<rparr>)"
| hp_arm: "t \<le> hs_now s \<Longrightarrow> hs_now s \<le> t + D \<Longrightarrow> h_ArmPending t i u n (hs_plane s) = (err, h) \<Longrightarrow>
    heap_step D s (s\<lparr>hs_hist := (if err = None then Armed t i u n # hs_hist s else hs_hist s), hs_plane := h\<rparr>)"
| hp_receive: "hs_run s = R_read \<Longrightarrow> IsValid src \<Longrightarrow>
    heap_step D s (s\<lparr>hs_hist := (case punch_of buf of None \<Rightarrow> hs_hist s
                      | Some (i, n) \<Rightarrow> Punched (hs_now s) i src n # hs_hist s),
      hs_run := run_receive (hs_now s) src buf\<rparr>)"
| hp_register: "hs_run s = R_register t i src n \<Longrightarrow> hs_now s \<le> t + D \<Longrightarrow>
    heap_step D s (s\<lparr>hs_plane := h_register t (hs_now s) i src n (hs_plane s), hs_run := R_read\<rparr>)"
| hp_lookup: "hs_run s = R_lookup t src buf \<Longrightarrow> heap_step D s (s\<lparr>hs_run := run_lookup t src buf (hs_plane s)\<rparr>)"
| hp_bump: "hs_run s = R_bump t sender entry buf \<Longrightarrow>
    heap_step D s (s\<lparr>hs_plane := run_bump t sender (hs_plane s), hs_run := run_found entry buf\<rparr>)"
| hp_write: "hs_run s = R_write a buf \<Longrightarrow>
    heap_step D s (s\<lparr>hs_out := (buf, run_write a buf (hs_plane s)) # hs_out s, hs_run := R_read\<rparr>)"

abbreviation heap_reach :: "duration \<Rightarrow> heap_sys \<Rightarrow> bool" where
  "heap_reach D \<equiv> reach heap_init (heap_step D)"

end
