(* ===== verification/PlaneHeapInv.thy ===== *)
theory PlaneHeapInv
  imports PlaneHeap
begin

text \<open>
  The interleaved forwarding plane of \<open>PlaneHeap\<close> in every reachable state: no entry, live or released, is
  bound to a source that is not authenticated, the indexes agree, and the atomic system of \<open>PlaneSys\<close> is
  simulated.
\<close>

section \<open>The invariant\<close>

text \<open>
  Every entry, live or released, is bound only to a source authenticated for the id and the owner it was created
  for; the clauses before it are those of \<open>sys_inv\<close> on pointers, and those behind it hold what \<open>Run\<close> carries
  across its unlocked stretches.
\<close>

definition ptr_ok :: "heap_sys \<Rightarrow> bool" where
  "ptr_ok s \<longleftrightarrow>
     (\<forall>i a. h_byAlloc (hs_plane s) i = Some a \<longrightarrow>
        a < h_fresh (hs_plane s) \<and> hs_id s a = i \<and> i \<le> h_nextID (hs_plane s) \<and> hs_taken s i = None) \<and>
     (\<forall>i. hs_taken s i \<noteq> None \<longrightarrow> i \<le> h_nextID (hs_plane s))"

definition armed_ok :: "heap_sys \<Rightarrow> bool" where
  "armed_ok s \<longleftrightarrow> (\<forall>i pe. h_pending (hs_plane s) i = Some pe \<longrightarrow>
     (\<exists>a. h_byAlloc (hs_plane s) i = Some a \<and> ae_uri (h_heap (hs_plane s) a) = pe_uri pe) \<and>
     (\<exists>t. Armed t i (pe_uri pe) (pe_nonce pe) \<in> set (hs_hist s) \<and> pe_expires pe = t + h_pending_ttl (hs_plane s)))"

definition queue_ok :: "heap_sys \<Rightarrow> bool" where
  "queue_ok s \<longleftrightarrow> (\<forall>i q. h_queued (hs_plane s) i = Some q \<longrightarrow> IsValid (qp_src q) \<and>
     (\<exists>t. Punched t i (qp_src q) (qp_nonce q) \<in> set (hs_hist s) \<and> qp_expires q = t + h_pending_ttl (hs_plane s)))"

definition entries_ok :: "duration \<Rightarrow> heap_sys \<Rightarrow> bool" where
  "entries_ok D s \<longleftrightarrow> (\<forall>a e. a < h_fresh (hs_plane s) \<longrightarrow> h_heap (hs_plane s) a = e \<longrightarrow> IsValid (ae_src e) \<longrightarrow>
     authenticated (h_pending_ttl (hs_plane s) + D) (hs_hist s) (hs_id s a) (ae_uri e) (ae_src e))"

fun run_ok :: "run_pc \<Rightarrow> heap_sys \<Rightarrow> bool" where
  "run_ok R_read s = True"
| "run_ok (R_register t i src n) s = (IsValid src \<and> t \<le> hs_now s \<and> Punched t i src n \<in> set (hs_hist s))"
| "run_ok (R_lookup t src buf) s = (4 \<le> length buf)"
| "run_ok (R_bump t sender entry buf) s =
     (4 \<le> length buf \<and> (\<forall>a. entry = Some a \<longrightarrow> a < h_fresh (hs_plane s) \<and> hs_id s a = BigEndian_Uint32 buf))"
| "run_ok (R_write a buf) s = (4 \<le> length buf \<and> a < h_fresh (hs_plane s) \<and> hs_id s a = BigEndian_Uint32 buf)"

definition wrote_ok :: "duration \<Rightarrow> heap_sys \<Rightarrow> bool" where
  "wrote_ok D s \<longleftrightarrow> (\<forall>buf dst payload. (buf, dst, payload) \<in> set (hs_out s) \<longrightarrow>
     payload = drop 4 buf \<and> length payload < length buf \<and>
     (IsValid dst \<longrightarrow> (\<exists>u. authenticated (h_pending_ttl (hs_plane s) + D) (hs_hist s) (BigEndian_Uint32 buf) u dst)))"

definition heap_inv :: "duration \<Rightarrow> heap_sys \<Rightarrow> bool" where
  "heap_inv D s \<longleftrightarrow> ptr_ok s \<and> armed_ok s \<and> queue_ok s \<and> entries_ok D s \<and> run_ok (hs_run s) s \<and> wrote_ok D s \<and>
     (\<forall>ev \<in> set (hs_hist s). ev_time ev \<le> hs_now s)"

lemma heap_invD:
  assumes "heap_inv D s"
  shows "ptr_ok s" "armed_ok s" "queue_ok s" "entries_ok D s" "run_ok (hs_run s) s" "wrote_ok D s"
    "\<And>ev. ev \<in> set (hs_hist s) \<Longrightarrow> ev_time ev \<le> hs_now s"
  using assms by (simp_all add: heap_inv_def)

lemma heap_inv_alias_free:
  assumes "heap_inv D s"
  shows "alias_free (hs_plane s)"
proof -
  have "a < h_fresh (hs_plane s)" "hs_id s a = i" if "h_byAlloc (hs_plane s) i = Some a" for i a
    using heap_invD(1) [OF assms] that by (simp_all add: ptr_ok_def)
  note p = this
  have "i = j" if "h_byAlloc (hs_plane s) i = Some a" "h_byAlloc (hs_plane s) j = Some a" for i j a
    using p(2) [OF that(1)] p(2) [OF that(2)] by simp
  with p(1) show ?thesis by (auto simp: alias_free_def inj_on_def)
qed

lemma ptr_ok_taken:
  assumes "ptr_ok s" and "hs_taken s i = Some u"
  shows "h_byAlloc (hs_plane s) i = None" "i \<le> h_nextID (hs_plane s)"
  using assms by (cases "h_byAlloc (hs_plane s) i"; simp add: ptr_ok_def)+

text \<open>A step that only removes from the tables and leaves owners and sources of the entries alone.\<close>

definition h_shrinks :: "HPlane \<Rightarrow> HPlane \<Rightarrow> bool" where
  "h_shrinks h h' \<longleftrightarrow> h_pendingTTL h' = h_pendingTTL h \<and> h_fresh h' = h_fresh h \<and> h_nextID h' = h_nextID h \<and>
     h_byAlloc h' \<subseteq>\<^sub>m h_byAlloc h \<and> h_pending h' \<subseteq>\<^sub>m h_pending h \<and> h_queued h' \<subseteq>\<^sub>m h_queued h \<and>
     (\<forall>i. h_byAlloc h' i = None \<longrightarrow> h_byAlloc h i \<noteq> None \<longrightarrow> h_pending h' i = None) \<and>
     (\<forall>a. ae_uri (h_heap h' a) = ae_uri (h_heap h a) \<and> ae_src (h_heap h' a) = ae_src (h_heap h a))"

lemma h_shrinksI:
  assumes "h_pendingTTL h' = h_pendingTTL h" "h_fresh h' = h_fresh h" "h_nextID h' = h_nextID h"
    "h_byAlloc h' \<subseteq>\<^sub>m h_byAlloc h" "h_pending h' \<subseteq>\<^sub>m h_pending h" "h_queued h' \<subseteq>\<^sub>m h_queued h"
    "\<And>i. h_byAlloc h' i = None \<Longrightarrow> h_byAlloc h i \<noteq> None \<Longrightarrow> h_pending h' i = None"
    "h_heap h' = h_heap h"
  shows "h_shrinks h h'"
  using assms by (simp add: h_shrinks_def)

lemma h_shrinks_trans:
  assumes "h_shrinks h h'" and "h_shrinks h' h''"
  shows "h_shrinks h h''"
proof -
  have "h_pending h'' i = None" if "h_byAlloc h'' i = None" "h_byAlloc h i \<noteq> None" for i
  proof (cases "h_byAlloc h' i")
    case None
    with that(2) assms(1) have "h_pending h' i = None" by (simp add: h_shrinks_def)
    with assms(2) show ?thesis by (cases "h_pending h'' i") (auto simp: h_shrinks_def dest: map_leD)
  qed (use that assms(2) in \<open>simp add: h_shrinks_def\<close>)
  with assms show ?thesis by (auto simp: h_shrinks_def intro: map_le_trans)
qed

lemma heap_inv_shrinks:
  assumes inv: "heap_inv D s" and sh: "h_shrinks (hs_plane s) h"
  shows "heap_inv D (s\<lparr>hs_plane := h\<rparr>)"
proof -
  have T: "h_pending_ttl h = h_pending_ttl (hs_plane s)" "h_fresh h = h_fresh (hs_plane s)" "h_nextID h = h_nextID (hs_plane s)"
    using sh by (simp_all add: h_shrinks_def h_pending_ttl_def)
  have e: "ae_uri (h_heap h a) = ae_uri (h_heap (hs_plane s) a)" "ae_src (h_heap h a) = ae_src (h_heap (hs_plane s) a)" for a
    using sh by (simp_all add: h_shrinks_def)
  have m: "h_byAlloc h i = Some a \<Longrightarrow> h_byAlloc (hs_plane s) i = Some a"
    "h_pending h i = Some pe \<Longrightarrow> h_pending (hs_plane s) i = Some pe"
    "h_queued h i = Some q \<Longrightarrow> h_queued (hs_plane s) i = Some q" for i a pe q
    using sh by (auto simp: h_shrinks_def dest: map_leD)
  have "ptr_ok (s\<lparr>hs_plane := h\<rparr>)" using heap_invD(1) [OF inv] m(1) by (auto simp: ptr_ok_def T)
  moreover have "queue_ok (s\<lparr>hs_plane := h\<rparr>)" using heap_invD(3) [OF inv] m(3) by (fastforce simp: queue_ok_def T)
  moreover have "entries_ok D (s\<lparr>hs_plane := h\<rparr>)" using heap_invD(4) [OF inv] by (simp add: entries_ok_def T e)
  moreover have "armed_ok (s\<lparr>hs_plane := h\<rparr>)"
    unfolding armed_ok_def
  proof (intro allI impI)
    fix i pe assume a: "h_pending (hs_plane (s\<lparr>hs_plane := h\<rparr>)) i = Some pe"
    then have "h_pending (hs_plane s) i = Some pe" using m(2) by simp
    with heap_invD(2) [OF inv] obtain a where
      b: "h_byAlloc (hs_plane s) i = Some a" "ae_uri (h_heap (hs_plane s) a) = pe_uri pe"
      "\<exists>t. Armed t i (pe_uri pe) (pe_nonce pe) \<in> set (hs_hist s) \<and> pe_expires pe = t + h_pending_ttl (hs_plane s)"
      unfolding armed_ok_def by blast
    have "h_byAlloc h i \<noteq> None" using a b(1) sh by (auto simp: h_shrinks_def)
    with m(1) b(1) have "h_byAlloc h i = Some a" by fastforce
    with b show "(\<exists>a. h_byAlloc (hs_plane (s\<lparr>hs_plane := h\<rparr>)) i = Some a \<and>
        ae_uri (h_heap (hs_plane (s\<lparr>hs_plane := h\<rparr>)) a) = pe_uri pe) \<and>
      (\<exists>t. Armed t i (pe_uri pe) (pe_nonce pe) \<in> set (hs_hist (s\<lparr>hs_plane := h\<rparr>)) \<and>
         pe_expires pe = t + h_pending_ttl (hs_plane (s\<lparr>hs_plane := h\<rparr>)))"
      by (simp add: T e)
  qed
  moreover have "run_ok (hs_run s) (s\<lparr>hs_plane := h\<rparr>)" using heap_invD(5) [OF inv] by (cases "hs_run s") (simp_all add: T)
  moreover have "wrote_ok D (s\<lparr>hs_plane := h\<rparr>)" using heap_invD(6) [OF inv] by (simp add: wrote_ok_def T)
  ultimately show ?thesis using heap_invD(7) [OF inv] by (simp add: heap_inv_def)
qed

lemma h_shrinks_refl [simp]: "h_shrinks h h"
  by (simp add: h_shrinks_def)

lemma h_shrinks_drop_handshake: "h_shrinks h (h_drop_handshake i h)"
  by (rule h_shrinksI) (auto simp: h_drop_handshake_def map_le_def)

lemma h_shrinks_drop: "h_shrinks h (h_drop_handshake i (h_drop_alloc i a h))"
  by (rule h_shrinksI) (auto simp: h_drop_handshake_def h_drop_alloc_def Let_def map_le_def)

lemma h_shrinks_Forget: "h_shrinks h (h_Forget i h)"
  by (auto simp: h_Forget_def h_shrinks_drop_handshake h_shrinks_drop split: option.split)

lemma h_shrinks_forget_owned: "h_shrinks (snd nh) (snd (h_forget_owned i nh))"
  by (cases nh, cases "h_byAlloc (snd nh) i")
    (auto simp: h_forget_owned_def h_drop_handshake_def map_le_def intro!: h_shrinksI)

lemma h_shrinks_forget_fold: "h_shrinks (snd nh) (snd (fold h_forget_owned ids nh))"
proof (induction ids arbitrary: nh)
  case (Cons i ids)
  show ?case using h_shrinks_trans [OF h_shrinks_forget_owned Cons.IH] by simp
qed simp

lemma h_shrinks_ForgetAgent: "h_shrinks h (snd (h_ForgetAgent ids u h))"
proof -
  obtain n h' where f: "fold h_forget_owned ids (0, h) = (n, h')" by fastforce
  with h_shrinks_forget_fold [of "(0, h)" ids] have "h_shrinks h h'" by simp
  then show ?thesis by (auto simp: h_ForgetAgent_def f h_shrinks_def split: option.split)
qed

lemma h_shrinks_gc_fold: "h_shrinks h (fold (h_gc_evict c) ids h)"
proof (induction ids arbitrary: h)
  case (Cons i ids)
  have "h_shrinks h (h_gc_evict c i h)" by (auto simp: h_gc_evict_def h_shrinks_drop split: option.split)
  from h_shrinks_trans [OF this Cons.IH] show ?case by simp
qed simp

lemma h_shrinks_gcOnce: "h_shrinks h (h_gcOnce now ids h)"
proof (rule h_shrinks_trans [OF h_shrinks_gc_fold])
  show "h_shrinks (fold (h_gc_evict (now - h_idleTTL h)) ids h) (h_gcOnce now ids h)"
    by (rule h_shrinksI) (auto simp: h_gcOnce_def Let_def map_le_def split: option.splits if_splits)
qed

lemma h_shrinks_store: "h_shrinks h (h_store_lastSeen a now h)" "h_shrinks h (run_bump now sender h)"
  by (auto simp: h_shrinks_def h_store_lastSeen_def run_bump_def split: option.split)

lemma h_shrinks_unpend: "h_shrinks h (h\<lparr>h_pending := (h_pending h)(i := None)\<rparr>)"
  "h_shrinks h (h\<lparr>h_queued := (h_queued h)(i := None)\<rparr>)"
  by (auto intro!: h_shrinksI simp: map_le_def)

text \<open>The other steps: the clock, the program counter and the history; a binding; the two halves of the handshake.\<close>

lemma heap_inv_log:
  assumes "heap_inv D s" and "ev_time ev \<le> hs_now s"
  shows "heap_inv D (s\<lparr>hs_hist := ev # hs_hist s\<rparr>)"
proof -
  let ?s = "s\<lparr>hs_hist := ev # hs_hist s\<rparr>"
  have m: "authenticated T (hs_hist s) i u x \<Longrightarrow> authenticated T (ev # hs_hist s) i u x" for T i u x
    by (rule authenticated_mono) auto
  have "armed_ok ?s"
    unfolding armed_ok_def
  proof (intro allI impI)
    fix i pe assume "h_pending (hs_plane ?s) i = Some pe"
    with heap_invD(2) [OF assms(1)] have "(\<exists>a. h_byAlloc (hs_plane s) i = Some a \<and> ae_uri (h_heap (hs_plane s) a) = pe_uri pe) \<and>
      (\<exists>t. Armed t i (pe_uri pe) (pe_nonce pe) \<in> set (hs_hist s) \<and> pe_expires pe = t + h_pending_ttl (hs_plane s))"
      by (simp add: armed_ok_def)
    then show "(\<exists>a. h_byAlloc (hs_plane ?s) i = Some a \<and> ae_uri (h_heap (hs_plane ?s) a) = pe_uri pe) \<and>
      (\<exists>t. Armed t i (pe_uri pe) (pe_nonce pe) \<in> set (hs_hist ?s) \<and> pe_expires pe = t + h_pending_ttl (hs_plane ?s))"
      by auto
  qed
  moreover have "queue_ok ?s"
    unfolding queue_ok_def
  proof (intro allI impI)
    fix i q assume "h_queued (hs_plane ?s) i = Some q"
    with heap_invD(3) [OF assms(1)] have "IsValid (qp_src q) \<and>
      (\<exists>t. Punched t i (qp_src q) (qp_nonce q) \<in> set (hs_hist s) \<and> qp_expires q = t + h_pending_ttl (hs_plane s))"
      by (simp add: queue_ok_def)
    then show "IsValid (qp_src q) \<and>
      (\<exists>t. Punched t i (qp_src q) (qp_nonce q) \<in> set (hs_hist ?s) \<and> qp_expires q = t + h_pending_ttl (hs_plane ?s))"
      by auto
  qed
  moreover have "entries_ok D ?s" using heap_invD(4) [OF assms(1)] by (simp add: entries_ok_def m)
  moreover have "wrote_ok D ?s" using heap_invD(6) [OF assms(1)] m unfolding wrote_ok_def by simp blast
  moreover have "run_ok (hs_run s) ?s" using heap_invD(5) [OF assms(1)] by (cases "hs_run s") simp_all
  ultimately show ?thesis
    using heap_invD(1,7) [OF assms(1)] assms(2) by (simp add: heap_inv_def ptr_ok_def)
qed

lemma heap_inv_run:
  assumes "heap_inv D s" and "run_ok pc s"
  shows "heap_inv D (s\<lparr>hs_run := pc\<rparr>)"
proof -
  have "run_ok pc (s\<lparr>hs_run := pc\<rparr>)" using assms(2) by (cases pc) simp_all
  with heap_invD [OF assms(1)] show ?thesis
    by (simp add: heap_inv_def ptr_ok_def armed_ok_def queue_ok_def entries_ok_def wrote_ok_def)
qed

lemma heap_inv_tick:
  assumes "heap_inv D s" and "hs_now s \<le> t"
  shows "heap_inv D (s\<lparr>hs_now := t\<rparr>)"
proof -
  have "run_ok (hs_run s) (s\<lparr>hs_now := t\<rparr>)"
    using heap_invD(5) [OF assms(1)] assms(2) by (cases "hs_run s") simp_all
  moreover have "\<forall>ev \<in> set (hs_hist s). ev_time ev \<le> t"
    using heap_invD(7) [OF assms(1)] assms(2) order_trans by blast
  ultimately show ?thesis
    using heap_invD(1-4,6) [OF assms(1)]
    by (simp add: heap_inv_def ptr_ok_def armed_ok_def queue_ok_def entries_ok_def wrote_ok_def)
qed

lemma heap_inv_bind:
  assumes inv: "heap_inv D s" and a: "h_byAlloc (hs_plane s) i = Some a"
    and au: "authenticated (h_pending_ttl (hs_plane s) + D) (hs_hist s) i (ae_uri (h_heap (hs_plane s) a)) src"
  shows "heap_inv D (s\<lparr>hs_plane := h_bind i a src now (hs_plane s)\<rparr>)"
proof -
  let ?s = "s\<lparr>hs_plane := h_bind i a src now (hs_plane s)\<rparr>"
  have "hs_id s a = i" using heap_invD(1) [OF inv] a by (simp add: ptr_ok_def)
  with heap_invD(4) [OF inv] au have "entries_ok D ?s" by (simp add: entries_ok_def)
  moreover have u: "ae_uri (h_heap (hs_plane ?s) b) = ae_uri (h_heap (hs_plane s) b)" for b by simp
  moreover have "armed_ok ?s" using heap_invD(2) [OF inv] unfolding armed_ok_def u by simp
  moreover have "run_ok (hs_run s) ?s" using heap_invD(5) [OF inv] by (cases "hs_run s") simp_all
  moreover have "ptr_ok ?s" "queue_ok ?s" "wrote_ok D ?s"
    using heap_invD(1,3,6) [OF inv] by (simp_all add: ptr_ok_def queue_ok_def wrote_ok_def)
  ultimately show ?thesis using heap_invD(7) [OF inv] by (simp add: heap_inv_def)
qed

lemma heap_inv_enqueue:
  assumes inv: "heap_inv D s" and v: "IsValid src" and ev: "Punched t i src n \<in> set (hs_hist s)"
  shows "heap_inv D (s\<lparr>hs_plane := (hs_plane s)\<lparr>h_queued := (h_queued (hs_plane s))(i \<mapsto>
    \<lparr>qp_src = src, qp_nonce = n, qp_expires = t + h_pending_ttl (hs_plane s)\<rparr>)\<rparr>\<rparr>)" (is "heap_inv D ?s")
proof -
  have T: "h_pending_ttl (hs_plane ?s) = h_pending_ttl (hs_plane s)" by (simp add: h_pending_ttl_def)
  have "queue_ok ?s" using heap_invD(3) [OF inv] v ev unfolding queue_ok_def T by simp
  moreover have "run_ok (hs_run s) ?s" using heap_invD(5) [OF inv] by (cases "hs_run s") simp_all
  moreover have "ptr_ok ?s" "armed_ok ?s" "entries_ok D ?s" "wrote_ok D ?s"
    using heap_invD(1,2,4,6) [OF inv] unfolding ptr_ok_def armed_ok_def entries_ok_def wrote_ok_def T by simp_all
  ultimately show ?thesis using heap_invD(7) [OF inv] by (simp add: heap_inv_def)
qed

lemma heap_inv_arm_pending:
  assumes inv: "heap_inv D s" and a: "h_byAlloc (hs_plane s) i = Some a" "ae_uri (h_heap (hs_plane s) a) = u"
    and ev: "Armed t i u n \<in> set (hs_hist s)"
  shows "heap_inv D (s\<lparr>hs_plane := (hs_plane s)\<lparr>h_pending := (h_pending (hs_plane s))(i \<mapsto>
    \<lparr>pe_uri = u, pe_nonce = n, pe_expires = t + h_pending_ttl (hs_plane s)\<rparr>)\<rparr>\<rparr>)" (is "heap_inv D ?s")
proof -
  have T: "h_pending_ttl (hs_plane ?s) = h_pending_ttl (hs_plane s)" by (simp add: h_pending_ttl_def)
  have "armed_ok ?s" using heap_invD(2) [OF inv] a ev unfolding armed_ok_def T by simp
  moreover have "run_ok (hs_run s) ?s" using heap_invD(5) [OF inv] by (cases "hs_run s") simp_all
  moreover have "ptr_ok ?s" "queue_ok ?s" "entries_ok D ?s" "wrote_ok D ?s"
    using heap_invD(1,3,4,6) [OF inv] unfolding ptr_ok_def queue_ok_def entries_ok_def wrote_ok_def T by simp_all
  ultimately show ?thesis using heap_invD(7) [OF inv] by (simp add: heap_inv_def)
qed

lemma h_pending_ttl_pos: "0 < h_pending_ttl h"
  by (auto simp: h_pending_ttl_def DefaultPendingTTL_def)

lemma heap_inv_register:
  assumes inv: "heap_inv D s" and v: "IsValid src" and ev: "Punched t i src n \<in> set (hs_hist s)"
    and t: "t \<le> hs_now s" "hs_now s \<le> t + D"
  shows "heap_inv D (s\<lparr>hs_plane := h_register t (hs_now s) i src n (hs_plane s)\<rparr>)"
proof (cases "h_pending (hs_plane s) i")
  case None
  with heap_inv_enqueue [OF inv v ev] show ?thesis by (simp add: h_register_def)
next
  case (Some pe)
  with heap_invD(2) [OF inv] obtain a ta where a: "h_byAlloc (hs_plane s) i = Some a"
    "ae_uri (h_heap (hs_plane s) a) = pe_uri pe" "Armed ta i (pe_uri pe) (pe_nonce pe) \<in> set (hs_hist s)"
    "pe_expires pe = ta + h_pending_ttl (hs_plane s)"
    unfolding armed_ok_def by blast
  note drop = heap_inv_shrinks [OF _ h_shrinks_unpend(1)]
  show ?thesis
  proof (cases "hs_now s \<le> pe_expires pe \<and> pe_nonce pe = n")
    case True
    have "ta \<le> hs_now s" using heap_invD(7) [OF inv a(3)] by simp
    with True t a(4) h_pending_ttl_pos [of "hs_plane s"] have
      "ta < t + (h_pending_ttl (hs_plane s) + D)" "t \<le> ta + (h_pending_ttl (hs_plane s) + D)" by linarith+
    with True ev a have "authenticated (h_pending_ttl (hs_plane s) + D) (hs_hist s) i (ae_uri (h_heap (hs_plane s) a)) src"
      unfolding authenticated_def by auto
    from drop [OF heap_inv_bind [OF inv a(1) this], of t i] True Some a(1)
    show ?thesis by (simp add: h_register_def)
  next
    case False
    with Some inv drop [OF inv, of i] show ?thesis by (auto simp: h_register_def)
  qed
qed

lemma heap_inv_ArmPending:
  assumes inv: "heap_inv D s" and ev: "Armed t i u n \<in> set (hs_hist s)" and t: "t \<le> hs_now s" "hs_now s \<le> t + D"
  shows "heap_inv D (s\<lparr>hs_plane := snd (h_ArmPending t i u n (hs_plane s))\<rparr>)"
proof (cases "\<exists>a. h_byAlloc (hs_plane s) i = Some a \<and> ae_uri (h_heap (hs_plane s) a) = u \<and> u \<noteq> []")
  case False
  with inv show ?thesis by (auto simp: h_ArmPending_def split: option.split)
next
  case True
  then obtain a where a: "h_byAlloc (hs_plane s) i = Some a" "ae_uri (h_heap (hs_plane s) a) = u" "u \<noteq> []" by blast
  let ?s = "s\<lparr>hs_plane := (hs_plane s)\<lparr>h_queued := (h_queued (hs_plane s))(i := None)\<rparr>\<rparr>"
  have inv1: "heap_inv D ?s" by (rule heap_inv_shrinks [OF inv h_shrinks_unpend(2)])
  have T: "h_pending_ttl (hs_plane ?s) = h_pending_ttl (hs_plane s)" by (simp add: h_pending_ttl_def)
  have arm: "heap_inv D (?s\<lparr>hs_plane := (hs_plane ?s)\<lparr>h_pending := (h_pending (hs_plane ?s))(i \<mapsto>
      \<lparr>pe_uri = u, pe_nonce = n, pe_expires = t + h_pending_ttl (hs_plane ?s)\<rparr>)\<rparr>\<rparr>)"
    by (rule heap_inv_arm_pending [OF inv1, of i a]) (simp_all add: a ev)
  have bind: "heap_inv D (?s\<lparr>hs_plane := h_bind i a (qp_src q) t (hs_plane ?s)\<rparr>)"
    if q: "h_queued (hs_plane s) i = Some q" "t < qp_expires q" "qp_nonce q = n" for q
  proof (rule heap_inv_bind [OF inv1])
    obtain tp where tp: "Punched tp i (qp_src q) (qp_nonce q) \<in> set (hs_hist s)"
      "qp_expires q = tp + h_pending_ttl (hs_plane s)"
      using heap_invD(3) [OF inv] q(1) unfolding queue_ok_def by blast
    have "tp \<le> hs_now s" using heap_invD(7) [OF inv tp(1)] by simp
    with q(2) t tp(2) h_pending_ttl_pos [of "hs_plane s"] have
      "t < tp + (h_pending_ttl (hs_plane s) + D)" "tp \<le> t + (h_pending_ttl (hs_plane s) + D)" by linarith+
    with tp(1) q(3) ev a(2) show "authenticated (h_pending_ttl (hs_plane ?s) + D) (hs_hist ?s) i
        (ae_uri (h_heap (hs_plane ?s) a)) (qp_src q)"
      unfolding authenticated_def T by auto
  qed (simp add: a)
  show ?thesis using a arm bind T by (auto simp: h_ArmPending_def Let_def split: option.split)
qed

lemma heap_inv_take:
  assumes inv: "heap_inv D s" and n: "h_nextID (hs_plane s) \<noteq> - 1"
  shows "heap_inv D (s\<lparr>hs_plane := (hs_plane s)\<lparr>h_nextID := next_alloc (h_nextID (hs_plane s))\<rparr>,
    hs_taken := (hs_taken s)(next_alloc (h_nextID (hs_plane s)) \<mapsto> u)\<rparr>)" (is "heap_inv D ?s")
proof -
  have T: "h_pending_ttl (hs_plane ?s) = h_pending_ttl (hs_plane s)" by (simp add: h_pending_ttl_def)
  note lt = next_alloc_greater [OF n]
  have "h_byAlloc (hs_plane s) (next_alloc (h_nextID (hs_plane s))) \<noteq> Some a" for a
  proof
    assume "h_byAlloc (hs_plane s) (next_alloc (h_nextID (hs_plane s))) = Some a"
    with heap_invD(1) [OF inv] have "next_alloc (h_nextID (hs_plane s)) \<le> h_nextID (hs_plane s)" by (simp add: ptr_ok_def)
    with lt show False by simp
  qed
  with heap_invD(1) [OF inv] lt have "ptr_ok ?s" by (auto simp: ptr_ok_def intro: order.trans [OF _ less_imp_le])
  moreover have "run_ok (hs_run s) ?s" using heap_invD(5) [OF inv] by (cases "hs_run s") simp_all
  moreover have "armed_ok ?s" "queue_ok ?s" "entries_ok D ?s" "wrote_ok D ?s"
    using heap_invD(2,3,4,6) [OF inv] unfolding armed_ok_def queue_ok_def entries_ok_def wrote_ok_def T by simp_all
  ultimately show ?thesis using heap_invD(7) [OF inv] by (simp add: heap_inv_def)
qed

lemma heap_inv_insert:
  assumes inv: "heap_inv D s" and tk: "hs_taken s i = Some u"
  shows "heap_inv D (s\<lparr>hs_plane := h_insert t u i (hs_plane s), hs_taken := (hs_taken s)(i := None),
    hs_id := (hs_id s)(h_fresh (hs_plane s) := i)\<rparr>)" (is "heap_inv D ?s")
proof -
  have T: "h_pending_ttl (hs_plane ?s) = h_pending_ttl (hs_plane s)" by (simp add: h_insert_def h_pending_ttl_def)
  have old: "a < h_fresh (hs_plane s)" "i \<noteq> j" if "h_byAlloc (hs_plane s) j = Some a" for j a
    using heap_invD(1) [OF inv] that tk by (auto simp: ptr_ok_def)
  have "ptr_ok ?s"
    using heap_invD(1) [OF inv] old tk by (auto simp: ptr_ok_def h_insert_def less_Suc_eq)
  moreover have "armed_ok ?s"
    unfolding armed_ok_def T
  proof (intro allI impI)
    fix j pe assume "h_pending (hs_plane ?s) j = Some pe"
    then have "h_pending (hs_plane s) j = Some pe" by (simp add: h_insert_def)
    with heap_invD(2) [OF inv] obtain a where a: "h_byAlloc (hs_plane s) j = Some a"
      "ae_uri (h_heap (hs_plane s) a) = pe_uri pe"
      "\<exists>t. Armed t j (pe_uri pe) (pe_nonce pe) \<in> set (hs_hist s) \<and> pe_expires pe = t + h_pending_ttl (hs_plane s)"
      unfolding armed_ok_def by blast
    with old [OF a(1)] show "(\<exists>a. h_byAlloc (hs_plane ?s) j = Some a \<and> ae_uri (h_heap (hs_plane ?s) a) = pe_uri pe) \<and>
      (\<exists>t. Armed t j (pe_uri pe) (pe_nonce pe) \<in> set (hs_hist ?s) \<and> pe_expires pe = t + h_pending_ttl (hs_plane s))"
      by (simp add: h_insert_def)
  qed
  moreover have "entries_ok D ?s"
    using heap_invD(4) [OF inv] unfolding entries_ok_def T by (auto simp: h_insert_def less_Suc_eq IsValid_def)
  moreover have "run_ok (hs_run s) ?s"
    using heap_invD(5) [OF inv] by (cases "hs_run s") (auto simp: h_insert_def)
  moreover have "queue_ok ?s" "wrote_ok D ?s"
    using heap_invD(3,6) [OF inv] unfolding queue_ok_def wrote_ok_def T by (simp_all add: h_insert_def)
  ultimately show ?thesis using heap_invD(7) [OF inv] by (simp add: heap_inv_def)
qed

lemma run_receive_ok:
  assumes "IsValid src"
  shows "run_ok (run_receive (hs_now s) src buf) (s\<lparr>hs_hist := (case punch_of buf of None \<Rightarrow> hs_hist s
    | Some (i, n) \<Rightarrow> Punched (hs_now s) i src n # hs_hist s)\<rparr>)"
  using assms by (auto simp: run_receive_def punch_of_def PunchNonceSize_def)

lemma heap_inv_write:
  assumes inv: "heap_inv D s" and r: "hs_run s = R_write a buf"
  shows "heap_inv D (s\<lparr>hs_out := (buf, run_write a buf (hs_plane s)) # hs_out s\<rparr>)" (is "heap_inv D ?s")
proof -
  have a: "4 \<le> length buf" "a < h_fresh (hs_plane s)" "hs_id s a = BigEndian_Uint32 buf"
    using heap_invD(5) [OF inv] r by simp_all
  have "IsValid (ae_src (h_heap (hs_plane s) a)) \<Longrightarrow>
      \<exists>u. authenticated (h_pending_ttl (hs_plane s) + D) (hs_hist s) (BigEndian_Uint32 buf) u (ae_src (h_heap (hs_plane s) a))"
    using heap_invD(4) [OF inv] a(2,3) unfolding entries_ok_def by metis
  with a(1) heap_invD(6) [OF inv] have "wrote_ok D ?s" by (auto simp: wrote_ok_def run_write_def)
  moreover have "run_ok (hs_run s) ?s" using heap_invD(5) [OF inv] by (cases "hs_run s") simp_all
  ultimately show ?thesis
    using heap_invD(1-4,7) [OF inv] by (simp add: heap_inv_def ptr_ok_def armed_ok_def queue_ok_def entries_ok_def)
qed

lemma heap_step_inv: "heap_step D s t \<Longrightarrow> heap_inv D s \<Longrightarrow> heap_inv D t"
proof (induction rule: heap_step.induct)
  case (hp_arm t s i u n err h)
  show ?case
  proof (cases "err = None")
    case True
    have "heap_inv D (s\<lparr>hs_hist := Armed t i u n # hs_hist s\<rparr>)"
      by (rule heap_inv_log [OF hp_arm(4)]) (simp add: hp_arm(1))
    from heap_inv_ArmPending [OF this, of t i u n] hp_arm True show ?thesis by simp
  next
    case False
    with hp_arm show ?thesis by (auto simp: h_ArmPending_def Let_def split: if_splits option.splits)
  qed
next
  case (hp_receive s src buf)
  let ?s = "s\<lparr>hs_hist := (case punch_of buf of None \<Rightarrow> hs_hist s
    | Some (i, n) \<Rightarrow> Punched (hs_now s) i src n # hs_hist s)\<rparr>"
  have "heap_inv D ?s"
    using hp_receive(3) heap_inv_log [OF hp_receive(3)] by (auto split: option.split)
  from heap_inv_run [OF this run_receive_ok [OF hp_receive(2)]] show ?case by simp
next
  case (hp_register s t i src n)
  from heap_invD(5) [OF hp_register(3)] hp_register(1) have
    r: "IsValid src" "t \<le> hs_now s" "Punched t i src n \<in> set (hs_hist s)" by simp_all
  from heap_inv_run [OF heap_inv_register [OF hp_register(3) r(1,3,2) hp_register(2)], of R_read] show ?case by simp
next
  case (hp_lookup s t src buf)
  have "run_ok (run_lookup t src buf (hs_plane s)) s"
    using heap_invD(1,5) [OF hp_lookup(2)] hp_lookup(1) by (auto simp: run_lookup_def ptr_ok_def)
  from heap_inv_run [OF hp_lookup(2) this] show ?case .
next
  case (hp_bump s t sender entry buf)
  let ?s = "s\<lparr>hs_plane := run_bump t sender (hs_plane s)\<rparr>"
  have inv: "heap_inv D ?s" by (rule heap_inv_shrinks [OF hp_bump(2) h_shrinks_store(2)])
  have "run_ok (run_found entry buf) ?s"
    using heap_invD(5) [OF inv] hp_bump(1) by (auto simp: run_found_def split: option.split)
  from heap_inv_run [OF inv this] show ?case by simp
next
  case (hp_write s a buf)
  from heap_inv_run [OF heap_inv_write [OF hp_write(2,1)], of R_read] show ?case by simp
qed (simp_all add: heap_inv_tick heap_inv_take heap_inv_insert heap_inv_shrinks h_shrinks_Forget h_shrinks_ForgetAgent
    h_shrinks_gcOnce)

interpretation heap_system: inductive_invariant heap_init "heap_step D" "heap_inv D" for D
proof unfold_locales
  fix s assume "heap_init s"
  then show "heap_inv D s"
    by (auto simp: heap_init_def heap_inv_def h_NewPlane_def ptr_ok_def armed_ok_def queue_ok_def entries_ok_def wrote_ok_def)
qed (rule heap_step_inv)

section \<open>The indexes under interleaving\<close>

text \<open>The plane that the pointers represent keeps the invariant of \<open>Plane\<close>, whatever is interleaved.\<close>

definition indexes_inv :: "duration \<Rightarrow> heap_sys \<Rightarrow> bool" where
  "indexes_inv D s \<longleftrightarrow> heap_inv D s \<and> plane_inv (plane_at (hs_plane s)) \<and>
     (\<forall>i u. hs_taken s i = Some u \<longrightarrow> 0 < i \<and> u \<noteq> [])"

text \<open>A late store of \<open>lastSeen\<close> touches the entry's row while the allocation lives, and nothing afterwards.\<close>

lemma store_lastSeen_refines:
  assumes "alias_free h"
  shows "plane_at (h_store_lastSeen a now h) = plane_at h \<or>
    (\<exists>i. h_byAlloc h i = Some a \<and> plane_at (h_store_lastSeen a now h) =
       (plane_at h)\<lparr>byAlloc := (byAlloc (plane_at h))(i \<mapsto> (h_heap h a)\<lparr>ae_lastSeen := now\<rparr>)\<rparr>)"
proof (cases "\<exists>i. h_byAlloc h i = Some a")
  case True
  then obtain i where "h_byAlloc h i = Some a" by blast
  with plane_at_entry [OF assms this] show ?thesis by (auto simp: h_store_lastSeen_def)
next
  case False
  then show ?thesis using plane_at_dead_entry [of h a] by (simp add: h_store_lastSeen_def)
qed

lemma store_lastSeen_inv: "alias_free h \<Longrightarrow> plane_inv (plane_at h) \<Longrightarrow> plane_inv (plane_at (h_store_lastSeen a now h))"
  using store_lastSeen_refines [of h a now] touch_inv [of "plane_at h" _ "h_heap h a" now] by auto

lemma run_bump_inv: "alias_free h \<Longrightarrow> plane_inv (plane_at h) \<Longrightarrow> plane_inv (plane_at (run_bump now sender h))"
  by (auto simp: run_bump_def store_lastSeen_inv split: option.split)

lemma heap_step_plane_inv:
  assumes "heap_step D s t" and "indexes_inv D s"
  shows "plane_inv (plane_at (hs_plane t))"
proof -
  have inv: "heap_inv D s" "plane_inv (plane_at (hs_plane s))" using assms(2) by (simp_all add: indexes_inv_def)
  note af = heap_inv_alias_free [OF inv(1)]
  from assms(1) show ?thesis
  proof cases
    case (hp_take u i)
    then show ?thesis using next_id_inv [OF inv(2)] next_alloc_greater by (simp add: less_imp_le)
  next
    case (hp_insert i u t)
    note ptr_ok_taken [OF heap_invD(1) [OF inv(1)] hp_insert(2)]
    moreover have "0 < i" "u \<noteq> []" using assms(2) hp_insert(2) by (simp_all add: indexes_inv_def)
    ultimately show ?thesis
      using insert_alloc_inv [OF inv(2), of i u t] hp_insert(1) by (simp add: h_insert_refines [OF af])
  next
    case (hp_forget i)
    then show ?thesis by (simp add: h_Forget_refines Forget_inv [OF inv(2)])
  next
    case (hp_forget_agent u ids)
    have "plane_at (snd (h_ForgetAgent ids u (hs_plane s))) = snd (ForgetAgent ids u (plane_at (hs_plane s)))"
      by (simp flip: h_ForgetAgent_refines)
    then show ?thesis using ForgetAgent_inv [OF inv(2), of u ids] hp_forget_agent by simp
  next
    case (hp_gc ids t)
    then show ?thesis by (simp add: h_gcOnce_refines gcOnce_inv [OF inv(2)])
  next
    case (hp_arm t i u n err h)
    have "plane_at h = snd (ArmPending t i u n (plane_at (hs_plane s)))"
      using hp_arm(4) by (simp flip: h_ArmPending_refines [OF af])
    moreover have "IsValid (qp_src q)" if "queued (plane_at (hs_plane s)) i = Some q" for q
      using heap_invD(3) [OF inv(1)] that by (simp add: queue_ok_def)
    ultimately show ?thesis using ArmPending_inv [OF inv(2)] hp_arm(1) by simp
  next
    case (hp_register t i src n)
    then have "t \<le> hs_now s" "IsValid src" using heap_invD(5) [OF inv(1)] by simp_all
    then show ?thesis
      using hp_register(1) by (simp add: h_register_refines [OF af] register_inv [OF inv(2)])
  next
    case (hp_bump t sender entry buf)
    then show ?thesis by (simp add: run_bump_inv [OF af inv(2)])
  qed (simp_all add: inv(2))
qed

lemma heap_step_taken:
  assumes "heap_step D s t" and "hs_taken t i = Some u" and "\<And>u. hs_taken s i = Some u \<Longrightarrow> 0 < i \<and> u \<noteq> []"
  shows "0 < i \<and> u \<noteq> []"
  using assms
proof cases
  case (hp_take u i)
  with assms(2,3) next_alloc_nonzero [of "h_nextID (hs_plane s)"] show ?thesis
    by (auto simp: word_neq_0_conv split: if_splits)
qed (auto split: if_splits)

interpretation heap_indexes: inductive_invariant heap_init "heap_step D" "indexes_inv D" for D
proof unfold_locales
  fix s assume s: "heap_init s"
  then have "plane_inv (plane_at (hs_plane s))"
    by (auto simp: heap_init_def h_NewPlane_def plane_at_def plane_inv_def index_ok_def src_ok_def pend_ok_def ids_ok_def)
  with s heap_system.inv_init [OF s, of D] show "indexes_inv D s" by (simp add: indexes_inv_def heap_init_def)
next
  fix s t assume st: "heap_step D s t" and inv: "indexes_inv D s"
  then have "heap_inv D t" using heap_step_inv by (auto simp: indexes_inv_def)
  moreover have "0 < i \<and> u \<noteq> []" if "hs_taken t i = Some u" for i u
    using heap_step_taken [OF st that] inv by (simp add: indexes_inv_def)
  ultimately show "indexes_inv D t" using heap_step_plane_inv [OF st inv] by (simp add: indexes_inv_def)
qed

section \<open>The atomic system is a run of this one\<close>

definition sys_of :: "heap_sys \<Rightarrow> plane_sys" where
  "sys_of s = \<lparr>sy_now = hs_now s, sy_plane = plane_at (hs_plane s), sy_hist = hs_hist s\<rparr>"

lemma sys_of_sel [simp]:
  "sy_now (sys_of s) = hs_now s" "sy_plane (sys_of s) = plane_at (hs_plane s)" "sy_hist (sys_of s) = hs_hist s"
  by (simp_all add: sys_of_def)

text \<open>Between two datagrams and with no call of \<open>Allocate\<close> under way.\<close>

definition at_rest :: "heap_sys \<Rightarrow> bool" where
  "at_rest s \<longleftrightarrow> hs_run s = R_read \<and> hs_taken s = Map.empty"

text \<open>The body of the read loop, undisturbed.\<close>

definition run_packet :: "AddrPort \<Rightarrow> byte list \<Rightarrow> heap_sys \<Rightarrow> heap_sys" where
  "run_packet src buf s = (let h = hs_plane s in
     case run_receive (hs_now s) src buf of
       R_register t i src n \<Rightarrow> s\<lparr>hs_hist := Punched t i src n # hs_hist s, hs_plane := h_register t t i src n h\<rparr>
     | R_lookup t src buf \<Rightarrow> (case run_lookup t src buf h of
         R_bump t sender entry buf \<Rightarrow> (let h' = run_bump t sender h in
           case run_found entry buf of
             R_write a buf \<Rightarrow> s\<lparr>hs_plane := h', hs_out := (buf, run_write a buf h') # hs_out s\<rparr>
           | _ \<Rightarrow> s\<lparr>hs_plane := h'\<rparr>)
       | _ \<Rightarrow> s)
     | _ \<Rightarrow> s)"

lemma plane_at_run_bump:
  assumes "alias_free h"
  shows "plane_at (run_bump now (case h_src2id h src of None \<Rightarrow> None | Some i \<Rightarrow> h_byAlloc h i) h) =
    bump_sender now src (plane_at h)"
proof (cases "h_src2id h src")
  case (Some i)
  then show ?thesis
    by (cases "h_byAlloc h i")
      (simp_all add: run_bump_def bump_sender_def h_store_lastSeen_def plane_at_entry [OF assms])
qed (simp add: run_bump_def bump_sender_def)

lemma run_bump_src: "ae_src (h_heap (run_bump now sender h) a) = ae_src (h_heap h a)"
  by (simp add: run_bump_def h_store_lastSeen_def split: option.split)

text \<open>It does to the plane and sends what \<open>handle_packet\<close> says.\<close>

lemma run_packet_refines:
  assumes "alias_free (hs_plane s)" and "handle_packet (hs_now s) src buf (plane_at (hs_plane s)) = (q, out)"
  shows "sys_of (run_packet src buf s) = (sys_of s)\<lparr>sy_hist := (case punch_of buf of None \<Rightarrow> hs_hist s
      | Some (i, n) \<Rightarrow> Punched (hs_now s) i src n # hs_hist s), sy_plane := q\<rparr>"
    and "hs_out (run_packet src buf s) = (case out of None \<Rightarrow> hs_out s | Some d \<Rightarrow> (buf, d) # hs_out s)"
  using assms(2)
  by (auto simp: run_packet_def Let_def run_receive_def run_lookup_def run_found_def run_write_def run_bump_src handle_packet_def
      punch_of_def PunchNonceSize_def sys_of_def plane_at_run_bump [OF assms(1)] h_register_refines [OF assms(1)]
      split: option.splits if_splits)

lemma run_receive_cases:
  obtains (short) "run_receive now src buf = R_read" "punch_of buf = None"
  | (punch) i n where "run_receive now src buf = R_register now i src n" "punch_of buf = Some (i, n)"
  | (data) "run_receive now src buf = R_lookup now src buf" "punch_of buf = None"
proof (cases "punch_of buf")
  case None
  then have "run_receive now src buf = R_read \<or> run_receive now src buf = R_lookup now src buf"
    by (auto simp: run_receive_def punch_of_def split: if_splits)
  with short data None show thesis by blast
next
  case (Some p)
  then have "run_receive now src buf = R_register now (fst p) src (snd p)"
    by (auto simp: run_receive_def punch_of_def PunchNonceSize_def split: if_splits)
  with punch [of "fst p" "snd p"] Some show thesis by simp
qed

lemma run_packet_rest: "at_rest s \<Longrightarrow> at_rest (run_packet src buf s)"
  by (auto simp: run_packet_def at_rest_def Let_def split: run_pc.split)

lemma run_packet_steps:
  assumes r: "hs_run s = R_read" and "IsValid src" and "0 \<le> D"
  shows "(heap_step D)\<^sup>*\<^sup>* s (run_packet src buf s)"
proof -
  let ?h = "case punch_of buf of None \<Rightarrow> hs_hist s | Some (i, n) \<Rightarrow> Punched (hs_now s) i src n # hs_hist s"
  have st: "heap_step D s (s\<lparr>hs_hist := ?h, hs_run := run_receive (hs_now s) src buf\<rparr>)"
    by (rule hp_receive [OF r assms(2)])
  show ?thesis
  proof (cases rule: run_receive_cases [of "hs_now s" src buf])
    case short
    then show ?thesis by (simp add: run_packet_def)
  next
    case (punch i n)
    let ?s = "s\<lparr>hs_hist := ?h, hs_run := R_register (hs_now s) i src n\<rparr>"
    have "heap_step D ?s (?s\<lparr>hs_plane := h_register (hs_now s) (hs_now ?s) i src n (hs_plane ?s), hs_run := R_read\<rparr>)"
      by (rule hp_register) (simp_all add: assms(3))
    also have "?s\<lparr>hs_plane := h_register (hs_now s) (hs_now ?s) i src n (hs_plane ?s), hs_run := R_read\<rparr> = run_packet src buf s"
      using r punch by (simp add: run_packet_def Let_def)
    finally show ?thesis using st punch(1) by (simp add: converse_rtranclp_into_rtranclp)
  next
    case data
    let ?s = "s\<lparr>hs_run := R_lookup (hs_now s) src buf\<rparr>"
    obtain sender entry where l: "run_lookup (hs_now s) src buf (hs_plane s) = R_bump (hs_now s) sender entry buf"
      by (simp add: run_lookup_def)
    let ?s1 = "s\<lparr>hs_run := R_bump (hs_now s) sender entry buf\<rparr>"
    let ?s2 = "s\<lparr>hs_plane := run_bump (hs_now s) sender (hs_plane s), hs_run := run_found entry buf\<rparr>"
    have "heap_step D s ?s" using st data by simp
    moreover have "heap_step D ?s ?s1" using hp_lookup [of ?s "hs_now s" src buf D] l by simp
    moreover have "heap_step D ?s1 ?s2" using hp_bump [of ?s1 "hs_now s" sender entry buf D] by simp
    ultimately have 2: "(heap_step D)\<^sup>*\<^sup>* s ?s2" by (meson converse_rtranclp_into_rtranclp rtranclp.rtrancl_refl)
    show ?thesis
    proof (cases entry)
      case None
      with r data l have "?s2 = run_packet src buf s" by (simp add: run_packet_def run_found_def)
      with 2 show ?thesis by simp
    next
      case (Some a)
      then have "heap_step D ?s2 (?s2\<lparr>hs_out := (buf, run_write a buf (hs_plane ?s2)) # hs_out ?s2, hs_run := R_read\<rparr>)"
        by (intro hp_write) (simp add: run_found_def)
      also have "?s2\<lparr>hs_out := (buf, run_write a buf (hs_plane ?s2)) # hs_out ?s2, hs_run := R_read\<rparr> = run_packet src buf s"
        using Some r data l by (simp add: run_packet_def run_found_def Let_def)
      finally show ?thesis by (rule rtranclp.rtrancl_into_rtrancl [OF 2])
    qed
  qed
qed

text \<open>\<open>Allocate\<close> without interruption is the step from the counter followed by the one under the lock.\<close>

lemma Allocate_realised:
  assumes rest: "at_rest s" and inv: "heap_inv D s" and nw: "h_nextID (hs_plane s) \<noteq> - 1"
    and al: "Allocate (hs_now s) u (plane_at (hs_plane s)) = Some (i, q)"
  shows "\<exists>s'. (heap_step D)\<^sup>*\<^sup>* s s' \<and> sys_of s' = (sys_of s)\<lparr>sy_plane := q\<rparr> \<and> at_rest s'"
proof -
  have i: "i = next_alloc (h_nextID (hs_plane s))" "u \<noteq> []" using al by (auto simp: Allocate_def Let_def split: if_splits)
  let ?s1 = "s\<lparr>hs_plane := (hs_plane s)\<lparr>h_nextID := i\<rparr>, hs_taken := (hs_taken s)(i \<mapsto> u)\<rparr>"
  let ?s2 = "?s1\<lparr>hs_plane := h_insert (hs_now s) u i (hs_plane ?s1), hs_taken := (hs_taken ?s1)(i := None),
    hs_id := (hs_id ?s1)(h_fresh (hs_plane ?s1) := i)\<rparr>"
  have "heap_step D s ?s1" by (rule hp_take [OF i(2) nw i(1)])
  moreover have "heap_step D ?s1 ?s2" by (rule hp_insert) simp_all
  ultimately have "(heap_step D)\<^sup>*\<^sup>* s ?s2" by simp
  moreover have "at_rest ?s2" using rest by (simp add: at_rest_def)
  moreover have "alias_free ((hs_plane s)\<lparr>h_nextID := i\<rparr>)"
    using heap_inv_alias_free [OF inv] by (simp add: alias_free_def)
  from h_insert_refines [OF this, of "hs_now s" u i] have "sys_of ?s2 = (sys_of s)\<lparr>sy_plane := q\<rparr>"
    using al i by (auto simp: sys_of_def Allocate_def Let_def)
  ultimately show ?thesis by blast
qed

lemma plane_step_realised:
  assumes "plane_step (sys_of s) t" and rest: "at_rest s" and inv: "heap_inv D s" and D: "0 \<le> D"
  shows "\<exists>s'. (heap_step D)\<^sup>*\<^sup>* s s' \<and> sys_of s' = t \<and> at_rest s'"
proof -
  note af = heap_inv_alias_free [OF inv]
  have one: ?thesis if "heap_step D s s'" "sys_of s' = t" "hs_run s' = hs_run s" "hs_taken s' = hs_taken s" for s'
    using that rest by (auto simp: at_rest_def)
  from assms(1) show ?thesis
  proof cases
    case (pl_tick now)
    then show ?thesis by (intro one [OF hp_tick [of s now]]) (simp_all add: sys_of_def)
  next
    case (pl_allocate u i q)
    then show ?thesis using Allocate_realised [OF rest inv] by simp
  next
    case (pl_forget i)
    then show ?thesis by (intro one [OF hp_forget [of D s i]]) (simp_all add: sys_of_def h_Forget_refines)
  next
    case (pl_forget_agent u ids)
    have "plane_at (snd (h_ForgetAgent ids u (hs_plane s))) = snd (ForgetAgent ids u (plane_at (hs_plane s)))"
      by (simp flip: h_ForgetAgent_refines)
    then show ?thesis
      using pl_forget_agent by (intro one [OF hp_forget_agent [of s u ids]]) (auto simp: sys_of_def)
  next
    case (pl_arm i u n err q)
    obtain h where h: "h_ArmPending (hs_now s) i u n (hs_plane s) = (err, h)" "plane_at h = q"
      using pl_arm(2) by (cases "h_ArmPending (hs_now s) i u n (hs_plane s)") (simp flip: h_ArmPending_refines [OF af])
    show ?thesis by (rule one [OF hp_arm [OF _ _ h(1)]]) (simp_all add: sys_of_def pl_arm(1) h(2) D)
  next
    case (pl_packet src buf q out)
    have "sys_of (run_packet src buf s) = t"
      using run_packet_refines(1) [OF af, of src buf q out] pl_packet unfolding sys_of_sel by simp
    moreover have "hs_run s = R_read" using rest by (simp add: at_rest_def)
    ultimately show ?thesis
      using run_packet_steps [OF _ pl_packet(2) D, of s buf] run_packet_rest [OF rest, of src buf] by blast
  next
    case (pl_gc ids)
    have "dom (byAlloc (plane_at (hs_plane s))) = dom (h_byAlloc (hs_plane s))" by (auto simp: plane_at_def)
    then show ?thesis
      using pl_gc by (intro one [OF hp_gc [of s ids D "hs_now s"]]) (simp_all add: sys_of_def h_gcOnce_refines range_order_def)
  qed
qed

interpretation atomic_plane: simulation plane_sys_init plane_step heap_init "heap_step \<bar>D\<bar>"
  "\<lambda>t s. sys_of s = t \<and> at_rest s" for D
proof unfold_locales
  fix t assume "plane_sys_init t"
  then obtain d d' where t: "sy_plane t = SetIdleTTL d (SetPendingTTL d' NewPlane)" "sy_hist t = []"
    by (auto simp: plane_sys_init_def)
  let ?s = "\<lparr>hs_now = sy_now t, hs_plane = h_NewPlane d d', hs_run = R_read, hs_taken = Map.empty, hs_id = (\<lambda>_. 0),
    hs_hist = [], hs_out = []\<rparr>"
  have "heap_init ?s" by (auto simp: heap_init_def)
  moreover have "sys_of ?s = t \<and> at_rest ?s"
    using t by (cases t) (simp add: sys_of_def at_rest_def plane_at_def h_NewPlane_def SetIdleTTL_def SetPendingTTL_def NewPlane_def)
  ultimately show "\<exists>s. heap_init s \<and> sys_of s = t \<and> at_rest s" by blast
next
  fix t t' s
  assume st: "plane_step t t'" and r: "sys_of s = t \<and> at_rest s" and re: "heap_reach \<bar>D\<bar> s"
  have "plane_step (sys_of s) t'" using st r by simp
  from plane_step_realised [OF this conjunct2 [OF r] heap_system.reach_inv [OF re]]
  show "\<exists>s'. (heap_step \<bar>D\<bar>)\<^sup>*\<^sup>* s s' \<and> sys_of s' = t' \<and> at_rest s'" by simp
qed

section \<open>Properties\<close>

text \<open>C3: a datagram that the plane writes carries the payload of the datagram received, and goes to a source
  authenticated for the allocation named in its prefix, if it goes to a valid address at all. This holds
  for every interleaving of the read loop with registrations, releases and collections, also when the
  allocation is released or bound anew between the lookup of its entry and the write. The window
  between registration and punch is the pending time to live, plus the time \<open>D\<close> that a call may wait
  for the lock after reading the clock.\<close>

theorem heap_writes_authenticated:
  assumes "heap_reach D s" and "(buf, dst, payload) \<in> set (hs_out s)"
  shows "payload = drop 4 buf \<and> length payload < length buf \<and>
    (IsValid dst \<longrightarrow> (\<exists>u. authenticated (h_pending_ttl (hs_plane s) + D) (hs_hist s) (BigEndian_Uint32 buf) u dst))"
  using heap_invD(6) [OF heap_system.reach_inv [OF assms(1)]] assms(2) by (simp add: wrote_ok_def)

text \<open>A run in which the allocation is released between the lookup and the write: the datagram still goes out.\<close>

lemma demo3_at_rest: "\<exists>s. heap_reach 0 s \<and> sys_of s = demo3 \<and> at_rest s"
  using atomic_plane.sim_reach [OF demo3_reach, of 0] by simp

lemma demo_released_run:
  "\<exists>s. heap_reach 0 s \<and> Lookup 1 (plane_at (hs_plane s)) = None \<and> (demo_data, demo_src, [42, 43]) \<in> set (hs_out s)"
proof -
  obtain s where s: "heap_reach 0 s" "sys_of s = demo3" "at_rest s" using demo3_at_rest by blast
  have p: "plane_at (hs_plane s) = sy_plane demo3" and r: "hs_run s = R_read"
    using s(2,3) by (simp_all add: at_rest_def flip: s(2))
  obtain a where a: "h_byAlloc (hs_plane s) 1 = Some a" "ae_src (h_heap (hs_plane s) a) = demo_src"
    using demo3_entry by (auto simp flip: p)
  have d: "run_receive (hs_now s) demo_src demo_data = R_lookup (hs_now s) demo_src demo_data"
    "BigEndian_Uint32 demo_data = 1" "drop 4 demo_data = [42, 43]" "punch_of demo_data = None"
    by (simp add: run_receive_def) code_simp+
  let ?h = "run_bump (hs_now s) (case h_src2id (hs_plane s) demo_src of None \<Rightarrow> None | Some i \<Rightarrow> h_byAlloc (hs_plane s) i) (hs_plane s)"
  let ?s1 = "s\<lparr>hs_run := R_lookup (hs_now s) demo_src demo_data\<rparr>"
  let ?s2 = "?s1\<lparr>hs_run := run_lookup (hs_now s) demo_src demo_data (hs_plane s)\<rparr>"
  let ?s3 = "?s2\<lparr>hs_plane := ?h, hs_run := R_write a demo_data\<rparr>"
  let ?s4 = "?s3\<lparr>hs_plane := h_Forget 1 ?h\<rparr>"
  let ?s5 = "?s4\<lparr>hs_out := (demo_data, run_write a demo_data (h_Forget 1 ?h)) # hs_out ?s4, hs_run := R_read\<rparr>"
  have "heap_step 0 s ?s1"
    using hp_receive [OF r, of demo_src 0 demo_data] d by (simp add: IsValid_def demo_src_def)
  then have "heap_reach 0 ?s1" by (rule reach_step [OF s(1)])
  then have "heap_reach 0 ?s2" by (rule reach_step) (use hp_lookup [of ?s1] in simp)
  then have "heap_reach 0 ?s3"
    by (rule reach_step) (use hp_bump [of ?s2] in \<open>simp add: run_lookup_def d a run_found_def\<close>)
  then have "heap_reach 0 ?s4" by (rule reach_step) (use hp_forget [of 0 ?s3 1] in simp)
  then have "heap_reach 0 ?s5" by (rule reach_step) (use hp_write [of ?s4 a demo_data 0] in simp)
  moreover have "h_heap (h_Forget 1 ?h) = h_heap ?h"
    by (simp add: h_Forget_def h_drop_handshake_def h_drop_alloc_def Let_def split: option.split)
  then have "run_write a demo_data (h_Forget 1 ?h) = (demo_src, [42, 43])"
    by (simp add: run_write_def run_bump_src a d)
  moreover have "Lookup 1 (plane_at (h_Forget 1 ?h)) = None"
    by (simp add: Lookup_def h_Forget_refines Forget_def drop_handshake_def drop_alloc_def split: option.split)
  ultimately show ?thesis by (intro exI [of _ ?s5]) simp
qed

theorem heap_writes_authenticated_witness:
  "\<exists>s u. heap_reach 0 s \<and> Lookup 1 (plane_at (hs_plane s)) = None \<and> (demo_data, demo_src, [42, 43]) \<in> set (hs_out s) \<and>
    authenticated (h_pending_ttl (hs_plane s) + 0) (hs_hist s) (BigEndian_Uint32 demo_data) u demo_src"
proof -
  obtain s where s: "heap_reach 0 s" "Lookup 1 (plane_at (hs_plane s)) = None" "(demo_data, demo_src, [42, 43]) \<in> set (hs_out s)"
    using demo_released_run by blast
  from heap_writes_authenticated [OF s(1,3)] obtain u where
    "authenticated (h_pending_ttl (hs_plane s) + 0) (hs_hist s) (BigEndian_Uint32 demo_data) u demo_src"
    by (auto simp: IsValid_def demo_src_def)
  with s show ?thesis by blast
qed



text \<open>The atomic steps of \<open>PlaneSys\<close> are runs of the interleaved system: whatever bound \<open>D\<close> there is on the wait
  for the lock, every state that the atomic system reaches is one that the interleaved system reaches with
  the read loop between two datagrams.\<close>

lemma atomic_plane_realised:
  assumes "plane_reach t" and "0 \<le> D"
  shows "\<exists>s. heap_reach D s \<and> sys_of s = t \<and> at_rest s"
  using atomic_plane.sim_reach [OF assms(1), of D] assms(2) by simp

lemma atomic_plane_realised_witness: "\<exists>s. heap_reach 1 s \<and> sys_of s = demo3 \<and> at_rest s"
  by (rule atomic_plane_realised [OF demo3_reach]) simp

end
