(* ===== verification/ResumeSplice.thy ===== *)
theory ResumeSplice
  imports ResumeMatcher
begin

text \<open>
  Who owns the streams of a resumed pair (\<open>handleResumeHalf\<close>, \<open>handleMigrateToRelay\<close> and \<open>splicePair\<close> of
  \<open>pkg/edge/edge.go\<close> on the matcher of \<open>pkg/edge/resume.go\<close>). The goroutine that completes the pair splices
  both streams. The one that was parked must not return before the splice is over, since the
  deferred close of \<open>handleConsumerStream\<close> would cut its stream; the splicer tells it by closing
  the \<open>done\<close> channel, which panics if that channel is nil or closed already.
\<close>

section \<open>Invariant\<close>

text \<open>A parked half has an open \<open>done\<close> channel and a waiting handler. Until the splicer of a pair has returned, the
  \<open>done\<close> channel of the other half is open and the handler of that half has not returned.\<close>

definition splice_ok :: "resume_sys \<Rightarrow> bool" where
  "splice_ok s \<longleftrightarrow>
     (\<forall>i r. rm_pending (rs_m s) i = Some r \<longrightarrow> hs_done (half s r) = Some False \<and> rs_handler s r = H_recv) \<and>
     (\<forall>r p. rs_partner s r = Some p \<longrightarrow> hs_splicer (half s r) \<longrightarrow> rs_handler s r \<noteq> H_exit \<longrightarrow>
        hs_done (half s p) = Some False \<and> (rs_handler s p = H_recv \<or> rs_handler s p = H_matched r))"

lemma splice_okD:
  assumes "splice_ok s"
  shows "rm_pending (rs_m s) i = Some r \<Longrightarrow> hs_done (half s r) = Some False"
    and "rm_pending (rs_m s) i = Some r \<Longrightarrow> rs_handler s r = H_recv"
    and "rs_partner s r = Some p \<Longrightarrow> hs_splicer (half s r) \<Longrightarrow> rs_handler s r \<noteq> H_exit \<Longrightarrow> hs_done (half s p) = Some False"
    and "rs_partner s r = Some p \<Longrightarrow> hs_splicer (half s r) \<Longrightarrow> rs_handler s r \<noteq> H_exit \<Longrightarrow>
      rs_handler s p = H_recv \<or> rs_handler s p = H_matched r"
  using assms unfolding splice_ok_def by blast+

lemma submit_splice_ok:
  assumes "resume_inv s" and "splice_ok s"
  shows "splice_ok (do_submit now i u my ack s)" (is "splice_ok ?s")
proof -
  note inv = resume_invD [OF assms(1)] and ok = splice_okD [OF assms(2)]
  note fresh = partner_fresh [OF inv(2)]
  show ?thesis
  proof (cases "rm_pending (rs_m s) i")
    case None
    have "hs_done (half ?s r) = Some False \<and> rs_handler ?s r = H_recv" if "rm_pending (rs_m ?s) j = Some r" for j r
      using that None ok(1,2) [of j r] by (auto simp: submit_defs split: if_splits)
    moreover have "hs_done (half ?s p) = Some False \<and> (rs_handler ?s p = H_recv \<or> rs_handler ?s p = H_matched r)"
      if a: "rs_partner ?s r = Some p" "hs_splicer (half ?s r)" "rs_handler ?s r \<noteq> H_exit" for r p
    proof -
      have rp: "rs_partner s r = Some p" using a(1) None by (simp add: submit_defs)
      with pairedD(2,3) [OF inv(2) rp] a None ok(3,4) [OF rp] show ?thesis by (auto simp: submit_defs)
    qed
    ultimately show ?thesis unfolding splice_ok_def by blast
  next
    case (Some q)
    note pk = parkedD [OF inv(1) Some] and okq = ok(1,2) [OF Some]
    have st: "rs_partner ?s = (rs_partner s)(q \<mapsto> rs_next s, rs_next s \<mapsto> q)"
      "rm_pending (rs_m ?s) = (rm_pending (rs_m s))(i := None)"
      using Some by (simp_all add: submit_defs)
    have h: "half ?s r = half s r" "rs_handler ?s r = rs_handler s r" if "r \<noteq> q" "r \<noteq> rs_next s" for r
      using that Some by (simp_all add: submit_defs)
    have q: "hs_done (half ?s q) = hs_done (half s q)" "rs_handler ?s q = rs_handler s q" "\<not> hs_splicer (half ?s q)"
      using Some pk(1) by (simp_all add: submit_defs)
    have other: "r \<noteq> q \<and> r \<noteq> rs_next s" if "rm_pending (rs_m s) j = Some r" "j \<noteq> i" for j r
      using parkedD(1,2) [OF inv(1) that(1)] pk(2) that(2) by auto
    have "hs_done (half ?s r) = Some False \<and> rs_handler ?s r = H_recv" if "rm_pending (rs_m ?s) j = Some r" for j r
    proof -
      have j: "rm_pending (rs_m s) j = Some r" "j \<noteq> i" using that by (auto simp: st split: if_splits)
      then show ?thesis using ok(1,2) [OF j(1)] other [OF j] h by simp
    qed
    moreover have "hs_done (half ?s p) = Some False \<and> (rs_handler ?s p = H_recv \<or> rs_handler ?s p = H_matched r)"
      if a: "rs_partner ?s r = Some p" "hs_splicer (half ?s r)" "rs_handler ?s r \<noteq> H_exit" for r p
    proof (cases "r = rs_next s")
      case True
      then show ?thesis using a(1) q okq by (simp add: st)
    next
      case False
      have rq: "r \<noteq> q" using a(2) q(3) by blast
      then have r: "r \<noteq> q" "rs_partner s r = Some p" using a(1) False by (simp_all add: st)
      have p: "p \<noteq> q" "p \<noteq> rs_next s" using pairedD(3,4) [OF inv(2) r(2)] pk(3) by auto
      with ok(3,4) [OF r(2)] a(2,3) h r(1) False show ?thesis by simp
    qed
    ultimately show ?thesis unfolding splice_ok_def by blast
  qed
qed

lemma splice_ok_frame:
  assumes "splice_ok s" and "rs_partner t = rs_partner s"
    and "\<And>i r. rm_pending (rs_m t) i = Some r \<Longrightarrow> rm_pending (rs_m s) i = Some r \<and> rs_handler t r = rs_handler s r"
    and "\<And>r. hs_splicer (half t r) = hs_splicer (half s r) \<and> hs_done (half t r) = hs_done (half s r)"
    and "\<And>r. rs_handler s r = H_exit \<Longrightarrow> rs_handler t r = H_exit"
    and "\<And>r p. rs_partner s r = Some p \<Longrightarrow> hs_splicer (half s r) \<Longrightarrow> hs_done (half s p) = Some False \<Longrightarrow>
      rs_handler s p = H_recv \<or> rs_handler s p = H_matched r \<Longrightarrow> rs_handler t p = H_recv \<or> rs_handler t p = H_matched r"
  shows "splice_ok t"
proof -
  note ok = splice_okD [OF assms(1)]
  have "hs_done (half t r) = Some False \<and> rs_handler t r = H_recv" if "rm_pending (rs_m t) i = Some r" for i r
    using assms(3) [OF that] assms(4) [of r] ok(1,2) [of i r] by simp
  moreover have "hs_done (half t p) = Some False \<and> (rs_handler t p = H_recv \<or> rs_handler t p = H_matched r)"
    if a: "rs_partner t r = Some p" "hs_splicer (half t r)" "rs_handler t r \<noteq> H_exit" for r p
    using a assms(2) assms(4) [of r] assms(4) [of p] assms(5) [of r] assms(6) [of r p] ok(3,4) [of r p] by auto
  ultimately show ?thesis unfolding splice_ok_def by blast
qed

lemma splice_step:
  assumes "resume_step s t" and "resume_inv s" and "splice_ok s"
  shows "splice_ok t"
  using assms
proof (induction rule: resume_step.induct)
  case (rs_submit s now i u my ack)
  then show ?case by (rule submit_splice_ok)
next
  case (rs_handler_recv s r p ps)
  note inv = resume_invD [OF rs_handler_recv(3)]
  note c = chanD [OF inv(3) rs_handler_recv(2)]
  have "q \<noteq> r" if "rm_pending (rs_m s) i = Some q" for i q using parkedD(3) [OF inv(1) that] c(2) by auto
  moreover have "x = p" if "rs_partner s x = Some r" for x using pairedD(4) [OF inv(2) that] c(2) by simp
  ultimately show ?case
    using rs_handler_recv(1) by (intro splice_ok_frame [OF rs_handler_recv(4)]) auto
next
  case (rs_handler_closed s r)
  note inv = resume_invD [OF rs_handler_closed(4)]
  have "q \<noteq> r" if "rm_pending (rs_m s) i = Some q" for i q using parkedD(5) [OF inv(1) that] rs_handler_closed(3) by auto
  moreover have "rs_partner s x \<noteq> Some r" for x
    using pairedD(4) [OF inv(2), of x r] pairedD(7) [OF inv(2), of r x] rs_handler_closed(3) by auto
  ultimately show ?case
    using rs_handler_closed(1) by (intro splice_ok_frame [OF rs_handler_closed(5)]) auto
next
  case (rs_expiry_recv s r p ps)
  then show ?case by (intro splice_ok_frame [OF rs_expiry_recv(4)]) auto
next
  case (rs_expiry_timer s r)
  show ?case
    by (rule splice_ok_frame [OF rs_expiry_timer(3)]) (auto simp: resume_expire_def Let_def split: if_splits)
next
  case (rs_splice_end s r p)
  note inv = resume_invD [OF rs_splice_end(3)] and ok = splice_okD [OF rs_splice_end(4)]
  have rp: "rs_partner s r = Some p" using inv(4) rs_splice_end(1) by (simp add: handler_ok_def)
  have nq: "q \<noteq> p \<and> q \<noteq> r" if "rm_pending (rs_m s) i = Some q" for i q
    using parkedD(3) [OF inv(1) that] pairedD(4) [OF inv(2) rp] rp by auto
  have np: "q \<noteq> p" if "rs_partner s x = Some q" "x \<noteq> r" for x q
    using pairedD(4) [OF inv(2) that(1)] pairedD(4) [OF inv(2) rp] that(2) by auto
  have nr: "q \<noteq> r" if "rs_partner s x = Some q" "hs_splicer (half s x)" for x q
    using pairedD(6) [OF inv(2) that(1)] that(2) rs_splice_end(2) by auto
  let ?t = "(upd_half p ((half s p)\<lparr>hs_done := Some True\<rparr>) s)\<lparr>rs_handler := (rs_handler s)(r := H_exit)\<rparr>"
  have "hs_done (half ?t q) = Some False \<and> rs_handler ?t q = H_recv" if "rm_pending (rs_m ?t) i = Some q" for i q
    using that nq [of i q] ok(1,2) [of i q] by simp
  moreover have "hs_done (half ?t q) = Some False \<and> (rs_handler ?t q = H_recv \<or> rs_handler ?t q = H_matched x)"
    if a: "rs_partner ?t x = Some q" "hs_splicer (half ?t x)" "rs_handler ?t x \<noteq> H_exit" for x q
  proof -
    have x: "rs_partner s x = Some q" "hs_splicer (half s x)" "x \<noteq> r" "rs_handler s x \<noteq> H_exit"
      using a by (simp_all split: if_splits)
    then show ?thesis using np [OF x(1,3)] nr [OF x(1,2)] ok(3,4) [OF x(1,2,4)] by simp
  qed
  ultimately show ?case unfolding splice_ok_def by blast
next
  case (rs_wait_done s r p)
  note inv = resume_invD [OF rs_wait_done(4)] and ok = splice_okD [OF rs_wait_done(5)]
  have "q \<noteq> r" if "rm_pending (rs_m s) i = Some q" for i q using ok(1) [OF that] rs_wait_done(3) by auto
  then show ?case
    using rs_wait_done(1,3) by (intro splice_ok_frame [OF rs_wait_done(5)]) auto
qed

interpretation resume_splice: inductive_invariant "\<lambda>s. s = resume_sys0" resume_step "\<lambda>s. resume_inv s \<and> splice_ok s"
proof
  fix s
  assume "s = resume_sys0"
  then show "resume_inv s \<and> splice_ok s"
    by (simp add: resume_inv_init) (simp add: resume_sys0_def newResumeMatcher_def new_half_def splice_ok_def)
qed (auto intro: resume_step_inv splice_step)

section \<open>Properties\<close>

text \<open>C23: the splice of a resumed pair is undisturbed. While the goroutine of half \<open>r\<close> splices it with \<open>p\<close>, the two halves have the
  same stream id, no other goroutine splices either stream, the handler of \<open>p\<close> has not returned, so that
  its deferred close has not cut the stream, and the \<open>done\<close> channel of \<open>p\<close> is open, so that the splicer's
  close of it does not panic.\<close>

theorem resume_splice_undisturbed:
  assumes "resume_reach s" and "rs_handler s r = H_matched p" and "hs_splicer (half s r)"
  shows "hs_id (half s r) = hs_id (half s p) \<and> \<not> hs_splicer (half s p) \<and>
    rs_handler s p \<noteq> H_exit \<and> rs_handler s p \<noteq> H_nil \<and> hs_done (half s p) = Some False \<and>
    (\<forall>x q. rs_handler s x = H_matched q \<and> hs_splicer (half s x) \<and> {x, q} \<inter> {r, p} \<noteq> {} \<longrightarrow> x = r \<and> q = p)"
proof -
  have "resume_inv s" "splice_ok s" using resume_splice.reach_inv [OF assms(1)] by auto
  note inv = resume_invD [OF this(1)] and ok = splice_okD [OF this(2)]
  have partner: "rs_partner s x = Some y" if "rs_handler s x = H_matched y" for x y
    using inv(4) that by (simp add: handler_ok_def)
  note rp = pairedD [OF inv(2) partner [OF assms(2)]]
  have "x = r \<and> q = p" if x: "rs_handler s x = H_matched q" "hs_splicer (half s x)" "{x, q} \<inter> {r, p} \<noteq> {}" for x q
  proof -
    have xq: "rs_partner s x = Some q" "rs_partner s q = Some x"
      using partner [OF x(1)] pairedD(4) [OF inv(2) partner [OF x(1)]] by simp_all
    have "x \<noteq> p" using x(2) rp(6) assms(3) by blast
    from x(3) consider "x = r" | "x = p" | "q = r" | "q = p" by auto
    then show ?thesis
    proof cases
      case 1
      then show ?thesis using xq(1) partner [OF assms(2)] by simp
    next
      case 3
      then show ?thesis using xq(2) partner [OF assms(2)] \<open>x \<noteq> p\<close> by simp
    next
      case 4
      then show ?thesis using xq(2) rp(4) by simp
    qed (use \<open>x \<noteq> p\<close> in blast)
  qed
  moreover have "hs_done (half s p) = Some False" "rs_handler s p = H_recv \<or> rs_handler s p = H_matched r"
    using ok(3,4) [OF partner [OF assms(2)] assms(3)] assms(2) by simp_all
  ultimately show ?thesis using rp(5,6) assms(3) by (metis handler_state.distinct)
qed

theorem resume_splice_undisturbed_witness:
  "rs_handler both_received (Suc 0) = H_matched 0 \<and> hs_splicer (half both_received (Suc 0)) \<and>
    rs_handler both_received 0 \<noteq> H_exit \<and> hs_done (half both_received 0) = Some False"
proof -
  have h: "rs_handler both_received (Suc 0) = H_matched 0" "hs_splicer (half both_received (Suc 0))"
    by (simp_all add: both_received_def Let_def two_halves_simps)
  then show ?thesis using resume_splice_undisturbed [OF both_received_reach h] by blast
qed

end
