(* ===== verification/Spec2Isabelle.thy ===== *)
theory Spec2Isabelle
  imports MainCfg EdgeRelays SplicePool SpliceDuplex PolicyRace CtrlStream EdgeP2P PlaneHeapInv ResumeSplice
begin

text \<open>
  \<^bold>\<open>A verification development of outrelay-relay\<close>, the stateless data plane of OutRelay: a Go process
  to which agents connect over QUIC, which authorises their streams against a policy, carries them to
  a provider on the same or on a peer relay, and lets two agents exchange UDP datagrams through it.

  \<^bold>\<open>The program and its model.\<close> Time is an explicit argument, a Go map is a partial function, and the order
  in which Go ranges over a map is an argument of whatever ranges over it. Code outside the repository
  (\<open>lib/orp\<close>, \<open>lib/transport\<close>, \<open>lib/identity\<close>, \<open>lib/resume\<close>, the controller) enters as parameters or as inputs.
  A handler is cut into phases at its blocking calls, between which the other goroutines may change
  the server in any way; what it does to the outside is a list of effects in program order.
  \<^item> \<open>Prelude\<close>, \<open>GoStrings\<close>: machine types, maps, reachability with the locales \<open>inductive_invariant\<close> and
    \<open>simulation\<close>, and Go's \<open>strings\<close> functions.
  \<^item> \<open>Glob\<close>, \<open>Policy\<close> (\<open>pkg/policy/matcher.go\<close>): glob patterns, rules, snapshot index, engine.
  \<^item> \<open>TtlStore\<close>: the locale of a store whose entries expire, interpreted by the decision cache and by the
    table of migrated streams. \<open>PolicyCache\<close> (\<open>pkg/policy/cache.go\<close>, \<open>Server.evaluate\<close>) and \<open>Watcher\<close>
    (\<open>pkg/policy/client.go\<close>): the cache, the watch session and their system, with an evaluation and an event
    as one step each. \<open>PolicyRace\<close>: the same with the lookup, the decision and the insertion of an evaluation and
    the change and the flush of an event as steps of their own, which is how they run inside the relay.
  \<^item> \<open>Plane\<close>, \<open>PlaneSys\<close>, \<open>PlaneProps\<close> (\<open>pkg/forward/plane.go\<close>): allocations, the punch handshake, forwarding,
    collection, and the plane as a transition system with an operation as one step. \<open>PlaneRun\<close>: opening the plane,
    its read loop and the loop of its ticker. \<open>PlaneHeap\<close>, \<open>PlaneHeapInv\<close>: the plane with its entries behind
    pointers and \<open>Run\<close> cut at its clock readings, critical sections and unlocked accesses; its operations refine
    those of \<open>Plane\<close>, and it simulates the system of \<open>PlaneSys\<close>.
  \<^item> \<open>HalfMatcher\<close>: the locale of a table that pairs two halves by id, interpreted by \<open>ResumeMatcher\<close>
    (\<open>pkg/edge/resume.go\<close>) and \<open>ForwardMatcher\<close> (\<open>pkg/edge/forward_resume.go\<close>), which model handlers, expiry
    goroutines and channels as interleavings. \<open>ResumeSplice\<close>: who owns the streams of a resumed pair.
  \<^item> \<open>Migrate\<close> (\<open>pkg/edge/migrate.go\<close>), \<open>Registry\<close> and \<open>Fleet\<close> (\<open>pkg/registry\<close>), \<open>AuditEmitter\<close> (\<open>pkg/audit\<close>), \<open>Pool\<close>
    (\<open>pkg/intra\<close>), \<open>Splice\<close>, \<open>SplicePool\<close> and \<open>SpliceDuplex\<close> (\<open>pkg/splice\<close>: one copy, many with buffers of the shared pool, and
    the two of a splice on the streams they share), \<open>GoNet\<close> (\<open>splitAddr\<close> with the address functions of Go's \<open>net\<close>), \<open>Wire\<close>
    (the frames and messages of the protocol), \<open>CtrlStream\<close> (\<open>AgentConn.WriteCtrl\<close>: concurrent writers of a control stream).
  \<^item> \<open>EdgeState\<close>, \<open>EdgeCtrl\<close>, \<open>EdgeCtrlProps\<close>, \<open>EdgeStream\<close>, \<open>EdgeRun\<close>, \<open>EdgeStreamProps\<close>, \<open>EdgePeer\<close>, \<open>EdgeResume\<close>, \<open>EdgeConn\<close>
    (\<open>pkg/edge/edge.go\<close>): the \<open>Server\<close>, the control loop, \<open>handleConsumerStream\<close> with its phases and runs, streams
    across relays, resumed and migrated streams, and the life of a connection. \<open>EdgeServe\<close>: the accept loops \<open>Run\<close> and
    \<open>RunListener\<close> and the whole of \<open>serveConn\<close>. \<open>EdgeP2P\<close>: what the P2P mode changes in a run.
    \<open>EdgeRelays\<close>: the lists of relays that the two halves of a stream hold. \<open>EdgeDemo\<close> is a small
    deployment for examples. \<open>Drain\<close> (\<open>Server.Drain\<close>, \<open>pkg/edge/drain.go\<close>): planned relocation.
  \<^item> \<open>RelaySys\<close>, \<open>RelayInv\<close>, \<open>RelayDemo\<close>: the whole process as one transition system over the server, its
    invariant, and runs of it. \<open>RelayStreams\<close>: the relay with every handler of a consumer's stream as a goroutine with a
    program counter. \<open>MainCfg\<close> (\<open>cmd/outrelay-relay/main.go\<close>): flags, start, goroutines, signals, exit status, TLS.

  \<^bold>\<open>What the theorems show.\<close>
  \<^item> Authorisation: an engine decides as its rules say; an answer of the policy, cached or not, is a decision of an
    engine while it was in force, and after a change decisions of the old one are gone within the time to live; every
    stream opened to a local provider leads back to two certificates and to two rules that were in force.
  \<^item> The forwarding plane binds a UDP source only by the owner's nonce, forwards only to such sources in every
    interleaving of its goroutines, keeps its indexes in agreement, collects exactly what is idle, within a bounded
    time, and keeps alive what is used.
  \<^item> Streams: one verdict per consumer, release of everything held on every path, routing of control frames to
    the other end only, isolation of agents from each other's frames, exact echo on resume, the same list of
    fall-back relays at both ends; the end of a connection releases everything the agent held.
  \<^item> Concurrency: pairing of halves, absence of lost wake-ups in the forward matcher, no leaked or closed
    connection from the pool, ordered and accounted audit events, whole frames from concurrent writers of a
    control stream, copies that share a pool of buffers and still act as if each ran alone, a splice whose
    failure in one direction ends the other and whose peers see a FIN only after a complete copy, and the
    undisturbed splice of a resumed pair.
  \<^item> The relay as a whole (below): every step of any goroutine refines the planes' own systems, so their
    theorems hold in the running process; the server record stays well-formed; a bound UDP source leads
    back to a connection with the owner's certificate; and \<open>main\<close> starts the process in that system.
  \<^item> Some theorems and lemmas state what goes wrong, each on the code as it is: exhausted allocation ids, two allocations
    on one source, a removal during a snapshot, decisions that depend on map order, a stolen wake-up of
    the resume matcher, the clean-up of an old connection that cuts off its successor, a stranger that
    disarms the P2P requirement, one that displaces an agent's punch, a forbidden P2P mode that changes
    nothing, and the callee's policy that is skipped between relays.

  \<^bold>\<open>Bounds and termination.\<close> Loops over inputs (frames, packets, events, rounds) are recursions over the list of
  what arrives; a result that a loop returns is proved for every list on which the awaited event
  occurs (the deadline of a drain, the answer of a provider). The counter of allocation ids is a 32-bit
  word that wraps; the plane's systems allocate while ids are left, and what happens beyond is a
  lemma of its own. In \<open>PlaneHeap\<close> the time a call waits for the lock after reading the clock has a bound \<open>D\<close>, which is
  arbitrary. A splice ends within two steps of a failure, given that a \<open>Read\<close> on a cancelled stream fails and that
  a \<open>Write\<close> returns, as the stream's documentation says and as the theorem assumes. Positions of resumed streams pass through signed 64-bit integers.

  \<^bold>\<open>Not modelled.\<close> Sockets, TLS handshakes, QUIC and gRPC transport and the wire encoding are outside the
  repository; what they deliver is an input. \<open>Plane.Endpoint\<close> and \<open>Plane.Close\<close> only ask and close the socket. Histograms of durations, log output and the JSONL metrics dump have no effect on behaviour.
  \<open>time.ParseDuration\<close> is a parameter of the drain handler, because it computes fractions in floating point.
  The load of \<open>entry.src\<close> in \<open>Run\<close>, which races with its stores, is one step of \<open>PlaneHeap\<close>: that a racing load of a
  value of several words may be torn is outside an interleaving model, as are the other data races listed with the findings.
\<close>

section \<open>The relay as a whole\<close>

text \<open>C1: nobody but the holder of the owner's certificate can attach a UDP source to an allocation. In every
  reachable state of the relay, if an allocation is bound to a valid source, then some connection
  that presented a certificate with the owner's URI armed a nonce for it, and a punch with that very
  nonce came from that very source, less than the pending time to live apart.\<close>

theorem relay_source_authenticated:
  assumes "relay_reach k ord env s" and "byAlloc (rl_plane s) i = Some e" and "IsValid (ae_src e)"
  shows "\<exists>ac certs n ta tp. (ac, certs) \<in> rl_served s \<and> ac_uri ac = ae_uri e \<and> uriFromConn certs = Some (ae_uri e) \<and>
    Armed ta i (ae_uri e) n \<in> set (rl_hist s) \<and> Punched tp i (ae_src e) n \<in> set (rl_hist s) \<and>
    ta < tp + pending_ttl (rl_plane s) \<and> tp \<le> ta + pending_ttl (rl_plane s)"
proof -
  from relay_reach_inv [OF assms(1)] have r: "plane_reach (plane_of s)" and so: "served_ok s" by blast+
  have "authenticated (pending_ttl (rl_plane s)) (rl_hist s) i (ae_uri e) (ae_src e)"
    using sys_invD(5) [OF plane_system.reach_inv [OF r], of i e] assms(2,3) by (simp add: plane_of_def)
  then obtain n ta tp where a: "Armed ta i (ae_uri e) n \<in> set (rl_hist s)" "Punched tp i (ae_src e) n \<in> set (rl_hist s)"
    "ta < tp + pending_ttl (rl_plane s)" "tp \<le> ta + pending_ttl (rl_plane s)"
    by (auto simp: authenticated_def)
  from a(1) have "ae_uri e \<in> armed_uris (rl_hist s)" by (auto simp: armed_uris_def)
  then obtain ac certs where "(ac, certs) \<in> rl_served s" "ac_uri ac = ae_uri e"
    using so by (fastforce simp: served_ok_def)
  moreover from this have "uriFromConn certs = Some (ae_uri e)" using so by (fastforce simp: served_ok_def)
  ultimately show ?thesis using a by blast
qed

theorem relay_source_authenticated_witness:
  "\<exists>ac certs n ta tp. (ac, certs) \<in> rl_served rd5 \<and> ac_uri ac = ''a'' \<and> uriFromConn certs = Some ''a'' \<and>
    Armed ta 1 ''a'' n \<in> set (rl_hist rd5) \<and> Punched tp 1 demo_src n \<in> set (rl_hist rd5)"
proof -
  have "IsValid demo_src" by (simp add: IsValid_def demo_src_def)
  with relay_source_authenticated [OF rd5_reach rd5_entry] show ?thesis by auto
qed



text \<open>C4: the relay refines its two planes. Whatever all the goroutines of the process do, the forwarding
  plane inside the server has only made steps of the plane's own transition system, and the policy
  engine with its cache and the evaluations in flight only steps of theirs, so every theorem about those
  systems holds in the relay.\<close>

theorem relay_refines_planes:
  assumes "relay_reach k ord env s"
  shows "plane_reach (plane_of s) \<and> race_reach k ord (en_cord env) (race_of s)"
  using relay_reach_inv [OF assms] by blast

theorem relay_refines_planes_witness:
  "plane_reach (plane_of rd5) \<and> race_reach wire0 key_order (en_cord rd_env) (race_of rd5)"
  by (rule relay_refines_planes [OF rd5_reach])

text \<open>C16: the server of a running relay is well-formed in every reachable state. Agents are registered under
  their own URI and tracked, rows of migrated streams are under their own id, stream id 0 is never
  recorded, the audit queue and the decision cache are within their bounds, the indexes of the
  forwarding plane agree, the snapshot of every engine that was in force belongs to its rules, and every cached
  decision was taken by such an engine while it was in force and expires within \<open>CacheTTL\<close>.\<close>

theorem relay_well_formed:
  assumes "relay_reach k ord env s" and "valid_ord ord" and "valid_ord (en_cord env)"
  shows "srv_ok (rl_srv s) \<and> plane_inv (rl_plane s) \<and> Cache_Len (the (sv_cache (rl_srv s))) \<le> CacheCapacity \<and>
    (rl_now s, the (sv_policy (rl_srv s))) \<in> rl_force s \<and> (\<forall>(u, e) \<in> rl_force s. u \<le> rl_now s \<and> engine_ok e) \<and>
    (\<forall>key ce. the (sv_cache (rl_srv s)) key = Some ce \<longrightarrow>
       ce_expires ce \<le> rl_now s + CacheTTL \<and> (\<exists>(u, e) \<in> rl_force s. ce_res ce = decide_key e key u))"
proof -
  from relay_reach_inv [OF assms(1)] have ok: "srv_ok (rl_srv s)" and p: "plane_reach (plane_of s)"
    and r: "race_ran k ord env s" by blast+
  have "plane_inv (rl_plane s)" using sys_invD(1) [OF plane_system.reach_inv [OF p]] by (simp add: plane_of_def)
  moreover have "race_ok (race_of s)" "race_inv (race_of s)" by (rule race_reach_ok [OF r assms(2,3)], rule race_system.reach_inv [OF r])
  ultimately show ?thesis
    using ok by (auto simp: race_ok_def race_inv_def race_of_def watcher_of_def from_engines_def cache_ok_def Cache_Len_def)
qed

theorem relay_well_formed_witness:
  "srv_ok (rl_srv rd5) \<and> plane_inv (rl_plane rd5) \<and> (rl_now rd5, the (sv_policy (rl_srv rd5))) \<in> rl_force rd5"
proof -
  have "valid_ord (en_cord rd_env)" using valid_key_order by (simp add: rd_env_def)
  from relay_well_formed [OF rd5_reach valid_key_order this] show ?thesis by simp
qed

section \<open>The start of the process\<close>

text \<open>C37: a process started with a tenant and a forwarding address starts as the relay system says. When
  \<open>main\<close> gets past its checks, the server it built is an initial state of that system, it advertises the
  successors computed from the fleet the controller returned, its heartbeat goes on under the same
  name, region and advertised endpoint, peers are dialled with the CA of the server's clients
  and the relay check, and the goroutines of the policy watcher, the audit sender, the forwarding plane,
  the heartbeat and the signals are running.\<close>

theorem main_starts_relay:
  assumes "main_start SortFunc f io = Inr p" and "fl_tenant f \<noteq> []" and "fl_listenForward f \<noteq> []"
  shows "relay_init \<lparr>rl_now = t, rl_srv = pr_srv p, rl_pending = [], rl_inSnapshot = b, rl_served = {}, rl_hist = [],
      rl_flight = Map.empty, rl_force = {(t, NewEngine)}\<rparr> \<and>
    (\<exists>fleet c. io_upsert io = Inr fleet \<and> io_tls io = Inr c \<and>
       sv_successors (pr_srv p) = Successors SortFunc (relay_name f) (fl_region f) fleet \<and>
       RootCAs (pr_intra p) = ClientCAs c \<and> VerifiesRelay (pr_intra p)) \<and>
    hb_id (pr_heartbeat p) = reg_relayID (sv_reg (pr_srv p)) \<and> hb_region (pr_heartbeat p) = reg_region (sv_reg (pr_srv p)) \<and>
    hb_endpoint (pr_heartbeat p) = advertised f \<and>
    {GoWatcher (fl_tenant f), GoAudit, GoPlane, GoHeartbeat, GoSignal} \<subseteq> set (fst (main_run SortFunc f io))"
proof (rule main_start_process [OF assms(1)])
  fix c creds fleet
  assume io: "io_tls io = Inr c" "io_upsert io = Inr fleet"
    and p: "p = \<lparr>pr_srv = main_server SortFunc f fleet (if fl_listenForward f = [] then None else Some NewPlane), pr_heartbeat = main_heartbeat f, pr_drain = main_drain f,
          pr_creds = creds, pr_intra = intraTLS c\<rparr>"
    and gs: "set (fst (main_run SortFunc f io)) \<supseteq> {GoHeartbeat, GoSignal}"
      "fl_tenant f \<noteq> [] \<Longrightarrow> GoWatcher (fl_tenant f) \<in> set (fst (main_run SortFunc f io)) \<and> GoAudit \<in> set (fst (main_run SortFunc f io))"
      "GoPlane \<in> set (fst (main_run SortFunc f io)) \<longleftrightarrow> fl_listenForward f \<noteq> []"
  obtain d d' where np: "NewPlane = SetIdleTTL d (SetPendingTTL d' NewPlane)" using NewPlane_TTLs by blast
  have "relay_init \<lparr>rl_now = t, rl_srv = pr_srv p, rl_pending = [], rl_inSnapshot = b, rl_served = {}, rl_hist = [],
      rl_flight = Map.empty, rl_force = {(t, NewEngine)}\<rparr>"
    unfolding relay_init_def
  proof (intro conjI exI)
    show "rl_srv \<lparr>rl_now = t, rl_srv = pr_srv p, rl_pending = [], rl_inSnapshot = b, rl_served = {}, rl_hist = [],
      rl_flight = Map.empty, rl_force = {(t, NewEngine)}\<rparr> =
      SetSuccessors (Successors SortFunc (relay_name f) (fl_region f) fleet) (edge_New (Registry_New (relay_name f) (fl_region f))
        (Some NewEngine) (Some NewCache) (Some NewEmitter) (Some NewPool) (Some (SetIdleTTL d (SetPendingTTL d' NewPlane))) True)"
      using assms(2,3) by (simp add: p main_server_def flip: np)
  qed simp_all
  then show ?thesis
    using io gs assms(2,3) by (simp add: p main_server_def SetSuccessors_def edge_New_def Registry_New_def intraTLS_def main_heartbeat_def
        OnSuccessors_def NewHeartbeat_def Let_def)
qed

definition demo_flags :: flags where
  "demo_flags = default_flags\<lparr>fl_certPath := ''c'', fl_keyPath := ''k'', fl_caPath := ''a'', fl_tenant := ''t'',
     fl_listenForward := ''0.0.0.0:9443''\<rparr>"

definition demo_start :: start_io where
  "demo_start = \<lparr>io_tls = loadServerTLS (Inr ''cert'') (Inr ''ca'') True, io_client = True, io_upsert = Inr fleet3,
     io_resolve = None, io_bind = None, io_tcp = True\<rparr>"

theorem main_starts_relay_witness:
  "\<exists>p. main_start (sort_key ri_Id) demo_flags demo_start = Inr p \<and>
     relay_init \<lparr>rl_now = 0, rl_srv = pr_srv p, rl_pending = [], rl_inSnapshot = False, rl_served = {}, rl_hist = [],
      rl_flight = Map.empty, rl_force = {(0, NewEngine)}\<rparr>"
proof -
  obtain p where p: "main_start (sort_key ri_Id) demo_flags demo_start = Inr p"
    by (simp add: main_start_def main_run_def main_register_def main_forward_def openPlane_def Let_def demo_flags_def demo_start_def default_flags_def loadServerTLS_def
        controllerCreds_def)
  with main_starts_relay [OF p, of 0 False] show ?thesis by (simp add: demo_flags_def)
qed

end
